(* ===== verification/Prelude.thy ===== *)
theory Prelude
  imports Complex_Main "HOL-Library.AList" "HOL-Library.Monad_Syntax" "HOL-Library.Sublist"
begin

text \<open>
  Shared vocabulary of the development: the Go values every component uses and the lemmas
  about them.

  \<^item> Go maps (\<open>gmap\<close>): \<open>NilMap\<close> is the nil map, \<open>Map al\<close> a made map whose entries are
    an association list. The order of the list stands for the unspecified iteration order
    of a Go \<open>range\<close>; no theorem fixes it. Reading a missing key gives the zero
    value, writing into a nil map panics (\<open>m_put\<close> is then \<open>None\<close>).
  \<^item> Instants (\<open>time\<close>) are nanoseconds since the zero \<open>time.Time\<close> (1 January of year 1,
    UTC), so \<open>IsZero\<close> is equality with 0 and the Unix epoch is a non-zero instant.
    Durations are \<open>int64\<close> nanoseconds: products wrap, \<open>Sub\<close> saturates.
  \<^item> Go strings are byte strings, that is \<open>string\<close>.
  \<^item> A panic is \<open>None\<close> in an option result.
\<close>

section \<open>Collections of simplification rules\<close>

named_theorems gmap_simps \<open>reads of Go maps after writes\<close>
named_theorems time_simps \<open>unfolding of instants and durations\<close>

section \<open>Go maps\<close>

datatype ('k, 'v) gmap = NilMap | Map "('k \<times> 'v) list"

fun m_entries :: "('k, 'v) gmap \<Rightarrow> ('k \<times> 'v) list" where
  "m_entries NilMap = []"
| "m_entries (Map al) = al"

abbreviation mkmap :: "('k, 'v) gmap" where
  "mkmap \<equiv> Map []"

definition m_lookup :: "('k, 'v) gmap \<Rightarrow> 'k \<Rightarrow> 'v option" where
  "m_lookup m k = map_of (m_entries m) k"

definition m_get :: "'v \<Rightarrow> ('k, 'v) gmap \<Rightarrow> 'k \<Rightarrow> 'v" where
  "m_get z m k = (case m_lookup m k of None \<Rightarrow> z | Some v \<Rightarrow> v)"

definition m_has :: "('k, 'v) gmap \<Rightarrow> 'k \<Rightarrow> bool" where
  "m_has m k = (m_lookup m k \<noteq> None)"

text \<open>Write into a map known to be made, and the general write that panics on nil.\<close>

definition m_ins :: "'k \<Rightarrow> 'v \<Rightarrow> ('k, 'v) gmap \<Rightarrow> ('k, 'v) gmap" where
  "m_ins k v m = Map (AList.update k v (m_entries m))"

definition m_put :: "'k \<Rightarrow> 'v \<Rightarrow> ('k, 'v) gmap \<Rightarrow> ('k, 'v) gmap option" where
  "m_put k v m = (case m of NilMap \<Rightarrow> None | Map al \<Rightarrow> Some (m_ins k v m))"

fun m_del :: "'k \<Rightarrow> ('k, 'v) gmap \<Rightarrow> ('k, 'v) gmap" where
  "m_del k NilMap = NilMap"
| "m_del k (Map al) = Map (AList.delete k al)"

definition m_len :: "('k, 'v) gmap \<Rightarrow> nat" where
  "m_len m = length (m_entries m)"

definition m_keys :: "('k, 'v) gmap \<Rightarrow> 'k list" where
  "m_keys m = map fst (m_entries m)"

text \<open>A \<open>range\<close> over a map whose body deletes the keys that satisfy a predicate.\<close>

fun m_delete_if :: "('k \<Rightarrow> bool) \<Rightarrow> ('k, 'v) gmap \<Rightarrow> ('k, 'v) gmap" where
  "m_delete_if P NilMap = NilMap"
| "m_delete_if P (Map al) =
     Map (fold (\<lambda>k al'. if P k then AList.delete k al' else al') (map fst al) al)"

text \<open>Every Go map holds a key at most once.\<close>

definition m_wf :: "('k, 'v) gmap \<Rightarrow> bool" where
  "m_wf m \<longleftrightarrow> distinct (m_keys m)"

section \<open>Instants and durations\<close>

type_synonym time = int
type_synonym duration = int

definition IsZero :: "time \<Rightarrow> bool" where
  "IsZero t \<longleftrightarrow> t = 0"

definition Second :: duration where "Second = 1000000000"
definition Minute :: duration where "Minute = 60 * Second"
definition Hour :: duration where "Hour = 60 * Minute"

text \<open>\<open>int64\<close> arithmetic: wrap-around of products, saturation of \<open>Time.Sub\<close>.\<close>

definition wrap64 :: "int \<Rightarrow> int" where
  "wrap64 x = (x + 2 ^ 63) mod 2 ^ 64 - 2 ^ 63"

definition sat64 :: "int \<Rightarrow> int" where
  "sat64 x = max (- (2 ^ 63)) (min (2 ^ 63 - 1) x)"

definition Add :: "time \<Rightarrow> duration \<Rightarrow> time" where
  "Add t d = t + d"

definition Sub :: "time \<Rightarrow> time \<Rightarrow> duration" where
  "Sub t u = sat64 (t - u)"

definition After :: "time \<Rightarrow> time \<Rightarrow> bool" where
  "After t u \<longleftrightarrow> u < t"

definition Before :: "time \<Rightarrow> time \<Rightarrow> bool" where
  "Before t u \<longleftrightarrow> t < u"

text \<open>\<open>time.Since(t)\<close> read at instant \<open>now\<close>, and \<open>time.Unix(0, 0)\<close>.\<close>

definition Since :: "time \<Rightarrow> time \<Rightarrow> duration" where
  "Since now t = Sub now t"

definition UnixZero :: time where
  "UnixZero = 62135596800 * Second"

declare IsZero_def [time_simps] Second_def [time_simps] Minute_def [time_simps]
  Hour_def [time_simps] Add_def [time_simps] Sub_def [time_simps] After_def [time_simps]
  Before_def [time_simps] Since_def [time_simps] UnixZero_def [time_simps]

section \<open>Strings\<close>

text \<open>Decimal digits as \<open>fmt\<close> prints them with \<open>%d\<close>.\<close>

fun digits10 :: "nat \<Rightarrow> string" where
  "digits10 n =
     (if n < 10 then [char_of (48 + n)] else digits10 (n div 10) @ [char_of (48 + n mod 10)])"

definition itoa :: "int \<Rightarrow> string" where
  "itoa i = (if i < 0 then ''-'' @ digits10 (nat (- i)) else digits10 (nat i))"

definition HasPrefix :: "string \<Rightarrow> string \<Rightarrow> bool" where
  "HasPrefix s p \<longleftrightarrow> take (length p) s = p"

definition HasSuffix :: "string \<Rightarrow> string \<Rightarrow> bool" where
  "HasSuffix s p \<longleftrightarrow> length p \<le> length s \<and> drop (length s - length p) s = p"

text \<open>\<open>strings.Contains\<close>.\<close>

fun Contains :: "string \<Rightarrow> string \<Rightarrow> bool" where
  "Contains [] p = (p = [])"
| "Contains (c # s) p = (HasPrefix (c # s) p \<or> Contains s p)"

text \<open>\<open>strings.Join\<close>.\<close>

fun Join :: "string list \<Rightarrow> string \<Rightarrow> string" where
  "Join [] sep = ''''"
| "Join [x] sep = x"
| "Join (x # y # ys) sep = x @ sep @ Join (y # ys) sep"

text \<open>The names of the product, from \<open>src/seer/identity.go\<close>.\<close>

definition ProductName :: string where
  "ProductName = ''NosNode Seer''"

definition BrandName :: string where
  "BrandName = ''NosNode'' @ [CHR 0xF0, CHR 0x9F, CHR 0x94, CHR 0xAE]"

declare digits10.simps [simp del]

section \<open>Lemmas on Go maps\<close>

lemma m_lookup_Nil [simp]: "m_lookup NilMap = Map.empty" "m_lookup mkmap = Map.empty"
  by (simp_all add: m_lookup_def fun_eq_iff)

lemma m_get_Nil [simp]: "m_get z NilMap k = z" "m_get z mkmap k = z"
  by (simp_all add: m_get_def)

lemma m_has_Nil [simp]: "\<not> m_has NilMap k" "\<not> m_has mkmap k"
  by (simp_all add: m_has_def)

lemma m_entries_ins [simp]: "m_entries (m_ins k v m) = AList.update k v (m_entries m)"
  by (simp add: m_ins_def)

lemma m_entries_del [simp]: "m_entries (m_del k m) = AList.delete k (m_entries m)"
  by (cases m) simp_all

lemma m_ins_not_Nil [simp]: "m_ins k v m \<noteq> NilMap" "NilMap \<noteq> m_ins k v m"
  by (simp_all add: m_ins_def)

lemma m_del_eq_Nil [simp]: "m_del k m = NilMap \<longleftrightarrow> m = NilMap"
  by (cases m) simp_all

lemma m_put_made [simp]: "m \<noteq> NilMap \<Longrightarrow> m_put k v m = Some (m_ins k v m)"
  by (cases m) (simp_all add: m_put_def)

lemma m_put_Nil [simp]: "m_put k v NilMap = None"
  by (simp add: m_put_def)

lemma m_lookup_ins [gmap_simps]:
  "m_lookup (m_ins k v m) k' = (if k' = k then Some v else m_lookup m k')"
  by (simp add: m_lookup_def update_conv)

lemma m_lookup_del [gmap_simps]:
  "m_lookup (m_del k m) k' = (if k' = k then None else m_lookup m k')"
  by (simp add: m_lookup_def delete_conv)

lemma m_get_ins [gmap_simps]: "m_get z (m_ins k v m) k' = (if k' = k then v else m_get z m k')"
  by (simp add: m_get_def gmap_simps)

lemma m_get_del [gmap_simps]: "m_get z (m_del k m) k' = (if k' = k then z else m_get z m k')"
  by (simp add: m_get_def gmap_simps)

lemma m_has_ins [gmap_simps]: "m_has (m_ins k v m) k' \<longleftrightarrow> k' = k \<or> m_has m k'"
  by (simp add: m_has_def gmap_simps)

lemma m_has_del [gmap_simps]: "m_has (m_del k m) k' \<longleftrightarrow> k' \<noteq> k \<and> m_has m k'"
  by (simp add: m_has_def gmap_simps)

lemma m_has_iff_keys: "m_has m k \<longleftrightarrow> k \<in> set (m_keys m)"
proof -
  have "(map_of (m_entries m) k = None) = (k \<notin> set (map fst (m_entries m)))"
    by (simp add: map_of_eq_None_iff)
  then show ?thesis by (auto simp: m_has_def m_lookup_def m_keys_def)
qed

lemma m_wf_Nil [simp]: "m_wf NilMap" "m_wf mkmap"
  by (simp_all add: m_wf_def m_keys_def)

lemma m_wf_ins [simp]: "m_wf m \<Longrightarrow> m_wf (m_ins k v m)"
  by (simp add: m_wf_def m_keys_def distinct_update)

lemma m_wf_del [simp]: "m_wf m \<Longrightarrow> m_wf (m_del k m)"
  by (simp add: m_wf_def m_keys_def distinct_delete)

text \<open>
  Deleting, while ranging over a map, every key that satisfies a predicate leaves exactly
  the entries whose key does not.
\<close>

lemma fold_delete_filter:
  "fold (\<lambda>k al. if P k then AList.delete k al else al) ks al =
     filter (\<lambda>e. \<not> (fst e \<in> set ks \<and> P (fst e))) al"
proof (induction ks arbitrary: al)
  case Nil
  then show ?case by simp
next
  case (Cons k ks)
  show ?case
    by (cases "P k")
      (auto simp: Cons.IH AList.delete_eq split_def intro!: filter_cong)
qed

lemma fold_delete_keys:
  "fold (\<lambda>k al. if P k then AList.delete k al else al) (map fst al) al =
     filter (\<lambda>e. \<not> P (fst e)) al"
  by (simp add: fold_delete_filter cong: filter_cong)

lemma map_of_filter_key:
  "map_of (filter (\<lambda>e. P (fst e)) al) k = (if P k then map_of al k else None)"
  by (induction al) auto

lemma m_entries_delete_if: "m_entries (m_delete_if P m) = filter (\<lambda>e. \<not> P (fst e)) (m_entries m)"
  by (cases m) (simp_all add: fold_delete_keys)

lemma m_delete_if_eq_Nil [simp]: "m_delete_if P m = NilMap \<longleftrightarrow> m = NilMap"
  by (cases m) simp_all

lemma m_lookup_delete_if [gmap_simps]:
  "m_lookup (m_delete_if P m) k = (if P k then None else m_lookup m k)"
  by (simp add: m_lookup_def m_entries_delete_if map_of_filter_key [of "\<lambda>k. \<not> P k"])

lemma m_wf_delete_if [simp]: "m_wf m \<Longrightarrow> m_wf (m_delete_if P m)"
  by (simp add: m_wf_def m_keys_def m_entries_delete_if distinct_map_filter)

text \<open>The size of a well-formed map is the number of keys it is defined on.\<close>

lemma m_len_card: "m_wf m \<Longrightarrow> m_len m = card (dom (m_lookup m))"
proof -
  assume wf: "m_wf m"
  have "dom (m_lookup m) = set (m_keys m)"
    using m_has_iff_keys [of m] by (auto simp: m_has_def dom_def)
  with wf show ?thesis
    by (metis distinct_card length_map m_keys_def m_len_def m_wf_def)
qed

section \<open>Lemmas on instants\<close>

lemma sat64_bounds: "- (2 ^ 63) \<le> sat64 x" "sat64 x \<le> 2 ^ 63 - 1"
  by (simp_all add: sat64_def)

lemma sat64_id: "- (2 ^ 63) \<le> x \<Longrightarrow> x \<le> 2 ^ 63 - 1 \<Longrightarrow> sat64 x = x"
  by (simp add: sat64_def)

lemma wrap64_id: "- (2 ^ 63) \<le> x \<Longrightarrow> x < 2 ^ 63 \<Longrightarrow> wrap64 x = x"
  by (simp add: wrap64_def)

lemma wrap64_bounds: "- (2 ^ 63) \<le> wrap64 x" "wrap64 x < 2 ^ 63"
  using pos_mod_bound [of "2 ^ 64" "x + 2 ^ 63"] pos_mod_sign [of "2 ^ 64" "x + 2 ^ 63"]
  by (simp_all add: wrap64_def)

text \<open>A comparison of a saturated difference with a threshold in range is exact.\<close>

lemma sat64_ge_iff: "- (2 ^ 63) < c \<Longrightarrow> c \<le> 2 ^ 63 - 1 \<Longrightarrow> c \<le> sat64 x \<longleftrightarrow> c \<le> x"
  by (auto simp: sat64_def)

lemma sat64_gt_iff: "- (2 ^ 63) \<le> c \<Longrightarrow> c < 2 ^ 63 - 1 \<Longrightarrow> c < sat64 x \<longleftrightarrow> c < x"
  by (auto simp: sat64_def)

section \<open>Lemmas on strings\<close>

lemma HasPrefix_append [simp]: "HasPrefix (p @ s) p"
  by (simp add: HasPrefix_def)

lemma HasPrefix_iff: "HasPrefix s p \<longleftrightarrow> (\<exists>t. s = p @ t)"
  by (metis HasPrefix_append HasPrefix_def append_take_drop_id)

lemma HasSuffix_iff: "HasSuffix s p \<longleftrightarrow> (\<exists>t. s = t @ p)"
proof
  assume "HasSuffix s p"
  then have "s = take (length s - length p) s @ p"
    by (metis HasSuffix_def append_take_drop_id)
  then show "\<exists>t. s = t @ p" ..
qed (auto simp: HasSuffix_def)

lemma Contains_iff: "Contains s p \<longleftrightarrow> (\<exists>u v. s = u @ p @ v)"
proof (induction s)
  case Nil
  then show ?case by auto
next
  case (Cons c s)
  have "(\<exists>u v. c # s = u @ p @ v) \<longleftrightarrow> HasPrefix (c # s) p \<or> (\<exists>u v. s = u @ p @ v)"
    by (auto simp: HasPrefix_iff Cons_eq_append_conv)
  with Cons.IH show ?case by simp
qed

end
