(* ===== verification/Transition.thy ===== *)
theory Transition
  imports Prelude
begin

text \<open>
  Transition systems and the interfaces several components share.

  \<^item> \<open>reach\<close> and the locale \<open>invariant_system\<close>: an invariant that holds at the start and is
    kept by every step holds in every reachable state. The delivery protocol and the
    process lifecycle interpret it.
  \<^item> the locale \<open>descent\<close>: a system that cannot run forever and stops only at its end.
  \<^item> the locales \<open>raise_guard\<close> and \<open>latch\<close>: the contracts of the alarms that remember whether
    they have been raised. A guarded alarm is raised only when its flag is off; a latch in
    addition resolves only when it is on. The client lemmas say that the raises of any run
    are separated by resolutions, and that the events of a latch alternate.
  \<^item> the locale \<open>recent_history\<close>: bounded histories with the newest entry first.
\<close>

section \<open>Reachable states\<close>

inductive reach :: "('s \<Rightarrow> bool) \<Rightarrow> ('s \<Rightarrow> 's \<Rightarrow> bool) \<Rightarrow> 's \<Rightarrow> bool"
  for init :: "'s \<Rightarrow> bool" and step :: "'s \<Rightarrow> 's \<Rightarrow> bool" where
  reach_init: "init s \<Longrightarrow> reach init step s"
| reach_step: "reach init step s \<Longrightarrow> step s t \<Longrightarrow> reach init step t"

lemma reach_steps: "step\<^sup>*\<^sup>* s t \<Longrightarrow> reach init step s \<Longrightarrow> reach init step t"
  by (induction rule: rtranclp_induct) (auto intro: reach_step)

section \<open>Alternating events\<close>

text \<open>An alarm event: \<open>Raise\<close> is an alert with \<open>resolved = false\<close>, \<open>Clear\<close> one with \<open>true\<close>.\<close>

datatype alarm_event = Raise | Clear

fun alternates :: "bool \<Rightarrow> alarm_event list \<Rightarrow> bool" where
  "alternates on [] = True"
| "alternates on (Raise # es) = (\<not> on \<and> alternates True es)"
| "alternates on (Clear # es) = (on \<and> alternates False es)"

text \<open>No two raises without a resolution in between; resolutions are free.\<close>

fun guarded :: "bool \<Rightarrow> alarm_event list \<Rightarrow> bool" where
  "guarded on [] = True"
| "guarded on (Raise # es) = (\<not> on \<and> guarded True es)"
| "guarded on (Clear # es) = guarded False es"

text \<open>The latch after a list of events.\<close>

fun latch_after :: "bool \<Rightarrow> alarm_event list \<Rightarrow> bool" where
  "latch_after on [] = on"
| "latch_after on (Raise # es) = latch_after True es"
| "latch_after on (Clear # es) = latch_after False es"

text \<open>Events of a run of a step function over its inputs.\<close>

fun run_events :: "('i \<Rightarrow> 's \<Rightarrow> alarm_event list \<times> 's) \<Rightarrow> 'i list \<Rightarrow> 's \<Rightarrow> alarm_event list" where
  "run_events f [] s = []"
| "run_events f (i # is) s = (case f i s of (es, s') \<Rightarrow> es @ run_events f is s')"

fun run_state :: "('i \<Rightarrow> 's \<Rightarrow> alarm_event list \<times> 's) \<Rightarrow> 'i list \<Rightarrow> 's \<Rightarrow> 's" where
  "run_state f [] s = s"
| "run_state f (i # is) s = run_state f is (snd (f i s))"

lemma alternates_append:
  "alternates on (xs @ ys) \<longleftrightarrow> alternates on xs \<and> alternates (latch_after on xs) ys"
  by (induction on xs rule: alternates.induct) auto

lemma latch_after_append: "latch_after on (xs @ ys) = latch_after (latch_after on xs) ys"
  by (induction on xs rule: latch_after.induct) auto

text \<open>Counted from an off latch, an alternating history has as many raises as clears, or one more.\<close>

lemma alternates_counts:
  "alternates on es \<Longrightarrow>
     int (count_list es Raise) - int (count_list es Clear) =
       (if latch_after on es then 1 else 0) - (if on then 1 else 0)"
  by (induction on es rule: alternates.induct) auto

section \<open>The interfaces\<close>

locale invariant_system =
  fixes init :: "'s \<Rightarrow> bool" and step :: "'s \<Rightarrow> 's \<Rightarrow> bool" and inv :: "'s \<Rightarrow> bool"
  assumes inv_init: "init s \<Longrightarrow> inv s"
    and inv_step: "inv s \<Longrightarrow> step s t \<Longrightarrow> inv t"
begin

lemma reach_inv: "reach init step s \<Longrightarrow> inv s"
  by (induction rule: reach.induct) (auto intro: inv_init inv_step)

end

text \<open>
  A system that ends: in a state that is live, every step decreases an effort and keeps it live, and there is a
  step unless the end is reached. The shutdown of the process and of a websocket session
  interpret it.
\<close>

locale descent =
  fixes step :: "'s \<Rightarrow> 's \<Rightarrow> bool" and live :: "'s \<Rightarrow> bool" and eff :: "'s \<Rightarrow> nat" and ended :: "'s \<Rightarrow> bool"
  assumes live_step: "live s \<Longrightarrow> step s t \<Longrightarrow> live t"
    and eff_step: "live s \<Longrightarrow> step s t \<Longrightarrow> eff t < eff s"
    and moves: "live s \<Longrightarrow> \<not> ended s \<Longrightarrow> \<exists>t. step s t"
begin

lemma steps_bounded: "(step ^^ n) s t \<Longrightarrow> live s \<Longrightarrow> n + eff t \<le> eff s \<and> live t"
proof (induction n arbitrary: t)
  case (Suc n)
  then obtain u where u: "(step ^^ n) s u" "step u t" by auto
  with Suc.IH [OF u(1)] Suc.prems(2) live_step [of u t] eff_step [of u t] show ?case by simp
qed simp

lemma runs_end:
  assumes "live s"
  shows "(step ^^ n) s t \<Longrightarrow> n \<le> eff s" "step\<^sup>*\<^sup>* s t \<Longrightarrow> \<nexists>u. step t u \<Longrightarrow> live t \<and> ended t"
proof -
  show "(step ^^ n) s t \<Longrightarrow> n \<le> eff s" using steps_bounded assms by fastforce
  show "step\<^sup>*\<^sup>* s t \<Longrightarrow> \<nexists>u. step t u \<Longrightarrow> live t \<and> ended t"
    using rtranclp_imp_relpowp [of step s t] steps_bounded assms moves by blast
qed

end

text \<open>
  The weaker contract first: an alarm is raised only while its flag is off, and a resolution
  turns the flag off whether or not it was on.
\<close>

locale raise_guard =
  fixes act :: "'i \<Rightarrow> 's \<Rightarrow> alarm_event list \<times> 's" and on :: "'s \<Rightarrow> bool"
  assumes raise_or_clear: "fst (act i s) = [] \<or> fst (act i s) = [Raise] \<or> fst (act i s) = [Clear]"
    and quiet: "fst (act i s) = [] \<Longrightarrow> on (snd (act i s)) = on s"
    and raises: "fst (act i s) = [Raise] \<Longrightarrow> \<not> on s \<and> on (snd (act i s))"
    and clears_off: "fst (act i s) = [Clear] \<Longrightarrow> \<not> on (snd (act i s))"
begin

lemma run_guarded:
  "guarded (on s) (run_events act is s) \<and>
     latch_after (on s) (run_events act is s) = on (run_state act is s)"
proof (induction "is" arbitrary: s)
  case Nil
  then show ?case by simp
next
  case (Cons i "is")
  show ?case
    using raise_or_clear [of i s] quiet [of i s] raises [of i s] clears_off [of i s]
      Cons.IH [of "snd (act i s)"]
    by (auto simp: split_def)
qed

end

locale latch = raise_guard +
  assumes clears_on: "fst (act i s) = [Clear] \<Longrightarrow> on s"
begin

lemma act_alternates:
  "alternates (on s) (fst (act i s)) \<and> latch_after (on s) (fst (act i s)) = on (snd (act i s))"
  using raise_or_clear [of i s] quiet [of i s] raises [of i s] clears_off [of i s] clears_on [of i s]
  by auto

lemma run_latch:
  "alternates (on s) (run_events act is s) \<and>
     latch_after (on s) (run_events act is s) = on (run_state act is s)"
proof (induction "is" arbitrary: s)
  case Nil
  then show ?case by simp
next
  case (Cons i "is")
  show ?case
    using act_alternates [of s i] Cons.IH [of "snd (act i s)"]
    by (simp add: alternates_append latch_after_append split_def)
qed

lemma run_counts:
  assumes "\<not> on s"
  shows "count_list (run_events act is s) Clear \<le> count_list (run_events act is s) Raise \<and>
    count_list (run_events act is s) Raise \<le> Suc (count_list (run_events act is s) Clear)"
  using alternates_counts [of "on s" "run_events act is s"] run_latch [of s "is"] assms
  by (simp split: if_splits)

end

text \<open>
  A history that keeps the most recent entries: pushing puts the new entry in front and
  cuts at the capacity. The block results of a chain and the log of the dashboard
  interpret it.
\<close>

locale recent_history =
  fixes push :: "'a \<Rightarrow> 's \<Rightarrow> 's" and view :: "'s \<Rightarrow> 'a list" and cap :: "'s \<Rightarrow> nat"
    and fits :: "'s \<Rightarrow> bool"
  assumes push_view: "fits s \<Longrightarrow> view (push x s) = take (cap s) (x # view s)"
    and push_cap: "fits s \<Longrightarrow> cap (push x s) = cap s"
    and push_fits: "fits s \<Longrightarrow> fits (push x s)"
    and view_cap: "fits s \<Longrightarrow> length (view s) \<le> cap s"
begin

lemma pushes: "fits s \<Longrightarrow> fits (fold push xs s) \<and> cap (fold push xs s) = cap s \<and>
    view (fold push xs s) = take (cap s) (rev xs @ view s)"
proof (induction xs arbitrary: s)
  case Nil
  then show ?case using view_cap by simp
next
  case (Cons x xs)
  have "take (cap s) (rev xs @ take (cap s) (x # view s)) = take (cap s) (rev xs @ x # view s)"
    by simp
  with Cons.IH [OF push_fits [OF Cons.prems]] push_view [OF Cons.prems] push_cap [OF Cons.prems]
  show ?case by simp
qed

text \<open>The entry pushed \<open>i\<close> steps ago is at position \<open>i\<close>, until the capacity is reached.\<close>

lemma pushed_at:
  assumes "fits s" "i < length xs" "i < cap s"
  shows "view (fold push xs s) ! i = xs ! (length xs - Suc i)"
  using pushes [OF assms(1)] assms(2,3) by (simp add: nth_append rev_nth)

lemma pushes_length:
  "fits s \<Longrightarrow> length (view (fold push xs s)) = min (cap s) (length xs + length (view s))"
  using pushes by simp

end

end
