(* ===== verification/AlarmCache.thy ===== *)
theory AlarmCache
  imports Transition
begin

text \<open>
  The alarm cache of \<open>src/seer/alert.go\<close>: which alarms each destination has accepted
  (\<open>SentPdAlarms\<close> and its three siblings), which the dashboard shows (\<open>AllAlarms\<close>), when
  PagerDuty last accepted each one (\<open>flappingAlarms\<close>), and which deliveries are under way
  (\<open>inFlight\<close>). Each operation runs under the cache's own mutex and is one function
  here; the clock reading of an operation is its argument \<open>now\<close>.

  The lemmas describe the operations through four views (\<open>sent_at\<close>, \<open>in_flight\<close>,
  \<open>flapped_at\<close>, \<open>on_dashboard\<close>), collected in the abstract state \<open>abs_cache\<close>, which the
  operations refine.
\<close>

section \<open>Data\<close>

record alertMsg =
  pd :: bool
  disc :: bool
  tg :: bool
  slk :: bool
  severity :: string
  resolved :: bool
  chain :: string
  message :: string
  uniqueId :: string
  key :: string
  tgChannel :: string
  tgKey :: string
  tgMentions :: string
  discHook :: string
  discMentions :: string
  slkHook :: string
  slkMentions :: string

datatype notifyDest = Pd | Tg | Di | Slk

type_synonym times = "(string, time) gmap"

record alarmCache =
  SentPdAlarms :: times
  SentTgAlarms :: times
  SentDiAlarms :: times
  SentSlkAlarms :: times
  AllAlarms :: "(string, times) gmap"
  flappingAlarms :: "(string, times) gmap"
  inFlight :: "(notifyDest, (string, unit) gmap) gmap"

section \<open>Operations\<close>

definition newAlarmCache :: alarmCache where
  "newAlarmCache =
     \<lparr>SentPdAlarms = mkmap, SentTgAlarms = mkmap, SentDiAlarms = mkmap, SentSlkAlarms = mkmap,
      AllAlarms = mkmap, flappingAlarms = mkmap, inFlight = mkmap\<rparr>"

definition stalledPrefix :: string where
  "stalledPrefix = ''stalled: have not seen a new block on''"

definition clearNoBlocks :: "string \<Rightarrow> alarmCache \<Rightarrow> alarmCache" where
  "clearNoBlocks ch a =
     (if AllAlarms a = NilMap \<or> m_get NilMap (AllAlarms a) ch = NilMap then a
      else a\<lparr>AllAlarms :=
             m_ins ch
               (m_delete_if (\<lambda>clearAlarm. HasPrefix clearAlarm stalledPrefix)
                 (m_get NilMap (AllAlarms a) ch))
               (AllAlarms a)\<rparr>)"

definition getCount :: "string \<Rightarrow> alarmCache \<Rightarrow> nat" where
  "getCount ch a =
     (if AllAlarms a = NilMap \<or> m_get NilMap (AllAlarms a) ch = NilMap then 0
      else m_len (m_get NilMap (AllAlarms a) ch))"

text \<open>
  \<open>sentMapLocked\<close> selects the map of a destination, making it first when it is nil. The
  returned map is the field itself: a write goes through \<open>putSentMap\<close>.
\<close>

fun sentMap :: "notifyDest \<Rightarrow> alarmCache \<Rightarrow> times" where
  "sentMap Pd a = SentPdAlarms a"
| "sentMap Tg a = SentTgAlarms a"
| "sentMap Di a = SentDiAlarms a"
| "sentMap Slk a = SentSlkAlarms a"

fun putSentMap :: "notifyDest \<Rightarrow> times \<Rightarrow> alarmCache \<Rightarrow> alarmCache" where
  "putSentMap Pd m a = a\<lparr>SentPdAlarms := m\<rparr>"
| "putSentMap Tg m a = a\<lparr>SentTgAlarms := m\<rparr>"
| "putSentMap Di m a = a\<lparr>SentDiAlarms := m\<rparr>"
| "putSentMap Slk m a = a\<lparr>SentSlkAlarms := m\<rparr>"

definition sentMapLocked :: "notifyDest \<Rightarrow> alarmCache \<Rightarrow> alarmCache" where
  "sentMapLocked dest a = (if sentMap dest a = NilMap then putSentMap dest mkmap a else a)"

definition makeInFlight :: "notifyDest \<Rightarrow> alarmCache \<Rightarrow> alarmCache" where
  "makeInFlight dest a =
     (let a1 = (if inFlight a = NilMap then a\<lparr>inFlight := mkmap\<rparr> else a)
      in if m_get NilMap (inFlight a1) dest = NilMap
         then a1\<lparr>inFlight := m_ins dest mkmap (inFlight a1)\<rparr> else a1)"

definition makeFlapping :: "alarmCache \<Rightarrow> alarmCache" where
  "makeFlapping a = (if flappingAlarms a = NilMap then a\<lparr>flappingAlarms := mkmap\<rparr> else a)"

definition flapWindow :: duration where
  "flapWindow = 5 * Minute"

definition reserveDelivery ::
  "time \<Rightarrow> alertMsg \<Rightarrow> notifyDest \<Rightarrow> alarmCache \<Rightarrow> bool \<times> alarmCache" where
  "reserveDelivery now msg dest a =
     (let a1 = makeInFlight dest (sentMapLocked dest a);
          sent = sentMap dest a1;
          a2 = (if dest = Pd \<and> \<not> resolved msg then makeFlapping a1 else a1);
          flap = m_get NilMap (flappingAlarms a2) (chain msg)
      in if m_has (m_get NilMap (inFlight a1) dest) (message msg) then (False, a1)
         else if resolved msg \<and> IsZero (m_get 0 sent (message msg)) then (False, a1)
         else if \<not> resolved msg \<and> \<not> IsZero (m_get 0 sent (message msg)) then (False, a1)
         else if dest = Pd \<and> \<not> resolved msg \<and> flap \<noteq> NilMap \<and>
                 After (m_get 0 flap (message msg)) (Add now (- flapWindow)) then (False, a2)
         else (True, a2\<lparr>inFlight :=
                m_ins dest (m_ins (message msg) () (m_get NilMap (inFlight a2) dest))
                  (inFlight a2)\<rparr>))"

definition releaseInFlight :: "alertMsg \<Rightarrow> notifyDest \<Rightarrow> alarmCache \<Rightarrow> alarmCache" where
  "releaseInFlight msg dest a =
     (if inFlight a \<noteq> NilMap \<and> m_get NilMap (inFlight a) dest \<noteq> NilMap
      then a\<lparr>inFlight :=
             m_ins dest (m_del (message msg) (m_get NilMap (inFlight a) dest)) (inFlight a)\<rparr>
      else a)"

definition recordFlapping :: "time \<Rightarrow> alertMsg \<Rightarrow> alarmCache \<Rightarrow> alarmCache" where
  "recordFlapping now msg a =
     (let a1 = makeFlapping a;
          flap = m_get NilMap (flappingAlarms a1) (chain msg);
          flap' = (if flap = NilMap then mkmap else flap)
      in a1\<lparr>flappingAlarms :=
             m_ins (chain msg) (m_ins (message msg) now flap') (flappingAlarms a1)\<rparr>)"

definition completeDelivery ::
  "time \<Rightarrow> alertMsg \<Rightarrow> notifyDest \<Rightarrow> bool \<Rightarrow> alarmCache \<Rightarrow> alarmCache" where
  "completeDelivery now msg dest accepted a =
     (let a1 = releaseInFlight msg dest a
      in if \<not> accepted then a1
         else let a2 = sentMapLocked dest a1
              in if resolved msg then putSentMap dest (m_del (message msg) (sentMap dest a2)) a2
                 else let a3 = putSentMap dest (m_ins (message msg) now (sentMap dest a2)) a2
                      in if dest = Pd then recordFlapping now msg a3 else a3)"

text \<open>Recording on the dashboard panics when \<open>AllAlarms\<close> itself is nil.\<close>

definition recordDashboardAlarm ::
  "time \<Rightarrow> string \<Rightarrow> string \<Rightarrow> bool \<Rightarrow> alarmCache \<Rightarrow> alarmCache option" where
  "recordDashboardAlarm now chainName msg res a =
     do {
       all \<leftarrow> (if m_get NilMap (AllAlarms a) chainName = NilMap
               then m_put chainName mkmap (AllAlarms a) else Some (AllAlarms a));
       let inner = m_get NilMap all chainName;
       Some (a\<lparr>AllAlarms :=
               m_ins chainName (if res then m_del msg inner else m_ins msg now inner) all\<rparr>)
     }"

definition siren :: string where
  "siren = [CHR 0xF0, CHR 0x9F, CHR 0x9A, CHR 0xA8]"

definition newline :: string where
  "newline = [CHR 0x0A]"

definition getAlarms :: "bool \<Rightarrow> string \<Rightarrow> alarmCache \<Rightarrow> string" where
  "getAlarms hideLogs ch a =
     (if hideLogs \<or> m_get NilMap (AllAlarms a) ch = NilMap then ''''
      else foldl (\<lambda>result msg. result @ siren @ '' '' @ msg @ newline) ''''
             (m_keys (m_get NilMap (AllAlarms a) ch)))"

text \<open>Cloning, as the checkpoint does it: entry by entry into a made map.\<close>

definition cloneAlarmTimes :: "times \<Rightarrow> times" where
  "cloneAlarmTimes source = fold (\<lambda>(msg, t) m. m_ins msg t m) (m_entries source) mkmap"

definition cloneAlarmState :: "alarmCache option \<Rightarrow> alarmCache" where
  "cloneAlarmState source =
     (case source of None \<Rightarrow> newAlarmCache
      | Some a \<Rightarrow>
          newAlarmCache
            \<lparr>SentPdAlarms := cloneAlarmTimes (SentPdAlarms a),
             SentTgAlarms := cloneAlarmTimes (SentTgAlarms a),
             SentDiAlarms := cloneAlarmTimes (SentDiAlarms a),
             SentSlkAlarms := cloneAlarmTimes (SentSlkAlarms a),
             AllAlarms := fold (\<lambda>(ch, m) all. m_ins ch (cloneAlarmTimes m) all)
               (m_entries (AllAlarms a)) mkmap\<rparr>)"

section \<open>Views and the abstract cache\<close>

definition sent_at :: "alarmCache \<Rightarrow> notifyDest \<Rightarrow> string \<Rightarrow> time" where
  "sent_at a d m = m_get 0 (sentMap d a) m"

definition in_flight :: "alarmCache \<Rightarrow> notifyDest \<Rightarrow> string \<Rightarrow> bool" where
  "in_flight a d m = m_has (m_get NilMap (inFlight a) d) m"

definition flapped_at :: "alarmCache \<Rightarrow> string \<Rightarrow> string \<Rightarrow> time option" where
  "flapped_at a ch m =
     (if m_get NilMap (flappingAlarms a) ch = NilMap then None
      else Some (m_get 0 (m_get NilMap (flappingAlarms a) ch) m))"

definition on_dashboard :: "alarmCache \<Rightarrow> string \<Rightarrow> string \<Rightarrow> time option" where
  "on_dashboard a ch m = m_lookup (m_get NilMap (AllAlarms a) ch) m"

record abs_cache =
  a_sent :: "notifyDest \<Rightarrow> string \<Rightarrow> time"
  a_flight :: "notifyDest \<Rightarrow> string \<Rightarrow> bool"
  a_flap :: "string \<Rightarrow> string \<Rightarrow> time"
  a_dash :: "string \<Rightarrow> string \<Rightarrow> time option"

definition abs_of :: "alarmCache \<Rightarrow> abs_cache" where
  "abs_of a = \<lparr>a_sent = sent_at a, a_flight = in_flight a,
     a_flap = (\<lambda>ch m. case flapped_at a ch m of None \<Rightarrow> 0 | Some t \<Rightarrow> t), a_dash = on_dashboard a\<rparr>"

text \<open>
  What the cache promises: a trigger may go out when its destination has not accepted it
  and no delivery of it is under way (and, at PagerDuty, when it was not accepted within
  the last five minutes); a resolution may go out when its trigger was accepted.
\<close>

definition abs_may_send :: "time \<Rightarrow> alertMsg \<Rightarrow> notifyDest \<Rightarrow> abs_cache \<Rightarrow> bool" where
  "abs_may_send now msg d s \<longleftrightarrow>
     \<not> a_flight s d (message msg) \<and>
     (if resolved msg then a_sent s d (message msg) \<noteq> 0
      else a_sent s d (message msg) = 0 \<and>
        \<not> (d = Pd \<and> now - flapWindow < a_flap s (chain msg) (message msg)))"

definition abs_reserve :: "alertMsg \<Rightarrow> notifyDest \<Rightarrow> abs_cache \<Rightarrow> abs_cache" where
  "abs_reserve msg d s =
     s\<lparr>a_flight := (a_flight s)(d := (a_flight s d)(message msg := True))\<rparr>"

definition abs_complete ::
  "time \<Rightarrow> alertMsg \<Rightarrow> notifyDest \<Rightarrow> bool \<Rightarrow> abs_cache \<Rightarrow> abs_cache" where
  "abs_complete now msg d accepted s =
     (let s1 = s\<lparr>a_flight := (a_flight s)(d := (a_flight s d)(message msg := False))\<rparr>
      in if \<not> accepted then s1
         else if resolved msg
         then s1\<lparr>a_sent := (a_sent s)(d := (a_sent s d)(message msg := 0))\<rparr>
         else s1\<lparr>a_sent := (a_sent s)(d := (a_sent s d)(message msg := now)),
                 a_flap := (if d = Pd then (a_flap s)(chain msg :=
                   (a_flap s (chain msg))(message msg := now)) else a_flap s)\<rparr>)"

section \<open>Well-formedness\<close>

definition nested_wf :: "('k, ('l, 'v) gmap) gmap \<Rightarrow> bool" where
  "nested_wf m \<longleftrightarrow> m_wf m \<and> (\<forall>k. m_wf (m_get NilMap m k))"

definition cache_wf :: "alarmCache \<Rightarrow> bool" where
  "cache_wf a \<longleftrightarrow>
     AllAlarms a \<noteq> NilMap \<and> (\<forall>d. m_wf (sentMap d a)) \<and>
     nested_wf (AllAlarms a) \<and> nested_wf (flappingAlarms a) \<and> nested_wf (inFlight a)"

section \<open>Frames of the helpers\<close>

lemma sentMap_put [simp]: "sentMap d (putSentMap d' m a) = (if d = d' then m else sentMap d a)"
  by (cases d; cases d') simp_all

lemma put_frame [simp]:
  "AllAlarms (putSentMap d m a) = AllAlarms a"
  "flappingAlarms (putSentMap d m a) = flappingAlarms a"
  "inFlight (putSentMap d m a) = inFlight a"
  by (cases d; simp)+

lemma sentMap_frame [simp]:
  "sentMap d (a\<lparr>AllAlarms := x\<rparr>) = sentMap d a"
  "sentMap d (a\<lparr>flappingAlarms := y\<rparr>) = sentMap d a"
  "sentMap d (a\<lparr>inFlight := z\<rparr>) = sentMap d a"
  by (cases d; simp)+

declare sentMap.simps [simp del] putSentMap.simps [simp del]

lemma locked_frame [simp]:
  "AllAlarms (sentMapLocked d a) = AllAlarms a"
  "flappingAlarms (sentMapLocked d a) = flappingAlarms a"
  "inFlight (sentMapLocked d a) = inFlight a"
  by (simp_all add: sentMapLocked_def)

lemma locked_get [simp]: "m_get 0 (sentMap d (sentMapLocked d' a)) k = m_get 0 (sentMap d a) k"
  by (simp add: sentMapLocked_def)

lemma locked_made [simp]: "sentMap d (sentMapLocked d a) \<noteq> NilMap"
  by (simp add: sentMapLocked_def)

lemma makeInFlight_frame [simp]:
  "AllAlarms (makeInFlight d a) = AllAlarms a"
  "flappingAlarms (makeInFlight d a) = flappingAlarms a"
  "sentMap d' (makeInFlight d a) = sentMap d' a"
  by (simp_all add: makeInFlight_def Let_def)

lemma makeInFlight_has [simp]:
  "m_has (m_get NilMap (inFlight (makeInFlight d a)) d') m = m_has (m_get NilMap (inFlight a) d') m"
  by (simp add: makeInFlight_def Let_def gmap_simps)

lemma makeFlapping_frame [simp]:
  "AllAlarms (makeFlapping a) = AllAlarms a"
  "inFlight (makeFlapping a) = inFlight a"
  "sentMap d (makeFlapping a) = sentMap d a"
  by (simp_all add: makeFlapping_def)

lemma makeFlapping_get [simp]:
  "m_get NilMap (flappingAlarms (makeFlapping a)) ch = m_get NilMap (flappingAlarms a) ch"
  by (simp add: makeFlapping_def)

lemma release_frame [simp]:
  "AllAlarms (releaseInFlight msg d a) = AllAlarms a"
  "flappingAlarms (releaseInFlight msg d a) = flappingAlarms a"
  "sentMap d' (releaseInFlight msg d a) = sentMap d' a"
  by (simp_all add: releaseInFlight_def)

lemma release_has [simp]:
  "m_has (m_get NilMap (inFlight (releaseInFlight msg d a)) d') m \<longleftrightarrow>
     m_has (m_get NilMap (inFlight a) d') m \<and> \<not> (d' = d \<and> m = message msg)"
  by (auto simp: releaseInFlight_def gmap_simps)

lemma recordFlapping_frame [simp]:
  "AllAlarms (recordFlapping now msg a) = AllAlarms a"
  "inFlight (recordFlapping now msg a) = inFlight a"
  "sentMap d (recordFlapping now msg a) = sentMap d a"
  by (simp_all add: recordFlapping_def Let_def)

lemma recordFlapping_get [simp]:
  "m_get 0 (m_get NilMap (flappingAlarms (recordFlapping now msg a)) ch) m =
     (if ch = chain msg \<and> m = message msg then now
      else m_get 0 (m_get NilMap (flappingAlarms a) ch) m)"
  by (auto simp: recordFlapping_def Let_def gmap_simps)

lemmas cache_views = sent_at_def in_flight_def flapped_at_def on_dashboard_def

section \<open>Refinement of the abstract cache\<close>

lemma reserve_frame:
  "sent_at (snd (reserveDelivery now msg d a)) = sent_at a"
  "flapped_at (snd (reserveDelivery now msg d a)) = flapped_at a"
  "on_dashboard (snd (reserveDelivery now msg d a)) = on_dashboard a"
  by (intro ext; simp add: reserveDelivery_def Let_def cache_views gmap_simps)+

lemma reserve_in_flight:
  "in_flight (snd (reserveDelivery now msg d a)) d' m \<longleftrightarrow>
     in_flight a d' m \<or> fst (reserveDelivery now msg d a) \<and> d' = d \<and> m = message msg"
  by (auto simp: reserveDelivery_def Let_def cache_views gmap_simps)

lemma reserve_granted:
  assumes "flapWindow \<le> now"
  shows "fst (reserveDelivery now msg d a) \<longleftrightarrow> abs_may_send now msg d (abs_of a)"
  using assms
  by (auto simp: reserveDelivery_def Let_def abs_may_send_def abs_of_def cache_views time_simps)

lemma reserve_refines:
  "abs_of (snd (reserveDelivery now msg d a)) =
     (if fst (reserveDelivery now msg d a) then abs_reserve msg d (abs_of a) else abs_of a)"
proof -
  have "in_flight (snd (reserveDelivery now msg d a)) =
      (if fst (reserveDelivery now msg d a)
       then (in_flight a)(d := (in_flight a d)(message msg := True)) else in_flight a)"
    by (intro ext) (auto simp: reserve_in_flight)
  then show ?thesis
    by (simp add: abs_of_def abs_reserve_def reserve_frame)
qed

lemma complete_in_flight:
  "in_flight (completeDelivery now msg d acc a) d' m \<longleftrightarrow>
     in_flight a d' m \<and> \<not> (d' = d \<and> m = message msg)"
  by (auto simp: completeDelivery_def Let_def cache_views gmap_simps)

lemma complete_sent_at:
  "sent_at (completeDelivery now msg d acc a) d' m =
     (if acc \<and> d' = d \<and> m = message msg then (if resolved msg then 0 else now) else sent_at a d' m)"
  by (auto simp: completeDelivery_def Let_def cache_views gmap_simps)

lemma complete_dashboard: "on_dashboard (completeDelivery now msg d acc a) = on_dashboard a"
  by (intro ext) (simp add: completeDelivery_def Let_def cache_views)

lemma a_flap_get: "a_flap (abs_of a) ch m = m_get 0 (m_get NilMap (flappingAlarms a) ch) m"
  by (simp add: abs_of_def flapped_at_def)

lemma complete_flap:
  "a_flap (abs_of (completeDelivery now msg d acc a)) ch m =
     (if acc \<and> d = Pd \<and> \<not> resolved msg \<and> ch = chain msg \<and> m = message msg then now
      else a_flap (abs_of a) ch m)"
  by (simp add: completeDelivery_def Let_def a_flap_get)

lemma complete_refines:
  "abs_of (completeDelivery now msg d acc a) = abs_complete now msg d acc (abs_of a)"
proof -
  have "a_flap (abs_of (completeDelivery now msg d acc a)) = a_flap (abs_complete now msg d acc (abs_of a))"
    by (intro ext) (auto simp: complete_flap abs_complete_def Let_def)
  moreover have "sent_at (completeDelivery now msg d acc a) = a_sent (abs_complete now msg d acc (abs_of a))"
    by (intro ext) (auto simp: complete_sent_at abs_complete_def Let_def abs_of_def)
  moreover have "in_flight (completeDelivery now msg d acc a) = a_flight (abs_complete now msg d acc (abs_of a))"
    by (intro ext) (auto simp: complete_in_flight abs_complete_def Let_def abs_of_def)
  moreover have "on_dashboard (completeDelivery now msg d acc a) = a_dash (abs_complete now msg d acc (abs_of a))"
    by (simp add: complete_dashboard abs_complete_def Let_def abs_of_def)
  ultimately show ?thesis
    by (intro abs_cache.equality) (simp_all add: abs_of_def)
qed

section \<open>The dashboard's alarms\<close>

lemma record_made:
  assumes "AllAlarms a \<noteq> NilMap"
  obtains b where "recordDashboardAlarm now ch msg res a = Some b" "AllAlarms b \<noteq> NilMap"
proof (cases "m_get NilMap (AllAlarms a) ch = NilMap")
  case True
  with assms that show ?thesis by (simp add: recordDashboardAlarm_def Let_def)
next
  case False
  with that show ?thesis by (simp add: recordDashboardAlarm_def Let_def)
qed

lemma record_dashboard:
  assumes "recordDashboardAlarm now ch msg res a = Some b"
  shows "on_dashboard b ch' m =
    (if ch' = ch \<and> m = msg then (if res then None else Some now) else on_dashboard a ch' m)"
  using assms
  by (cases "AllAlarms a = NilMap")
    (auto simp: recordDashboardAlarm_def Let_def cache_views gmap_simps split: if_splits)

lemma record_frame:
  assumes "recordDashboardAlarm now ch msg res a = Some b"
  shows "sent_at b = sent_at a" "in_flight b = in_flight a" "flapped_at b = flapped_at a"
  using assms
  by (cases "AllAlarms a = NilMap";
      auto simp: recordDashboardAlarm_def Let_def cache_views fun_eq_iff split: if_splits)+

lemma clearNoBlocks_dashboard:
  "on_dashboard (clearNoBlocks ch a) ch' m =
     (if ch' = ch \<and> HasPrefix m stalledPrefix then None else on_dashboard a ch' m)"
  by (auto simp: clearNoBlocks_def cache_views gmap_simps)

lemma getCount_card:
  assumes "cache_wf a"
  shows "getCount ch a = card (dom (on_dashboard a ch))"
proof -
  have "m_wf (m_get NilMap (AllAlarms a) ch)"
    using assms by (simp add: cache_wf_def nested_wf_def)
  moreover have "on_dashboard a ch = m_lookup (m_get NilMap (AllAlarms a) ch)"
    by (rule ext) (simp add: on_dashboard_def)
  ultimately show ?thesis
    by (auto simp: getCount_def m_len_card)
qed

section \<open>Every operation keeps the cache well-formed\<close>

lemma nested_wf_Nil [simp]: "nested_wf NilMap" "nested_wf mkmap"
  by (simp_all add: nested_wf_def)

lemma nested_wf_ins [simp]: "nested_wf m \<Longrightarrow> m_wf v \<Longrightarrow> nested_wf (m_ins k v m)"
  by (simp add: nested_wf_def gmap_simps)

lemma nested_wf_get [simp]: "nested_wf m \<Longrightarrow> m_wf (m_get NilMap m k)"
  by (simp add: nested_wf_def)

lemma cache_wf_new: "cache_wf newAlarmCache"
  unfolding cache_wf_def newAlarmCache_def
proof (intro conjI allI)
  fix d
  show "m_wf (sentMap d \<lparr>SentPdAlarms = mkmap, SentTgAlarms = mkmap, SentDiAlarms = mkmap,
      SentSlkAlarms = mkmap, AllAlarms = mkmap, flappingAlarms = mkmap, inFlight = mkmap\<rparr>)"
    by (cases d) (simp_all add: sentMap.simps)
qed simp_all

lemma cache_wf_locked [simp]: "cache_wf a \<Longrightarrow> cache_wf (sentMapLocked d a)"
  by (simp add: cache_wf_def sentMapLocked_def)

lemma cache_wf_makeInFlight [simp]: "cache_wf a \<Longrightarrow> cache_wf (makeInFlight d a)"
  by (auto simp: cache_wf_def makeInFlight_def Let_def)

lemma cache_wf_makeFlapping [simp]: "cache_wf a \<Longrightarrow> cache_wf (makeFlapping a)"
  by (auto simp: cache_wf_def makeFlapping_def)

lemma cache_wf_inFlight: "cache_wf a \<Longrightarrow> nested_wf m \<Longrightarrow> cache_wf (a\<lparr>inFlight := m\<rparr>)"
  by (simp add: cache_wf_def)

lemma cache_wf_flapping: "cache_wf a \<Longrightarrow> nested_wf m \<Longrightarrow> cache_wf (a\<lparr>flappingAlarms := m\<rparr>)"
  by (simp add: cache_wf_def)

lemma cache_wf_put: "cache_wf a \<Longrightarrow> m_wf m \<Longrightarrow> cache_wf (putSentMap d m a)"
  by (simp add: cache_wf_def)

lemma cache_wf_nested:
  "cache_wf a \<Longrightarrow> nested_wf (inFlight a)" "cache_wf a \<Longrightarrow> nested_wf (flappingAlarms a)"
  "cache_wf a \<Longrightarrow> nested_wf (AllAlarms a)" "cache_wf a \<Longrightarrow> m_wf (sentMap d a)"
  by (simp_all add: cache_wf_def)

lemma cache_wf_release [simp]: "cache_wf a \<Longrightarrow> cache_wf (releaseInFlight msg d a)"
  by (simp add: cache_wf_def releaseInFlight_def)

lemma cache_wf_recordFlapping: "cache_wf a \<Longrightarrow> cache_wf (recordFlapping now msg a)"
  by (simp add: cache_wf_def recordFlapping_def makeFlapping_def Let_def)

lemma cache_wf_reserve:
  assumes "cache_wf a"
  shows "cache_wf (snd (reserveDelivery now msg d a))"
proof -
  define a1 where "a1 = makeInFlight d (sentMapLocked d a)"
  define a2 where "a2 = (if d = Pd \<and> \<not> resolved msg then makeFlapping a1 else a1)"
  have "cache_wf a1" "cache_wf a2"
    using assms by (simp_all add: a1_def a2_def)
  then show ?thesis
    by (simp add: reserveDelivery_def Let_def cache_wf_inFlight cache_wf_nested
        flip: a1_def a2_def)
qed

lemma cache_wf_complete:
  assumes "cache_wf a"
  shows "cache_wf (completeDelivery now msg d acc a)"
proof -
  define a2 where "a2 = sentMapLocked d (releaseInFlight msg d a)"
  have "cache_wf a2"
    using assms by (simp add: a2_def)
  with assms show ?thesis
    by (simp add: completeDelivery_def Let_def cache_wf_put cache_wf_nested cache_wf_recordFlapping
        flip: a2_def)
qed

lemma cache_wf_record:
  assumes "cache_wf a" and "recordDashboardAlarm now ch msg res a = Some b"
  shows "cache_wf b"
  using assms
  by (auto simp: recordDashboardAlarm_def cache_wf_def Let_def gmap_simps split: if_splits)

lemma cache_wf_clearNoBlocks: "cache_wf a \<Longrightarrow> cache_wf (clearNoBlocks ch a)"
  by (auto simp: clearNoBlocks_def cache_wf_def)

section \<open>Properties\<close>

text \<open>An alert and its resolution, for the witnesses.\<close>

definition sample_msg :: "bool \<Rightarrow> alertMsg" where
  "sample_msg res = \<lparr>pd = True, disc = True, tg = True, slk = True, severity = ''critical'',
     resolved = res, chain = ''osmosis'', message = ''node down'', uniqueId = ''valcons1'',
     key = ''k'', tgChannel = ''c'', tgKey = ''t'', tgMentions = '''', discHook = ''d'',
     discMentions = '''', slkHook = ''s'', slkMentions = ''''\<rparr>"

text \<open>C17: The cache refines its abstract specification. A reservation is granted exactly when the
  specification allows the send (no delivery of the pair under way, trigger not yet accepted
  or resolution of an accepted trigger, PagerDuty not within its five-minute window), and both
  operations change the abstract state exactly as specified.\<close>

theorem cache_refines_spec:
  assumes "flapWindow \<le> now"
  shows "(fst (reserveDelivery now msg d a) \<longleftrightarrow> abs_may_send now msg d (abs_of a)) \<and>
    abs_of (snd (reserveDelivery now msg d a)) =
      (if abs_may_send now msg d (abs_of a) then abs_reserve msg d (abs_of a) else abs_of a) \<and>
    abs_of (completeDelivery now msg d acc a) = abs_complete now msg d acc (abs_of a)"
  using reserve_granted [OF assms] by (simp add: reserve_refines complete_refines)

theorem cache_refines_spec_witness:
  "fst (reserveDelivery UnixZero (sample_msg False) Pd newAlarmCache) \<and>
   \<not> fst (reserveDelivery UnixZero (sample_msg True) Pd newAlarmCache) \<and>
   abs_of (completeDelivery UnixZero (sample_msg False) Pd True newAlarmCache) =
     abs_complete UnixZero (sample_msg False) Pd True (abs_of newAlarmCache)"
  using cache_refines_spec [of UnixZero "sample_msg False" Pd newAlarmCache True]
    cache_refines_spec [of UnixZero "sample_msg True" Pd newAlarmCache True]
  by (simp add: flapWindow_def time_simps abs_may_send_def abs_of_def newAlarmCache_def cache_views
      sentMap.simps sample_msg_def)

text \<open>On a well-formed cache, recording an alarm on the dashboard never panics (the source
  writes into \<open>AllAlarms\<close> without a nil check), keeps the cache well-formed, shows or removes
  exactly that alarm, and the active-alert count of a chain is the number of alarms shown.\<close>

theorem dashboard_alarms:
  assumes "cache_wf a"
  shows "\<exists>b. recordDashboardAlarm now ch msg res a = Some b \<and> cache_wf b \<and>
    (\<forall>ch' m. on_dashboard b ch' m =
       (if ch' = ch \<and> m = msg then (if res then None else Some now) else on_dashboard a ch' m)) \<and>
    getCount ch b = card (dom (on_dashboard b ch))"
proof -
  obtain b where b: "recordDashboardAlarm now ch msg res a = Some b"
    using assms by (auto simp: cache_wf_def elim: record_made)
  with assms have "cache_wf b" by (rule cache_wf_record)
  with b show ?thesis by (simp add: record_dashboard getCount_card)
qed

theorem dashboard_alarms_witness:
  "\<exists>b. recordDashboardAlarm UnixZero ''osmosis'' ''node down'' False newAlarmCache = Some b \<and>
     getCount ''osmosis'' b = card (dom (on_dashboard b ''osmosis''))"
  using dashboard_alarms [OF cache_wf_new, of UnixZero "''osmosis''" "''node down''" False] by blast

end
