(* ===== verification/Delivery.thy ===== *)
theory Delivery
  imports AlarmCache
begin

text \<open>
  The delivery protocol of \<open>src/seer/alert.go\<close>: every \<open>notify*\<close> call reserves its
  (destination, message) pair, talks to the network without holding a lock, and completes.
  Any number of calls run at once, so the protocol is a step relation over the cache, the
  granted deliveries still talking to the network, and the history of what the
  destinations accepted. The locale \<open>reservation_cache\<close> is what the protocol needs of the
  cache; \<open>AlarmCache\<close>'s operations interpret it.
\<close>

section \<open>Definitions\<close>

text \<open>The (destination, message) pairs held by granted deliveries, and one pair's accepted events.\<close>

definition slots :: "('m \<Rightarrow> 'k) \<Rightarrow> ('m \<times> 'd) list \<Rightarrow> ('d \<times> 'k) list" where
  "slots keyof act = map (\<lambda>(m, d). (d, keyof m)) act"

definition events_of :: "(('d \<times> 'k) \<times> alarm_event) list \<Rightarrow> 'd \<Rightarrow> 'k \<Rightarrow> alarm_event list" where
  "events_of h d k = map snd (filter (\<lambda>e. fst e = (d, k)) h)"

definition event_of :: "bool \<Rightarrow> alarm_event" where
  "event_of res = (if res then Clear else Raise)"

record dstate =
  d_cache :: alarmCache
  d_active :: "(alertMsg \<times> notifyDest) list"
  d_hist :: "((notifyDest \<times> string) \<times> alarm_event) list"
  d_start :: "notifyDest \<Rightarrow> string \<Rightarrow> bool"

definition opened :: "alarmCache \<Rightarrow> notifyDest \<Rightarrow> string \<Rightarrow> bool" where
  "opened a d m \<longleftrightarrow> \<not> IsZero (sent_at a d m)"

text \<open>
  A process starts with nothing in flight and whatever accepted alarms its cache holds
  (none, or those restored from the state file).
\<close>

definition delivery_init :: "dstate \<Rightarrow> bool" where
  "delivery_init s \<longleftrightarrow>
     d_active s = [] \<and> d_hist s = [] \<and> d_start s = opened (d_cache s) \<and>
     (\<forall>d m. \<not> in_flight (d_cache s) d m)"

inductive delivery_step :: "dstate \<Rightarrow> dstate \<Rightarrow> bool" where
  start: "reserveDelivery now msg d (d_cache s) = (True, c) \<Longrightarrow>
    delivery_step s (s\<lparr>d_cache := c, d_active := (msg, d) # d_active s\<rparr>)"
| suppress: "reserveDelivery now msg d (d_cache s) = (False, c) \<Longrightarrow>
    delivery_step s (s\<lparr>d_cache := c\<rparr>)"
| reject: "(msg, d) \<in> set (d_active s) \<Longrightarrow>
    delivery_step s (s\<lparr>d_cache := completeDelivery now msg d False (d_cache s),
      d_active := remove1 (msg, d) (d_active s)\<rparr>)"
| accept: "(msg, d) \<in> set (d_active s) \<Longrightarrow> \<not> IsZero now \<Longrightarrow>
    delivery_step s (s\<lparr>d_cache := completeDelivery now msg d True (d_cache s),
      d_active := remove1 (msg, d) (d_active s),
      d_hist := d_hist s @ [((d, message msg), event_of (resolved msg))]\<rparr>)"
| dashboard: "recordDashboardAlarm now ch msg' res (d_cache s) = Some c \<Longrightarrow>
    delivery_step s (s\<lparr>d_cache := c\<rparr>)"
| unstall: "delivery_step s (s\<lparr>d_cache := clearNoBlocks ch (d_cache s)\<rparr>)"

text \<open>The invariant, for any cache with the views \<open>busy\<close> and \<open>op\<close>.\<close>

definition protocol_inv ::
  "('m \<Rightarrow> 'k) \<Rightarrow> ('m \<Rightarrow> bool) \<Rightarrow> ('d \<Rightarrow> 'k \<Rightarrow> bool) \<Rightarrow> ('d \<Rightarrow> 'k \<Rightarrow> bool) \<Rightarrow>
   ('m \<times> 'd) list \<Rightarrow> (('d \<times> 'k) \<times> alarm_event) list \<Rightarrow> ('d \<Rightarrow> 'k \<Rightarrow> bool) \<Rightarrow> bool" where
  "protocol_inv keyof res busy op act h st \<longleftrightarrow>
     distinct (slots keyof act) \<and>
     (\<forall>d k. busy d k \<longleftrightarrow> (d, k) \<in> set (slots keyof act)) \<and>
     (\<forall>(m, d) \<in> set act. res m = op d (keyof m)) \<and>
     (\<forall>d k. alternates (st d k) (events_of h d k) \<and> latch_after (st d k) (events_of h d k) = op d k)"

definition delivery_inv :: "dstate \<Rightarrow> bool" where
  "delivery_inv s \<longleftrightarrow>
     protocol_inv message resolved (in_flight (d_cache s)) (opened (d_cache s))
       (d_active s) (d_hist s) (d_start s)"

section \<open>Lists of slots\<close>

lemma slots_simps [simp]:
  "slots keyof [] = []" "slots keyof ((m, d) # act) = (d, keyof m) # slots keyof act"
  by (simp_all add: slots_def)

lemma in_slots: "(m, d) \<in> set act \<Longrightarrow> (d, keyof m) \<in> set (slots keyof act)"
  by (force simp: slots_def)

lemma slots_remove1:
  "distinct (slots keyof act) \<Longrightarrow> (m, d) \<in> set act \<Longrightarrow>
     slots keyof (remove1 (m, d) act) = remove1 (d, keyof m) (slots keyof act)"
proof (induction act)
  case Nil
  then show ?case by simp
next
  case (Cons a act)
  obtain m' d' where a: "a = (m', d')" by (cases a)
  from Cons show ?case
    using in_slots [of m d act keyof] by (auto simp: a)
qed

lemma other_active:
  assumes "distinct (slots keyof act)" "(m, d) \<in> set act" "(m', d') \<in> set (remove1 (m, d) act)"
  shows "(d', keyof m') \<noteq> (d, keyof m)"
proof -
  have "distinct (slots keyof (remove1 (m, d) act @ [(m, d)]))"
    using assms(1,2) slots_remove1 [OF assms(1,2)] by (simp add: slots_def)
  moreover have "(d', keyof m') \<in> set (slots keyof (remove1 (m, d) act))"
    using assms(3) by (rule in_slots)
  ultimately show ?thesis by (auto simp: slots_def)
qed

lemma events_of_snoc:
  "events_of (h @ [((d, k), e)]) d' k' =
     (if d' = d \<and> k' = k then events_of h d' k' @ [e] else events_of h d' k')"
  by (auto simp: events_of_def)

lemma alternates_event_of:
  "alternates on [event_of res] \<longleftrightarrow> res = on" "latch_after on [event_of res] = (\<not> res)"
  by (auto simp: event_of_def)

section \<open>What the protocol needs of the cache\<close>

locale reservation_cache =
  fixes reserve :: "time \<Rightarrow> 'm \<Rightarrow> 'd \<Rightarrow> 'c \<Rightarrow> bool \<times> 'c"
    and complete :: "time \<Rightarrow> 'm \<Rightarrow> 'd \<Rightarrow> bool \<Rightarrow> 'c \<Rightarrow> 'c"
    and keyof :: "'m \<Rightarrow> 'k" and res :: "'m \<Rightarrow> bool"
    and busy :: "'c \<Rightarrow> 'd \<Rightarrow> 'k \<Rightarrow> bool" and op :: "'c \<Rightarrow> 'd \<Rightarrow> 'k \<Rightarrow> bool"
  assumes grant: "reserve now m d c = (True, c') \<Longrightarrow>
      \<not> busy c d (keyof m) \<and> res m = op c d (keyof m)"
    and reserve_busy: "reserve now m d c = (b, c') \<Longrightarrow>
      busy c' d' k \<longleftrightarrow> busy c d' k \<or> b \<and> d' = d \<and> k = keyof m"
    and reserve_op: "reserve now m d c = (b, c') \<Longrightarrow> op c' = op c"
    and complete_busy: "busy (complete now m d acc c) d' k \<longleftrightarrow>
      busy c d' k \<and> \<not> (d' = d \<and> k = keyof m)"
    and complete_op: "\<not> IsZero now \<Longrightarrow> op (complete now m d True c) d' k \<longleftrightarrow>
      (if d' = d \<and> k = keyof m then \<not> res m else op c d' k)"
    and reject_op: "op (complete now m d False c) = op c"
begin

abbreviation inv :: "'c \<Rightarrow> ('m \<times> 'd) list \<Rightarrow> (('d \<times> 'k) \<times> alarm_event) list \<Rightarrow> ('d \<Rightarrow> 'k \<Rightarrow> bool) \<Rightarrow> bool"
  where "inv c act h st \<equiv> protocol_inv keyof res (busy c) (op c) act h st"

lemma inv_start:
  assumes "inv c act h st" "reserve now m d c = (True, c')"
  shows "inv c' ((m, d) # act) h st"
proof -
  have "(d, keyof m) \<notin> set (slots keyof act)" "res m = op c d (keyof m)"
    using assms(1) grant [OF assms(2)] by (auto simp: protocol_inv_def)
  with assms(1) reserve_busy [OF assms(2)] reserve_op [OF assms(2)] show ?thesis
    by (auto simp: protocol_inv_def)
qed

lemma inv_suppress:
  assumes "inv c act h st" "reserve now m d c = (False, c')"
  shows "inv c' act h st"
  using assms(1) reserve_busy [OF assms(2)] reserve_op [OF assms(2)]
  by (simp add: protocol_inv_def)

lemma release_slots:
  assumes "inv c act h st" "(m, d) \<in> set act"
  shows "distinct (slots keyof (remove1 (m, d) act)) \<and>
    (\<forall>d' k. busy (complete now m d acc c) d' k \<longleftrightarrow> (d', k) \<in> set (slots keyof (remove1 (m, d) act)))"
  using assms by (auto simp: protocol_inv_def slots_remove1 complete_busy)

lemma inv_reject:
  assumes "inv c act h st" "(m, d) \<in> set act"
  shows "inv (complete now m d False c) (remove1 (m, d) act) h st"
  using assms release_slots [OF assms, of now False] set_remove1_subset [of "(m, d)" act]
  by (auto simp: protocol_inv_def reject_op)

lemma inv_accept:
  assumes inv: "inv c act h st" and act: "(m, d) \<in> set act" and now: "\<not> IsZero now"
  shows "inv (complete now m d True c) (remove1 (m, d) act)
    (h @ [((d, keyof m), event_of (res m))]) st"
proof -
  have res: "res m = op c d (keyof m)"
    using inv act by (auto simp: protocol_inv_def)
  have "res m' = op (complete now m d True c) d' (keyof m')"
    if "(m', d') \<in> set (remove1 (m, d) act)" for m' d'
  proof -
    have "(d', keyof m') \<noteq> (d, keyof m)"
      using inv act that by (auto simp: protocol_inv_def dest: other_active)
    moreover have "res m' = op c d' (keyof m')"
      using inv that set_remove1_subset [of "(m, d)" act] by (auto simp: protocol_inv_def)
    ultimately show ?thesis by (auto simp: complete_op [OF now])
  qed
  with inv release_slots [OF inv act, of now True] res show ?thesis
    by (auto simp: protocol_inv_def events_of_snoc alternates_append latch_after_append
        alternates_event_of complete_op [OF now])
qed

lemma inv_view: "inv c act h st \<Longrightarrow> busy c' = busy c \<Longrightarrow> op c' = op c \<Longrightarrow> inv c' act h st"
  by simp

end

section \<open>The alarm cache provides it\<close>

interpretation cache: reservation_cache reserveDelivery completeDelivery message resolved
  in_flight opened
proof
  fix now m d c c'
  assume "reserveDelivery now m d c = (True, c')"
  then show "\<not> in_flight c d (message m) \<and> resolved m = opened c d (message m)"
    by (auto simp: reserveDelivery_def Let_def in_flight_def opened_def sent_at_def split: if_splits)
next
  fix now m d c b c' d' k
  assume "reserveDelivery now m d c = (b, c')"
  then show "in_flight c' d' k = (in_flight c d' k \<or> b \<and> d' = d \<and> k = message m)"
    using reserve_in_flight [of now m d c d' k] by simp
next
  fix now m d c b c'
  assume "reserveDelivery now m d c = (b, c')"
  then have "sent_at c' = sent_at c"
    using reserve_frame(1) [of now m d c] by simp
  then show "opened c' = opened c"
    by (simp add: fun_eq_iff opened_def)
qed (auto simp: complete_in_flight complete_sent_at opened_def IsZero_def fun_eq_iff)

section \<open>Every reachable state\<close>

lemma delivery_step_inv: "delivery_step s t \<Longrightarrow> delivery_inv s \<Longrightarrow> delivery_inv t"
proof (induction rule: delivery_step.induct)
  case (start now msg d s c)
  then show ?case by (simp add: delivery_inv_def cache.inv_start)
next
  case (suppress now msg d s c)
  then show ?case by (simp add: delivery_inv_def cache.inv_suppress)
next
  case (reject msg d s now)
  then show ?case by (simp add: delivery_inv_def cache.inv_reject)
next
  case (accept msg d s now)
  then show ?case by (simp add: delivery_inv_def cache.inv_accept)
next
  case (dashboard now ch msg' res s c)
  then have "in_flight c = in_flight (d_cache s)" "opened c = opened (d_cache s)"
    by (auto simp: record_frame opened_def fun_eq_iff)
  with dashboard show ?case by (simp add: delivery_inv_def)
next
  case (unstall s ch)
  have "in_flight (clearNoBlocks ch (d_cache s)) = in_flight (d_cache s)"
    "opened (clearNoBlocks ch (d_cache s)) = opened (d_cache s)"
    by (auto simp: clearNoBlocks_def in_flight_def opened_def sent_at_def fun_eq_iff)
  with unstall show ?case by (simp add: delivery_inv_def)
qed

lemma delivery_init_inv: "delivery_init s \<Longrightarrow> delivery_inv s"
  by (auto simp: delivery_init_def delivery_inv_def protocol_inv_def events_of_def)

interpretation delivery: invariant_system delivery_init delivery_step delivery_inv
  by unfold_locales (auto intro: delivery_init_inv delivery_step_inv)

section \<open>Properties\<close>

text \<open>A process that has just reserved the delivery of an alert to Slack, for the witness.\<close>

definition fresh_dstate :: dstate where
  "fresh_dstate = \<lparr>d_cache = newAlarmCache, d_active = [], d_hist = [], d_start = opened newAlarmCache\<rparr>"

definition sending_dstate :: dstate where
  "sending_dstate = fresh_dstate
     \<lparr>d_cache := snd (reserveDelivery UnixZero (sample_msg False) Slk newAlarmCache),
      d_active := [(sample_msg False, Slk)]\<rparr>"

text \<open>C1: However many deliveries run at once and however their critical sections interleave
  with each other and with the dashboard's updates, at most one delivery per destination and
  message is talking to the network, and what each destination accepts for each message
  alternates between triggers and resolutions.\<close>

theorem delivery_exclusive_and_alternating:
  assumes "reach delivery_init delivery_step s"
  shows "distinct (slots message (d_active s)) \<and>
    (\<forall>d m. in_flight (d_cache s) d m \<longleftrightarrow> (d, m) \<in> set (slots message (d_active s))) \<and>
    (\<forall>d m. alternates (d_start s d m) (events_of (d_hist s) d m) \<and>
       latch_after (d_start s d m) (events_of (d_hist s) d m) = opened (d_cache s) d m)"
  using delivery.reach_inv [OF assms] by (simp add: delivery_inv_def protocol_inv_def)

theorem delivery_exclusive_witness:
  "reach delivery_init delivery_step sending_dstate \<and> in_flight (d_cache sending_dstate) Slk ''node down''"
proof -
  have "delivery_init fresh_dstate"
    by (simp add: delivery_init_def fresh_dstate_def newAlarmCache_def in_flight_def)
  moreover have "reserveDelivery UnixZero (sample_msg False) Slk (d_cache fresh_dstate) =
      (True, snd (reserveDelivery UnixZero (sample_msg False) Slk newAlarmCache))"
    by (simp add: fresh_dstate_def reserveDelivery_def Let_def newAlarmCache_def sentMap.simps
        sentMapLocked_def makeInFlight_def gmap_simps sample_msg_def IsZero_def)
  then have "delivery_step fresh_dstate sending_dstate"
    using delivery_step.start [of UnixZero "sample_msg False" Slk fresh_dstate]
    by (simp add: sending_dstate_def fresh_dstate_def)
  ultimately have r: "reach delivery_init delivery_step sending_dstate"
    by (auto intro: reach.intros)
  then show ?thesis
    using delivery_exclusive_and_alternating [OF r]
    by (simp add: sending_dstate_def fresh_dstate_def sample_msg_def)
qed

end
