(* ===== verification/Sender.thy ===== *)
theory Sender
  imports Delivery "HOL-Library.Multiset"
begin

text \<open>
  The notification sender of \<open>src/seer/alert.go\<close> and the fan-out of \<open>src/seer/run.go\<close>:
  message bodies for Slack, Discord, Telegram and PagerDuty, the four \<open>notify*\<close> methods,
  error classification and the delivery counters.

  The network and the vendors' client libraries are parameters: \<open>net\<close> answers each
  request. \<open>requests\<close> is the log of what went out, \<open>observed\<close> the calls of the delivery
  counter, \<open>slept\<close> the pauses. Every \<open>notify*\<close> method reserves, runs its body and
  completes with the body's verdict (the Go \<open>defer\<close>), which \<open>withReservation\<close> writes once.
\<close>

section \<open>Message bodies\<close>

definition purpleHeart :: string where
  "purpleHeart = [CHR 0xF0, CHR 0x9F, CHR 0x92, CHR 0x9C]"

definition alertPrefix :: "bool \<Rightarrow> string" where
  "alertPrefix res = (if res then purpleHeart @ '' Resolved: '' else siren @ '' ALERT: '')"

record Attachment =
  at_Text :: string
  at_Color :: string
  at_Title :: string
  at_TitleLink :: string

record SlackMessage =
  sm_Text :: string
  sm_Attachments :: "Attachment list"

definition buildSlackMessage :: "alertMsg \<Rightarrow> SlackMessage" where
  "buildSlackMessage msg =
     \<lparr>sm_Text = (if resolved msg then ''OK: '' @ message msg else message msg),
      sm_Attachments =
        [\<lparr>at_Text = '''', at_Color = (if resolved msg then ''good'' else ''danger''),
          at_Title = BrandName @ '' '' @ alertPrefix (resolved msg) @ '' '' @ chain msg @ '' '' @
            slkMentions msg,
          at_TitleLink = ''''\<rparr>]\<rparr>"

record DiscordEmbed =
  de_Title :: string
  de_Url :: string
  de_Description :: string
  de_Color :: nat

record DiscordMessage =
  dm_Username :: string
  dm_AvatarUrl :: string
  dm_Content :: string
  dm_Embeds :: "DiscordEmbed list"

definition buildDiscordMessage :: "alertMsg \<Rightarrow> DiscordMessage" where
  "buildDiscordMessage msg =
     \<lparr>dm_Username = BrandName, dm_AvatarUrl = '''',
      dm_Content = alertPrefix (resolved msg) @ chain msg,
      dm_Embeds = [\<lparr>de_Title = '''', de_Url = '''', de_Description = message msg, de_Color = 0\<rparr>]\<rparr>"

definition buildTelegramText :: "alertMsg \<Rightarrow> string" where
  "buildTelegramText msg =
     BrandName @ '' '' @ chain msg @ '': '' @ alertPrefix (resolved msg) @ '' - '' @ message msg"

text \<open>The fields of \<open>pagerduty.V2Event\<close> and its payload that the program sets.\<close>

record V2Event =
  RoutingKey :: string
  Action :: string
  DedupKey :: string
  Summary :: string
  Source :: string
  Severity :: string

definition buildPagerDutyEvent :: "alertMsg \<Rightarrow> V2Event" where
  "buildPagerDutyEvent msg =
     \<lparr>RoutingKey = key msg, Action = (if resolved msg then ''resolve'' else ''trigger''),
      DedupKey = uniqueId msg, Summary = BrandName @ '': '' @ message msg,
      Source = uniqueId msg, Severity = severity msg\<rparr>"

section \<open>Errors and counters\<close>

datatype notify_error =
    NotificationTransportError string
  | NotificationAPIError string
  | NotificationHTTPError string int

fun notify_error_text :: "notify_error \<Rightarrow> string" where
  "notify_error_text (NotificationTransportError d) = d @ '' notification transport failed''"
| "notify_error_text (NotificationAPIError d) = d @ '' notification rejected by remote API''"
| "notify_error_text (NotificationHTTPError d code) =
     d @ '' notification rejected with HTTP status '' @ itoa code"

definition deliveryAccepted :: string where "deliveryAccepted = ''accepted''"
definition deliveryRejected :: string where "deliveryRejected = ''rejected''"
definition deliveryTransportError :: string where "deliveryTransportError = ''transport_error''"

text \<open>What the client libraries answer: an error of the remote API, or any other error.\<close>

datatype lib_error = ApiError | OtherError

datatype request =
    SlackPost string SlackMessage
  | DiscordPost string DiscordMessage
  | TelegramBot string string
  | TelegramSend string string
  | PagerDutyManage string V2Event

record notificationSender =
  cache :: alarmCache
  telegramEndpoint :: string
  pagerDutyEndpoint :: string
  observes :: bool
  observed :: "(string \<times> string) list"
  slept :: "duration list"
  requests :: "request list"

text \<open>The default Telegram endpoint belongs to the bot library and is an argument here.\<close>

definition newNotificationSender :: "string \<Rightarrow> alarmCache option \<Rightarrow> notificationSender" where
  "newNotificationSender apiEndpoint c =
     \<lparr>cache = (case c of None \<Rightarrow> newAlarmCache | Some a \<Rightarrow> a),
      telegramEndpoint = apiEndpoint, pagerDutyEndpoint = '''', observes = True,
      observed = [], slept = [], requests = []\<rparr>"

definition observeOutcome ::
  "string \<Rightarrow> string \<Rightarrow> notificationSender \<Rightarrow> notificationSender" where
  "observeOutcome d outcome s =
     (if observes s then s\<lparr>observed := observed s @ [(d, outcome)]\<rparr> else s)"

fun outcomeOf :: "notify_error \<Rightarrow> string" where
  "outcomeOf (NotificationTransportError _) = deliveryTransportError"
| "outcomeOf (NotificationAPIError _) = deliveryRejected"
| "outcomeOf (NotificationHTTPError _ _) = deliveryRejected"

definition observeError ::
  "string \<Rightarrow> notify_error \<Rightarrow> notificationSender \<Rightarrow> notify_error \<times> notificationSender" where
  "observeError d err s = (err, observeOutcome d (outcomeOf err) s)"

definition observeAccepted :: "string \<Rightarrow> notificationSender \<Rightarrow> notificationSender" where
  "observeAccepted d s = observeOutcome d deliveryAccepted s"

definition sendRequest :: "request \<Rightarrow> notificationSender \<Rightarrow> notificationSender" where
  "sendRequest r s = s\<lparr>requests := requests s @ [r]\<rparr>"

section \<open>The four destinations\<close>

text \<open>Result of a body: the error it returns, its \<open>accepted\<close> flag, and the sender.\<close>

type_synonym attempt = "notify_error option \<times> bool \<times> notificationSender"

definition failedWith :: "string \<Rightarrow> notify_error \<Rightarrow> notificationSender \<Rightarrow> attempt" where
  "failedWith d err s = (case observeError d err s of (e, s') \<Rightarrow> (Some e, False, s'))"

definition acceptedBy :: "string \<Rightarrow> notificationSender \<Rightarrow> attempt" where
  "acceptedBy d s = (None, True, observeAccepted d s)"

definition withReservation ::
  "time \<Rightarrow> time \<Rightarrow> alertMsg \<Rightarrow> notifyDest \<Rightarrow> (notificationSender \<Rightarrow> attempt) \<Rightarrow>
   notificationSender \<Rightarrow> notify_error option \<times> notificationSender" where
  "withReservation t0 t1 msg dest body s =
     (case reserveDelivery t0 msg dest (cache s) of (granted, c) \<Rightarrow>
        if \<not> granted then (None, s\<lparr>cache := c\<rparr>)
        else case body (s\<lparr>cache := c\<rparr>) of (err, accepted, s') \<Rightarrow>
          (err, s'\<lparr>cache := completeDelivery t1 msg dest accepted (cache s')\<rparr>))"

text \<open>
  One HTTP exchange: encoding the body, building the request or performing it may fail;
  otherwise there is a status code.
\<close>

datatype http_reply = EncodeFails | RequestFails | TransportFails | Reply int

definition slackBody ::
  "(string \<Rightarrow> SlackMessage \<Rightarrow> http_reply) \<Rightarrow> alertMsg \<Rightarrow> notificationSender \<Rightarrow> attempt" where
  "slackBody net msg s =
     (let body = buildSlackMessage msg;
          transport = NotificationTransportError ''slack'';
          s1 = sendRequest (SlackPost (slkHook msg) body) s
      in case net (slkHook msg) body of
           EncodeFails \<Rightarrow> failedWith ''slack'' transport s
         | RequestFails \<Rightarrow> failedWith ''slack'' transport s
         | TransportFails \<Rightarrow> failedWith ''slack'' transport s1
         | Reply code \<Rightarrow>
             if code \<noteq> 200 then failedWith ''slack'' (NotificationHTTPError ''slack'' code) s1
             else acceptedBy ''slack'' s1)"

definition notifySlack where
  "notifySlack net t0 t1 msg s =
     (if \<not> slk msg then (None, s) else withReservation t0 t1 msg Slk (slackBody net msg) s)"

definition discordBody ::
  "(string \<Rightarrow> DiscordMessage \<Rightarrow> http_reply) \<Rightarrow> alertMsg \<Rightarrow> notificationSender \<Rightarrow> attempt" where
  "discordBody net msg s =
     (let body = buildDiscordMessage msg;
          transport = NotificationTransportError ''discord'';
          s1 = sendRequest (DiscordPost (discHook msg) body) s
      in case net (discHook msg) body of
           EncodeFails \<Rightarrow> failedWith ''discord'' transport s
         | RequestFails \<Rightarrow> failedWith ''discord'' transport s
         | TransportFails \<Rightarrow> failedWith ''discord'' transport s1
         | Reply code \<Rightarrow>
             if code \<noteq> 204 then failedWith ''discord'' (NotificationHTTPError ''discord'' code) s1
             else acceptedBy ''discord'' s1)"

definition notifyDiscord where
  "notifyDiscord net t0 t1 msg s =
     (if \<not> disc msg then (None, s) else withReservation t0 t1 msg Di (discordBody net msg) s)"

fun classifyTelegramError :: "lib_error \<Rightarrow> notify_error" where
  "classifyTelegramError ApiError = NotificationAPIError ''telegram''"
| "classifyTelegramError OtherError = NotificationTransportError ''telegram''"

definition telegramBody ::
  "(string \<Rightarrow> string \<Rightarrow> lib_error option) \<Rightarrow> (string \<Rightarrow> string \<Rightarrow> lib_error option) \<Rightarrow>
   alertMsg \<Rightarrow> notificationSender \<Rightarrow> attempt" where
  "telegramBody newBot send msg s =
     (let s1 = sendRequest (TelegramBot (tgKey msg) (telegramEndpoint s)) s;
          text = buildTelegramText msg;
          s2 = sendRequest (TelegramSend (tgChannel msg) text) s1
      in case newBot (tgKey msg) (telegramEndpoint s) of
           Some e \<Rightarrow> failedWith ''telegram'' (classifyTelegramError e) s1
         | None \<Rightarrow>
             (case send (tgChannel msg) text of
                Some e \<Rightarrow> failedWith ''telegram'' (classifyTelegramError e) s2
              | None \<Rightarrow> acceptedBy ''telegram'' s2))"

definition notifyTelegram where
  "notifyTelegram newBot send t0 t1 msg s =
     (if \<not> tg msg then (None, s)
      else withReservation t0 t1 msg Tg (telegramBody newBot send msg) s)"

fun classifyPagerDutyError :: "lib_error \<Rightarrow> notify_error" where
  "classifyPagerDutyError ApiError = NotificationAPIError ''pagerduty''"
| "classifyPagerDutyError OtherError = NotificationTransportError ''pagerduty''"

definition pagerDutyMaxAttempts :: nat where "pagerDutyMaxAttempts = 2"
definition pagerDutyRetryDelay :: duration where "pagerDutyRetryDelay = 250000000"

definition examplePagerDutyKey :: string where
  "examplePagerDutyKey = ''aaaaaaaaaaaabbbbbbbbbbbbbcccccccccccc''"

definition pause :: "duration \<Rightarrow> notificationSender \<Rightarrow> notificationSender" where
  "pause d s = s\<lparr>slept := slept s @ [d]\<rparr>"

text \<open>The retry loop over the attempt numbers.\<close>

fun pagerDutyLoop ::
  "(nat \<Rightarrow> V2Event \<Rightarrow> lib_error option) \<Rightarrow> alertMsg \<Rightarrow> nat list \<Rightarrow> notify_error option \<Rightarrow>
   notificationSender \<Rightarrow> attempt" where
  "pagerDutyLoop manage msg [] lastErr s = (lastErr, False, s)"
| "pagerDutyLoop manage msg (n # ns) lastErr s =
     (let ev = buildPagerDutyEvent msg;
          s1 = sendRequest (PagerDutyManage (pagerDutyEndpoint s) ev) s
      in case manage n ev of
           None \<Rightarrow> acceptedBy ''pagerduty'' s1
         | Some e \<Rightarrow>
             (case observeError ''pagerduty'' (classifyPagerDutyError e) s1 of (err, s2) \<Rightarrow>
                pagerDutyLoop manage msg ns (Some err)
                  (if n < pagerDutyMaxAttempts then pause pagerDutyRetryDelay s2 else s2)))"

definition notifyPagerDuty where
  "notifyPagerDuty manage t0 t1 msg s =
     (if \<not> pd msg then (None, s)
      else if key msg = examplePagerDutyKey then (None, s)
      else withReservation t0 t1 msg Pd
             (pagerDutyLoop manage msg [1..<Suc pagerDutyMaxAttempts] None) s)"

section \<open>Fan-out\<close>

text \<open>What the outside world answers to one event, and the clock readings of each delivery.\<close>

record network =
  net_slack :: "string \<Rightarrow> SlackMessage \<Rightarrow> http_reply"
  net_discord :: "string \<Rightarrow> DiscordMessage \<Rightarrow> http_reply"
  net_bot :: "string \<Rightarrow> string \<Rightarrow> lib_error option"
  net_send :: "string \<Rightarrow> string \<Rightarrow> lib_error option"
  net_manage :: "nat \<Rightarrow> V2Event \<Rightarrow> lib_error option"
  net_t0 :: "notifyDest \<Rightarrow> time"
  net_t1 :: "notifyDest \<Rightarrow> time"

fun notifyOne :: "network \<Rightarrow> alertMsg \<Rightarrow> notifyDest \<Rightarrow> notificationSender \<Rightarrow>
   notify_error option \<times> notificationSender" where
  "notifyOne w msg Pd s = notifyPagerDuty (net_manage w) (net_t0 w Pd) (net_t1 w Pd) msg s"
| "notifyOne w msg Di s = notifyDiscord (net_discord w) (net_t0 w Di) (net_t1 w Di) msg s"
| "notifyOne w msg Tg s = notifyTelegram (net_bot w) (net_send w) (net_t0 w Tg) (net_t1 w Tg) msg s"
| "notifyOne w msg Slk s = notifySlack (net_slack w) (net_t0 w Slk) (net_t1 w Slk) msg s"

text \<open>
  \<open>deliverAlert\<close> starts one goroutine per destination and waits for all. \<open>order\<close> is the order in
  which the four finish their critical sections.
\<close>

definition deliverAlert :: "network \<Rightarrow> alertMsg \<Rightarrow> notifyDest list \<Rightarrow> notificationSender \<Rightarrow> notificationSender" where
  "deliverAlert w msg order s = fold (\<lambda>d s. snd (notifyOne w msg d s)) order s"

definition all_dests :: "notifyDest list" where
  "all_dests = [Pd, Di, Tg, Slk]"

text \<open>The notification worker drains the queue in order, one event at a time.\<close>

definition notificationWorker ::
  "(alertMsg \<times> network \<times> notifyDest list) list \<Rightarrow> notificationSender \<Rightarrow> notificationSender" where
  "notificationWorker alerts s = fold (\<lambda>(msg, w, order) s. deliverAlert w msg order s) alerts s"

section \<open>Verdicts\<close>

text \<open>
  Whether an event goes to a destination at all, and whether the destination accepts it:
  the specification of the four methods.
\<close>

fun wanted :: "alertMsg \<Rightarrow> notifyDest \<Rightarrow> bool" where
  "wanted msg Pd = (pd msg \<and> key msg \<noteq> examplePagerDutyKey)"
| "wanted msg Di = disc msg"
| "wanted msg Tg = tg msg"
| "wanted msg Slk = slk msg"

fun verdict :: "network \<Rightarrow> string \<Rightarrow> alertMsg \<Rightarrow> notifyDest \<Rightarrow> bool" where
  "verdict w ep msg Pd =
     (net_manage w 1 (buildPagerDutyEvent msg) = None \<or> net_manage w 2 (buildPagerDutyEvent msg) = None)"
| "verdict w ep msg Di = (net_discord w (discHook msg) (buildDiscordMessage msg) = Reply 204)"
| "verdict w ep msg Tg =
     (net_bot w (tgKey msg) ep = None \<and> net_send w (tgChannel msg) (buildTelegramText msg) = None)"
| "verdict w ep msg Slk = (net_slack w (slkHook msg) (buildSlackMessage msg) = Reply 200)"

definition abs_notify :: "network \<Rightarrow> string \<Rightarrow> alertMsg \<Rightarrow> notifyDest \<Rightarrow> abs_cache \<Rightarrow> abs_cache" where
  "abs_notify w ep msg d s =
     (if wanted msg d \<and> abs_may_send (net_t0 w d) msg d s \<and> verdict w ep msg d
      then abs_complete (net_t1 w d) msg d True s else s)"

text \<open>What the destinations accept while the worker drains a queue, in order.\<close>

definition accepted_event ::
  "network \<Rightarrow> alertMsg \<Rightarrow> notifyDest \<Rightarrow> notificationSender \<Rightarrow> ((notifyDest \<times> string) \<times> alarm_event) list" where
  "accepted_event w msg d s =
     (if wanted msg d \<and> fst (reserveDelivery (net_t0 w d) msg d (cache s)) \<and>
         verdict w (telegramEndpoint s) msg d
      then [((d, message msg), event_of (resolved msg))] else [])"

fun deliver_log ::
  "network \<Rightarrow> alertMsg \<Rightarrow> notifyDest list \<Rightarrow> notificationSender \<Rightarrow> ((notifyDest \<times> string) \<times> alarm_event) list" where
  "deliver_log w msg [] s = []"
| "deliver_log w msg (d # ds) s =
     accepted_event w msg d s @ deliver_log w msg ds (snd (notifyOne w msg d s))"

fun worker_log ::
  "(alertMsg \<times> network \<times> notifyDest list) list \<Rightarrow> notificationSender \<Rightarrow>
   ((notifyDest \<times> string) \<times> alarm_event) list" where
  "worker_log [] s = []"
| "worker_log ((msg, w, order) # as) s =
     deliver_log w msg order s @ worker_log as (deliverAlert w msg order s)"

section \<open>Bodies\<close>

lemma observe_frame [simp]:
  "cache (observeOutcome d o' s) = cache s" "requests (observeOutcome d o' s) = requests s"
  "telegramEndpoint (observeOutcome d o' s) = telegramEndpoint s"
  "pagerDutyEndpoint (observeOutcome d o' s) = pagerDutyEndpoint s"
  "slept (observeOutcome d o' s) = slept s" "observes (observeOutcome d o' s) = observes s"
  by (simp_all add: observeOutcome_def)

lemma observed_outcome [simp]:
  "observed (observeOutcome d o' s) = (if observes s then observed s @ [(d, o')] else observed s)"
  by (simp add: observeOutcome_def)

lemma request_frame [simp]:
  "cache (sendRequest r s) = cache s" "telegramEndpoint (sendRequest r s) = telegramEndpoint s"
  "pagerDutyEndpoint (sendRequest r s) = pagerDutyEndpoint s"
  "requests (sendRequest r s) = requests s @ [r]" "observed (sendRequest r s) = observed s"
  "observes (sendRequest r s) = observes s" "slept (sendRequest r s) = slept s"
  by (simp_all add: sendRequest_def)

lemma pause_frame [simp]:
  "cache (pause d s) = cache s" "telegramEndpoint (pause d s) = telegramEndpoint s"
  "pagerDutyEndpoint (pause d s) = pagerDutyEndpoint s" "requests (pause d s) = requests s"
  "observed (pause d s) = observed s" "observes (pause d s) = observes s"
  "slept (pause d s) = slept s @ [d]"
  by (simp_all add: pause_def)

lemmas attempt_defs = failedWith_def acceptedBy_def observeError_def observeAccepted_def Let_def

lemma slackBody_spec:
  "fst (snd (slackBody net msg s)) \<longleftrightarrow> net (slkHook msg) (buildSlackMessage msg) = Reply 200"
  "cache (snd (snd (slackBody net msg s))) = cache s"
  "telegramEndpoint (snd (snd (slackBody net msg s))) = telegramEndpoint s"
  by (simp_all add: slackBody_def attempt_defs split: http_reply.split)

lemma discordBody_spec:
  "fst (snd (discordBody net msg s)) \<longleftrightarrow> net (discHook msg) (buildDiscordMessage msg) = Reply 204"
  "cache (snd (snd (discordBody net msg s))) = cache s"
  "telegramEndpoint (snd (snd (discordBody net msg s))) = telegramEndpoint s"
  by (simp_all add: discordBody_def attempt_defs split: http_reply.split)

lemma telegramBody_spec:
  "fst (snd (telegramBody newBot send msg s)) \<longleftrightarrow>
     newBot (tgKey msg) (telegramEndpoint s) = None \<and> send (tgChannel msg) (buildTelegramText msg) = None"
  "cache (snd (snd (telegramBody newBot send msg s))) = cache s"
  "telegramEndpoint (snd (snd (telegramBody newBot send msg s))) = telegramEndpoint s"
  by (simp_all add: telegramBody_def attempt_defs split: option.split)

lemma two_attempts: "[1..<Suc pagerDutyMaxAttempts] = [1, 2]"
  by (simp add: pagerDutyMaxAttempts_def upt_rec)

lemma notifyPagerDuty_eq:
  "notifyPagerDuty manage t0 t1 msg s =
     (if \<not> wanted msg Pd then (None, s)
      else withReservation t0 t1 msg Pd (pagerDutyLoop manage msg [1, 2] None) s)"
  by (simp only: notifyPagerDuty_def two_attempts wanted.simps) simp

lemma pagerDutyLoop_spec:
  "fst (snd (pagerDutyLoop manage msg ns l s)) \<longleftrightarrow>
     (\<exists>n \<in> set ns. manage n (buildPagerDutyEvent msg) = None)"
  "cache (snd (snd (pagerDutyLoop manage msg ns l s))) = cache s"
  "telegramEndpoint (snd (snd (pagerDutyLoop manage msg ns l s))) = telegramEndpoint s"
  by (induction ns arbitrary: l s) (simp_all add: attempt_defs split: option.split)

declare pagerDutyLoop.simps [simp del]

section \<open>Reservation and verdict\<close>

text \<open>
  A body that leaves the cache alone commits exactly when it accepts, and a refused
  reservation runs no body.
\<close>

lemma abs_complete_reserve:
  "abs_may_send t0 msg d x \<Longrightarrow>
     abs_complete t1 msg d acc (abs_reserve msg d x) = (if acc then abs_complete t1 msg d True x else x)"
  by (rule abs_cache.equality)
    (auto simp: abs_complete_def abs_reserve_def abs_may_send_def Let_def fun_eq_iff)

lemma withReservation_abs:
  assumes body: "\<And>s. cache (snd (snd (body s))) = cache s" and now: "flapWindow \<le> t0"
  shows "abs_of (cache (snd (withReservation t0 t1 msg d body s))) =
    (if abs_may_send t0 msg d (abs_of (cache s)) \<and>
        fst (snd (body (s\<lparr>cache := snd (reserveDelivery t0 msg d (cache s))\<rparr>)))
     then abs_complete t1 msg d True (abs_of (cache s)) else abs_of (cache s))"
proof -
  obtain g c where r: "reserveDelivery t0 msg d (cache s) = (g, c)" by fastforce
  obtain err acc s' where b: "body (s\<lparr>cache := c\<rparr>) = (err, acc, s')" by (metis prod_cases3)
  have g: "g = abs_may_send t0 msg d (abs_of (cache s))"
    using reserve_granted [OF now, of msg d "cache s"] r by simp
  have c: "abs_of c = (if g then abs_reserve msg d (abs_of (cache s)) else abs_of (cache s))"
    using reserve_refines [of t0 msg d "cache s"] r by simp
  have s': "cache s' = c"
    using body [of "s\<lparr>cache := c\<rparr>"] b by simp
  show ?thesis
    using g c by (simp add: withReservation_def r b s' complete_refines abs_complete_reserve)
qed

lemma withReservation_endpoint:
  assumes "\<And>s. telegramEndpoint (snd (snd (body s))) = telegramEndpoint s"
  shows "telegramEndpoint (snd (withReservation t0 t1 msg d body s)) = telegramEndpoint s"
  using assms [of "s\<lparr>cache := snd (reserveDelivery t0 msg d (cache s))\<rparr>"]
  by (simp add: withReservation_def split_def)

lemma notifyOne_endpoint: "telegramEndpoint (snd (notifyOne w msg d s)) = telegramEndpoint s"
  by (cases d)
    (simp_all add: notifyPagerDuty_eq notifyDiscord_def notifyTelegram_def notifySlack_def
      withReservation_endpoint pagerDutyLoop_spec discordBody_spec telegramBody_spec slackBody_spec)

lemma notifyOne_refines:
  assumes "flapWindow \<le> net_t0 w d"
  shows "abs_of (cache (snd (notifyOne w msg d s))) =
    abs_notify w (telegramEndpoint s) msg d (abs_of (cache s))"
proof (cases "wanted msg d")
  case False
  then have "notifyOne w msg d s = (None, s)"
    by (cases d) (auto simp: notifyPagerDuty_eq notifyDiscord_def notifyTelegram_def notifySlack_def)
  with False show ?thesis by (simp add: abs_notify_def)
next
  case True
  then show ?thesis
    using assms
    by (cases d)
      (simp_all add: notifyPagerDuty_eq notifyDiscord_def notifyTelegram_def notifySlack_def
        withReservation_abs pagerDutyLoop_spec discordBody_spec telegramBody_spec slackBody_spec
        abs_notify_def del: not_None_eq)
qed

section \<open>Fan-out does not depend on the scheduling\<close>

lemma abs_may_send_complete:
  "d \<noteq> d' \<Longrightarrow> abs_may_send t msg d (abs_complete t' msg d' True s) = abs_may_send t msg d s"
  by (auto simp: abs_may_send_def abs_complete_def Let_def)

lemma abs_complete_commute:
  assumes "d \<noteq> d'"
  shows "abs_complete t msg d True (abs_complete t' msg d' True s) =
     abs_complete t' msg d' True (abs_complete t msg d True s)"
proof (rule abs_cache.equality)
  let ?l = "abs_complete t msg d True (abs_complete t' msg d' True s)"
  let ?r = "abs_complete t' msg d' True (abs_complete t msg d True s)"
  note tw = fun_upd_twist [OF assms]
  show "a_sent ?l = a_sent ?r"
    using assms by (cases "resolved msg") (simp_all add: abs_complete_def Let_def tw)
  show "a_flight ?l = a_flight ?r"
    using assms by (cases "resolved msg") (simp_all add: abs_complete_def Let_def tw)
  show "a_flap ?l = a_flap ?r"
    using assms by (auto simp: abs_complete_def Let_def)
qed (simp_all add: abs_complete_def Let_def)

lemma abs_notify_commute:
  assumes "d \<noteq> d'"
  shows "abs_notify w ep msg d (abs_notify w ep msg d' s) =
     abs_notify w ep msg d' (abs_notify w ep msg d s)"
proof -
  define f where "f t x = (wanted msg x \<and> abs_may_send (net_t0 w x) msg x t \<and> verdict w ep msg x)" for t x
  have "f (abs_complete (net_t1 w d') msg d' True s) d = f s d"
    "f (abs_complete (net_t1 w d) msg d True s) d' = f s d'"
    using assms by (simp_all only: f_def abs_may_send_complete [OF assms]
        abs_may_send_complete [OF assms [symmetric]])
  moreover have "abs_notify w ep msg x t = (if f t x then abs_complete (net_t1 w x) msg x True t else t)"
    for x t by (simp only: abs_notify_def f_def)
  ultimately show ?thesis
    using abs_complete_commute [OF assms, of "net_t1 w d" msg "net_t1 w d'" s]
    by (cases "f s d"; cases "f s d'") simp_all
qed

lemma deliverAlert_abs:
  assumes "\<And>d. flapWindow \<le> net_t0 w d"
  shows "abs_of (cache (deliverAlert w msg order s)) =
      fold (abs_notify w (telegramEndpoint s) msg) order (abs_of (cache s)) \<and>
    telegramEndpoint (deliverAlert w msg order s) = telegramEndpoint s"
  unfolding deliverAlert_def
proof (induction order arbitrary: s)
  case Nil
  then show ?case by simp
next
  case (Cons d order)
  show ?case
    using Cons.IH [of "snd (notifyOne w msg d s)"] assms
    by (simp add: notifyOne_refines notifyOne_endpoint)
qed

section \<open>The methods are runs of the delivery protocol\<close>

definition protocol_state ::
  "alarmCache \<Rightarrow> ((notifyDest \<times> string) \<times> alarm_event) list \<Rightarrow> (notifyDest \<Rightarrow> string \<Rightarrow> bool) \<Rightarrow> dstate" where
  "protocol_state c h st = \<lparr>d_cache = c, d_active = [], d_hist = h, d_start = st\<rparr>"

lemma withReservation_steps:
  assumes body: "\<And>s. cache (snd (snd (body s))) = cache s" and now: "\<not> IsZero t1"
  shows "delivery_step\<^sup>*\<^sup>* (protocol_state (cache s) h st)
    (protocol_state (cache (snd (withReservation t0 t1 msg d body s)))
      (h @ (if fst (reserveDelivery t0 msg d (cache s)) \<and>
               fst (snd (body (s\<lparr>cache := snd (reserveDelivery t0 msg d (cache s))\<rparr>)))
            then [((d, message msg), event_of (resolved msg))] else [])) st)"
proof -
  obtain g c where r: "reserveDelivery t0 msg d (cache s) = (g, c)" by fastforce
  obtain err acc s' where b: "body (s\<lparr>cache := c\<rparr>) = (err, acc, s')" by (metis prod_cases3)
  have s': "cache s' = c"
    using body [of "s\<lparr>cache := c\<rparr>"] b by simp
  let ?p = "protocol_state (cache s) h st"
  let ?q = "(protocol_state c h st)\<lparr>d_active := [(msg, d)]\<rparr>"
  show ?thesis
  proof (cases g)
    case False
    then have "delivery_step ?p (protocol_state c h st)"
      using delivery_step.suppress [of t0 msg d ?p c] r by (simp add: protocol_state_def)
    with False show ?thesis by (simp add: withReservation_def r)
  next
    case True
    have start: "delivery_step ?p ?q"
      using delivery_step.start [of t0 msg d ?p c] r True by (simp add: protocol_state_def)
    have "delivery_step ?q (protocol_state (completeDelivery t1 msg d acc c)
        (h @ (if acc then [((d, message msg), event_of (resolved msg))] else [])) st)"
      using delivery_step.accept [of msg d ?q t1] delivery_step.reject [of msg d ?q t1] now
      by (cases acc) (simp_all add: protocol_state_def)
    with start True show ?thesis
      by (simp add: withReservation_def r b s' rtranclp.rtrancl_into_rtrancl [OF r_into_rtranclp])
  qed
qed

lemma notifyOne_steps:
  assumes "\<not> IsZero (net_t1 w d)"
  shows "delivery_step\<^sup>*\<^sup>* (protocol_state (cache s) h st)
    (protocol_state (cache (snd (notifyOne w msg d s))) (h @ accepted_event w msg d s) st)"
proof (cases "wanted msg d")
  case False
  then have "notifyOne w msg d s = (None, s)"
    by (cases d) (auto simp: notifyPagerDuty_eq notifyDiscord_def notifyTelegram_def notifySlack_def)
  with False show ?thesis by (simp add: accepted_event_def)
next
  case True
  note specs = pagerDutyLoop_spec discordBody_spec telegramBody_spec slackBody_spec
  show ?thesis
  proof (cases d)
    case Pd
    with True assms show ?thesis
      using withReservation_steps [of "pagerDutyLoop (net_manage w) msg [1, 2] None" "net_t1 w Pd" s h st
          "net_t0 w Pd" msg Pd]
      by (simp add: notifyPagerDuty_eq accepted_event_def specs del: not_None_eq)
  next
    case Tg
    with True assms show ?thesis
      using withReservation_steps [of "telegramBody (net_bot w) (net_send w) msg" "net_t1 w Tg" s h st
          "net_t0 w Tg" msg Tg]
      by (simp add: notifyTelegram_def accepted_event_def specs del: not_None_eq)
  next
    case Di
    with True assms show ?thesis
      using withReservation_steps [of "discordBody (net_discord w) msg" "net_t1 w Di" s h st
          "net_t0 w Di" msg Di]
      by (simp add: notifyDiscord_def accepted_event_def specs)
  next
    case Slk
    with True assms show ?thesis
      using withReservation_steps [of "slackBody (net_slack w) msg" "net_t1 w Slk" s h st
          "net_t0 w Slk" msg Slk]
      by (simp add: notifySlack_def accepted_event_def specs)
  qed
qed

lemma deliverAlert_steps:
  assumes "\<And>d. \<not> IsZero (net_t1 w d)"
  shows "delivery_step\<^sup>*\<^sup>* (protocol_state (cache s) h st)
    (protocol_state (cache (deliverAlert w msg order s)) (h @ deliver_log w msg order s) st)"
proof (induction order arbitrary: s h)
  case Nil
  then show ?case by (simp add: deliverAlert_def)
next
  case (Cons d order)
  show ?case
    using rtranclp_trans [OF notifyOne_steps [where w = w and msg = msg and d = d, OF assms] Cons.IH]
    by (simp add: deliverAlert_def)
qed

lemma worker_steps:
  assumes "\<forall>(msg, w, order) \<in> set alerts. \<forall>d. \<not> IsZero (net_t1 w d)"
  shows "delivery_step\<^sup>*\<^sup>* (protocol_state (cache s) h st)
    (protocol_state (cache (notificationWorker alerts s)) (h @ worker_log alerts s) st)"
  using assms
proof (induction alerts arbitrary: s h)
  case Nil
  then show ?case by (simp add: notificationWorker_def)
next
  case (Cons a as)
  obtain msg w order where a: "a = (msg, w, order)" by (metis prod_cases3)
  have "delivery_step\<^sup>*\<^sup>* (protocol_state (cache s) h st)
      (protocol_state (cache (deliverAlert w msg order s)) (h @ deliver_log w msg order s) st)"
    using Cons.prems a by (intro deliverAlert_steps) auto
  from rtranclp_trans [OF this Cons.IH] Cons.prems show ?case
    by (simp add: notificationWorker_def a)
qed

lemma steps_reach: "st\<^sup>*\<^sup>* s t \<Longrightarrow> reach i st s \<Longrightarrow> reach i st t"
  by (induction rule: rtranclp_induct) (auto intro: reach.reach_step)

section \<open>Silence and retries\<close>

text \<open>A delivery that is not wanted or not granted reaches no network and counts nothing.\<close>

lemma notifyOne_silent:
  assumes "\<not> (wanted msg d \<and> fst (reserveDelivery (net_t0 w d) msg d (cache s)))"
  shows "fst (notifyOne w msg d s) = None \<and>
    requests (snd (notifyOne w msg d s)) = requests s \<and> observed (snd (notifyOne w msg d s)) = observed s"
  using assms
  by (cases d)
    (auto simp: notifyPagerDuty_eq notifyDiscord_def notifyTelegram_def notifySlack_def
      withReservation_def split_def)

lemma pagerDutyLoop_requests:
  "\<exists>n \<le> length ns. requests (snd (snd (pagerDutyLoop manage msg ns l s))) =
     requests s @ replicate n (PagerDutyManage (pagerDutyEndpoint s) (buildPagerDutyEvent msg))"
proof (induction ns arbitrary: l s)
  case Nil
  then show ?case by (simp add: pagerDutyLoop.simps)
next
  case (Cons n ns)
  show ?case
  proof (cases "manage n (buildPagerDutyEvent msg)")
    case None
    then show ?thesis
      by (intro exI [of _ 1]) (simp add: pagerDutyLoop.simps attempt_defs)
  next
    case (Some e)
    define s2 where "s2 = (if n < pagerDutyMaxAttempts then pause pagerDutyRetryDelay else id)
      (observeOutcome ''pagerduty'' (outcomeOf (classifyPagerDutyError e))
        (sendRequest (PagerDutyManage (pagerDutyEndpoint s) (buildPagerDutyEvent msg)) s))"
    have s2: "pagerDutyLoop manage msg (n # ns) l s =
        pagerDutyLoop manage msg ns (Some (classifyPagerDutyError e)) s2"
      by (simp add: pagerDutyLoop.simps attempt_defs Some s2_def)
    obtain k where "k \<le> length ns" "requests (snd (snd (pagerDutyLoop manage msg (n # ns) l s))) =
        requests s2 @ replicate k (PagerDutyManage (pagerDutyEndpoint s2) (buildPagerDutyEvent msg))"
      using Cons.IH [of "Some (classifyPagerDutyError e)" s2] s2 by auto
    then show ?thesis
      by (intro exI [of _ "Suc k"]) (simp add: s2_def)
  qed
qed

text \<open>The error a method returns: none when nothing was attempted or the destination accepted.\<close>

lemma slackBody_error: "fst (slackBody net msg s) = None \<longleftrightarrow> fst (snd (slackBody net msg s))"
  by (simp add: slackBody_def attempt_defs split: http_reply.split)

lemma discordBody_error: "fst (discordBody net msg s) = None \<longleftrightarrow> fst (snd (discordBody net msg s))"
  by (simp add: discordBody_def attempt_defs split: http_reply.split)

lemma telegramBody_error:
  "fst (telegramBody newBot send msg s) = None \<longleftrightarrow> fst (snd (telegramBody newBot send msg s))"
  by (simp add: telegramBody_def attempt_defs split: option.split)

lemma pagerDutyLoop_error:
  "ns \<noteq> [] \<or> l \<noteq> None \<Longrightarrow>
     fst (pagerDutyLoop manage msg ns l s) = None \<longleftrightarrow> fst (snd (pagerDutyLoop manage msg ns l s))"
proof (induction ns arbitrary: l s)
  case Nil
  then show ?case by (auto simp: pagerDutyLoop.simps)
next
  case (Cons n ns)
  show ?case
    by (simp add: pagerDutyLoop.simps(2) attempt_defs Cons.IH del: not_None_eq split: option.split)
qed

lemma withReservation_result:
  "fst (withReservation t0 t1 msg d body s) =
     (if fst (reserveDelivery t0 msg d (cache s))
      then fst (body (s\<lparr>cache := snd (reserveDelivery t0 msg d (cache s))\<rparr>)) else None)"
  by (simp add: withReservation_def split_def)

lemma notifyOne_result:
  "fst (notifyOne w msg d s) = None \<longleftrightarrow>
     \<not> (wanted msg d \<and> fst (reserveDelivery (net_t0 w d) msg d (cache s))) \<or>
     verdict w (telegramEndpoint s) msg d"
  by (cases d)
    (auto simp: notifyPagerDuty_eq notifyDiscord_def notifyTelegram_def notifySlack_def
      withReservation_result slackBody_error discordBody_error telegramBody_error pagerDutyLoop_error
      slackBody_spec discordBody_spec telegramBody_spec pagerDutyLoop_spec simp del: not_None_eq)

section \<open>Properties\<close>

text \<open>A network that accepts everything and one that refuses everything, for the witnesses.\<close>

definition all_accept :: network where
  "all_accept = \<lparr>net_slack = (\<lambda>_ _. Reply 200), net_discord = (\<lambda>_ _. Reply 204),
     net_bot = (\<lambda>_ _. None), net_send = (\<lambda>_ _. None), net_manage = (\<lambda>_ _. None),
     net_t0 = (\<lambda>_. UnixZero), net_t1 = (\<lambda>_. UnixZero)\<rparr>"

definition all_refuse :: network where
  "all_refuse = \<lparr>net_slack = (\<lambda>_ _. Reply 500), net_discord = (\<lambda>_ _. TransportFails),
     net_bot = (\<lambda>_ _. Some ApiError), net_send = (\<lambda>_ _. None),
     net_manage = (\<lambda>_ _. Some OtherError), net_t0 = (\<lambda>_. UnixZero), net_t1 = (\<lambda>_. UnixZero)\<rparr>"

text \<open>C4: While the notification worker drains any queue of events, with any answers of the
  network and any scheduling of the four destinations, what each destination accepts for each
  message alternates between triggers and resolutions, continuing from what the cache held
  when the worker started: no duplicate trigger, no resolution without a trigger.\<close>

theorem worker_alternates:
  assumes "\<forall>d m. \<not> in_flight (cache s) d m"
    and "\<forall>(msg, w, order) \<in> set alerts. \<forall>d. \<not> IsZero (net_t1 w d)"
  shows "alternates (opened (cache s) d m) (events_of (worker_log alerts s) d m) \<and>
    latch_after (opened (cache s) d m) (events_of (worker_log alerts s) d m) =
      opened (cache (notificationWorker alerts s)) d m"
proof -
  let ?st = "opened (cache s)"
  have "delivery_init (protocol_state (cache s) [] ?st)"
    using assms(1) by (simp add: delivery_init_def protocol_state_def)
  then have "reach delivery_init delivery_step (protocol_state (cache s) [] ?st)"
    by (rule reach.reach_init)
  then have "delivery_inv (protocol_state (cache (notificationWorker alerts s)) (worker_log alerts s) ?st)"
    using steps_reach [OF worker_steps [OF assms(2), of s "[]" ?st]] delivery.reach_inv by simp
  then show ?thesis
    by (simp add: delivery_inv_def protocol_inv_def protocol_state_def)
qed

theorem worker_alternates_witness:
  "alternates False (events_of (worker_log
       [(sample_msg False, all_accept, all_dests), (sample_msg False, all_accept, all_dests),
        (sample_msg True, all_accept, all_dests)] (newNotificationSender ''https://tg.example/bot%s/%s'' None)) Slk ''node down'')"
  using worker_alternates [of "newNotificationSender ''https://tg.example/bot%s/%s'' None"
      "[(sample_msg False, all_accept, all_dests), (sample_msg False, all_accept, all_dests),
        (sample_msg True, all_accept, all_dests)]" Slk "''node down''"]
  by (simp add: newNotificationSender_def newAlarmCache_def in_flight_def opened_def sent_at_def
      sentMap.simps IsZero_def all_accept_def UnixZero_def Second_def)

text \<open>The fan-out of one event to the four destinations leaves the alarm cache in the same
  abstract state whatever the order in which the four goroutines run.\<close>

theorem deliverAlert_order:
  assumes "\<forall>d. flapWindow \<le> net_t0 w d" and "mset order = mset all_dests"
  shows "abs_of (cache (deliverAlert w msg order s)) = abs_of (cache (deliverAlert w msg all_dests s))"
proof -
  have "abs_notify w ep msg x \<circ> abs_notify w ep msg y = abs_notify w ep msg y \<circ> abs_notify w ep msg x"
    for ep x y
    using abs_notify_commute [of x y w ep msg] by (cases "x = y") (simp_all add: fun_eq_iff)
  then have "fold (abs_notify w (telegramEndpoint s) msg) order =
      fold (abs_notify w (telegramEndpoint s) msg) all_dests"
    using assms(2) by (intro fold_multiset_equiv)
  then show ?thesis
    using assms(1) by (simp add: deliverAlert_abs)
qed

theorem deliverAlert_order_witness:
  "abs_of (cache (deliverAlert all_accept (sample_msg False) [Slk, Tg, Di, Pd] (newNotificationSender ''https://tg.example/bot%s/%s'' None))) =
   abs_of (cache (deliverAlert all_accept (sample_msg False) all_dests (newNotificationSender ''https://tg.example/bot%s/%s'' None)))"
proof (rule deliverAlert_order)
  show "\<forall>d. flapWindow \<le> net_t0 all_accept d"
    by (simp add: all_accept_def flapWindow_def time_simps)
  show "mset [Slk, Tg, Di, Pd] = mset all_dests"
    by (simp add: all_dests_def)
qed

text \<open>C21: A \<open>notify*\<close> method commits to the cache exactly when its destination accepted the
  event, and returns an error exactly when it attempted and was not accepted.\<close>

theorem notify_commits_on_acceptance:
  assumes "flapWindow \<le> net_t0 w d"
  shows "abs_of (cache (snd (notifyOne w msg d s))) =
      (if wanted msg d \<and> abs_may_send (net_t0 w d) msg d (abs_of (cache s)) \<and>
          verdict w (telegramEndpoint s) msg d
       then abs_complete (net_t1 w d) msg d True (abs_of (cache s)) else abs_of (cache s)) \<and>
    (fst (notifyOne w msg d s) \<noteq> None \<longleftrightarrow>
      wanted msg d \<and> abs_may_send (net_t0 w d) msg d (abs_of (cache s)) \<and>
      \<not> verdict w (telegramEndpoint s) msg d)"
  using assms by (simp add: notifyOne_refines abs_notify_def notifyOne_result reserve_granted
      del: not_None_eq)

theorem notify_commits_witness:
  "abs_of (cache (snd (notifyOne all_accept (sample_msg False) Slk (newNotificationSender ''https://tg.example/bot%s/%s'' None)))) =
     abs_complete UnixZero (sample_msg False) Slk True (abs_of newAlarmCache)"
proof -
  have now: "flapWindow \<le> net_t0 all_accept Slk"
    by (simp add: all_accept_def flapWindow_def time_simps)
  have may: "abs_may_send (net_t0 all_accept Slk) (sample_msg False) Slk (abs_of newAlarmCache)"
    by (simp add: abs_may_send_def abs_of_def newAlarmCache_def cache_views sentMap.simps sample_msg_def)
  show ?thesis
    using notify_commits_on_acceptance [OF now, of "sample_msg False" "newNotificationSender ''https://tg.example/bot%s/%s'' None"] may
    by (simp add: newNotificationSender_def all_accept_def sample_msg_def del: notifyOne.simps)
qed

text \<open>C23: A delivery that was attempted and refused leaves the event deliverable: the next
  attempt against an accepting destination goes through and is committed.\<close>

theorem refused_then_retried:
  assumes "flapWindow \<le> net_t0 w d" and "fst (notifyOne w msg d s) \<noteq> None"
    and "net_t0 w d \<le> net_t0 w' d" and "verdict w' (telegramEndpoint s) msg d"
  shows "abs_of (cache (snd (notifyOne w' msg d (snd (notifyOne w msg d s))))) =
      abs_complete (net_t1 w' d) msg d True (abs_of (cache s)) \<and>
    fst (notifyOne w' msg d (snd (notifyOne w msg d s))) = None"
proof -
  have now': "flapWindow \<le> net_t0 w' d" using assms(1,3) by simp
  have refused: "wanted msg d" "abs_may_send (net_t0 w d) msg d (abs_of (cache s))"
    "\<not> verdict w (telegramEndpoint s) msg d"
    using assms(1,2) by (auto simp: notifyOne_result reserve_granted simp del: not_None_eq)
  then have same: "abs_of (cache (snd (notifyOne w msg d s))) = abs_of (cache s)"
    using assms(1) by (simp add: notifyOne_refines abs_notify_def)
  have "abs_may_send (net_t0 w' d) msg d (abs_of (cache s))"
    using refused(2) assms(3) by (auto simp: abs_may_send_def split: if_splits)
  then have "abs_may_send (net_t0 w' d) msg d (abs_of (cache (snd (notifyOne w msg d s))))"
    by (simp only: same)
  with refused(1) assms(4) have
    "abs_notify w' (telegramEndpoint s) msg d (abs_of (cache (snd (notifyOne w msg d s)))) =
       abs_complete (net_t1 w' d) msg d True (abs_of (cache s))"
    by (simp only: abs_notify_def same if_True simp_thms)
  then show ?thesis
    using assms(4)
    by (simp only: notifyOne_refines [OF now'] notifyOne_endpoint notifyOne_result simp_thms)
qed

theorem refused_then_retried_witness:
  "fst (notifyOne all_accept (sample_msg False) Slk
     (snd (notifyOne all_refuse (sample_msg False) Slk (newNotificationSender ''https://tg.example/bot%s/%s'' None)))) = None"
proof -
  have "fst (notifyOne all_refuse (sample_msg False) Slk (newNotificationSender ''https://tg.example/bot%s/%s'' None)) \<noteq> None"
    by (simp add: notifyOne_result all_refuse_def sample_msg_def reserveDelivery_def Let_def
        newNotificationSender_def newAlarmCache_def sentMap.simps sentMapLocked_def makeInFlight_def
        gmap_simps IsZero_def del: not_None_eq notifyOne.simps)
  then show ?thesis
    using refused_then_retried [of all_refuse Slk "sample_msg False" "newNotificationSender ''https://tg.example/bot%s/%s'' None" all_accept]
    by (simp add: all_accept_def all_refuse_def flapWindow_def time_simps sample_msg_def
        del: notifyOne.simps)
qed

text \<open>C24: PagerDuty is contacted at most twice per event, always with the same event and so the
  same deduplication key; the key of the example configuration is never contacted, and
  events that are suppressed reach no destination and are not counted.\<close>

theorem pagerduty_retries_bounded:
  "(\<exists>n \<le> pagerDutyMaxAttempts. requests (snd (notifyPagerDuty manage t0 t1 msg s)) =
      requests s @ replicate n (PagerDutyManage (pagerDutyEndpoint s) (buildPagerDutyEvent msg))) \<and>
   (key msg = examplePagerDutyKey \<longrightarrow> notifyPagerDuty manage t0 t1 msg s = (None, s)) \<and>
   (\<not> fst (reserveDelivery t0 msg Pd (cache s)) \<longrightarrow>
      requests (snd (notifyPagerDuty manage t0 t1 msg s)) = requests s \<and>
      observed (snd (notifyPagerDuty manage t0 t1 msg s)) = observed s)"
proof -
  obtain g c where r: "reserveDelivery t0 msg Pd (cache s) = (g, c)" by fastforce
  obtain n where n: "n \<le> 2" "requests (snd (snd (pagerDutyLoop manage msg [1, 2] None (s\<lparr>cache := c\<rparr>)))) =
      requests s @ replicate n (PagerDutyManage (pagerDutyEndpoint s) (buildPagerDutyEvent msg))"
    using pagerDutyLoop_requests [of "[1, 2]" manage msg None "s\<lparr>cache := c\<rparr>"] by auto
  have "\<exists>k \<le> 2. requests (snd (notifyPagerDuty manage t0 t1 msg s)) =
      requests s @ replicate k (PagerDutyManage (pagerDutyEndpoint s) (buildPagerDutyEvent msg))"
  proof (cases "wanted msg Pd \<and> g")
    case True
    with n show ?thesis
      by (intro exI [of _ n]) (simp add: notifyPagerDuty_eq withReservation_def r split_def)
  next
    case False
    then show ?thesis
      by (intro exI [of _ 0]) (auto simp: notifyPagerDuty_eq withReservation_def r)
  qed
  then show ?thesis
    by (auto simp: notifyPagerDuty_eq withReservation_def split_def pagerDutyMaxAttempts_def)
qed

theorem pagerduty_retries_witness:
  "requests (snd (notifyPagerDuty (\<lambda>_ _. Some OtherError) UnixZero UnixZero (sample_msg True)
     (newNotificationSender ''https://tg.example/bot%s/%s'' None))) = [] \<and>
   notifyPagerDuty (\<lambda>_ _. None) UnixZero UnixZero ((sample_msg False)\<lparr>key := examplePagerDutyKey\<rparr>)
     (newNotificationSender ''https://tg.example/bot%s/%s'' None) = (None, newNotificationSender ''https://tg.example/bot%s/%s'' None)"
  using pagerduty_retries_bounded [of "\<lambda>_ _. Some OtherError" UnixZero UnixZero "sample_msg True"
      "newNotificationSender ''https://tg.example/bot%s/%s'' None"]
    pagerduty_retries_bounded [of "\<lambda>_ _. None" UnixZero UnixZero
      "(sample_msg False)\<lparr>key := examplePagerDutyKey\<rparr>" "newNotificationSender ''https://tg.example/bot%s/%s'' None"]
  by (simp add: reserveDelivery_def Let_def sample_msg_def newNotificationSender_def newAlarmCache_def
      sentMap.simps sentMapLocked_def makeInFlight_def gmap_simps IsZero_def)

end
