(* ===== verification/Float64.thy ===== *)
theory Float64
  imports Prelude "HOL-Library.Log_Nat" "HOL-Library.Signed_Division"
begin

text \<open>
  The \<open>float64\<close> arithmetic the program uses, on rationals: \<open>f64_round\<close> is rounding to the
  nearest double with ties to even (53 significant bits). No value of the program
  leaves the normal range, so infinities, NaN and subnormal numbers do not occur: the
  operands are 64-bit integers, small constants and quotients of such numbers.

  The lemmas give what the clients need: integers below \<open>2 ^ 53\<close> are exact, the relative
  error is at most \<open>2 ^ -53\<close>, and therefore comparing a rounded quotient with an integer is
  exact for operands of realistic size. \<open>time.Duration.Hours\<close> and \<open>Seconds\<close> are here as well.
\<close>

section \<open>Rounding\<close>

type_synonym float64 = rat

definition round_even :: "rat \<Rightarrow> int" where
  "round_even x =
     (let f = \<lfloor>x\<rfloor>; r = x - of_int f
      in if r < 1 / 2 then f else if 1 / 2 < r then f + 1 else if even f then f else f + 1)"

text \<open>The exponent of the leading bit of \<open>q\<close>, from the lengths of numerator and denominator.\<close>

definition f64_exp :: "rat \<Rightarrow> int" where
  "f64_exp q =
     (let (n, d) = quotient_of \<bar>q\<bar>; k = int (nat (bitlen n)) - int (nat (bitlen d))
      in if 2 powi k \<le> \<bar>q\<bar> then k else k - 1)"

definition f64_ulp :: "rat \<Rightarrow> rat" where
  "f64_ulp q = 2 powi (f64_exp q - 52)"

definition f64_round :: "rat \<Rightarrow> float64" where
  "f64_round q = (if q = 0 then 0 else of_int (round_even (q / f64_ulp q)) * f64_ulp q)"

text \<open>Conversion from an integer, the three operations, and conversion to an integer.\<close>

definition f64_of_int :: "int \<Rightarrow> float64" where
  "f64_of_int i = f64_round (of_int i)"

definition f64_mul :: "float64 \<Rightarrow> float64 \<Rightarrow> float64" where
  "f64_mul x y = f64_round (x * y)"

definition f64_div :: "float64 \<Rightarrow> float64 \<Rightarrow> float64" where
  "f64_div x y = f64_round (x / y)"

definition f64_add :: "float64 \<Rightarrow> float64 \<Rightarrow> float64" where
  "f64_add x y = f64_round (x + y)"

definition int_of_f64 :: "float64 \<Rightarrow> int" where
  "int_of_f64 x = (if 0 \<le> x then \<lfloor>x\<rfloor> else - \<lfloor>- x\<rfloor>)"

section \<open>Durations as float64\<close>

definition Seconds :: "duration \<Rightarrow> float64" where
  "Seconds d =
     f64_add (f64_of_int (d sdiv Second)) (f64_div (f64_of_int (d smod Second)) (f64_of_int Second))"

definition Hours :: "duration \<Rightarrow> float64" where
  "Hours d =
     f64_add (f64_of_int (d sdiv Hour)) (f64_div (f64_of_int (d smod Hour)) (f64_of_int Hour))"

section \<open>Lemmas\<close>

lemma round_even_int [simp]: "round_even (of_int i) = i"
  by (simp add: round_even_def)

lemma round_even_error: "\<bar>of_int (round_even x) - x\<bar> \<le> 1 / 2"
proof -
  have "of_int \<lfloor>x\<rfloor> \<le> x" "x < of_int \<lfloor>x\<rfloor> + 1"
    by linarith+
  then have "\<bar>of_int \<lfloor>x\<rfloor> - x\<bar> = x - of_int \<lfloor>x\<rfloor>"
    "\<bar>of_int \<lfloor>x\<rfloor> + 1 - x\<bar> = of_int \<lfloor>x\<rfloor> + 1 - x" by simp_all
  then show ?thesis
    by (simp add: round_even_def Let_def)
qed

lemma bitlen_bracket:
  assumes "0 < n"
  shows "2 powi (int (nat (bitlen n)) - 1) \<le> (of_int n :: rat)"
    and "(of_int n :: rat) < 2 powi int (nat (bitlen n))"
proof -
  have b: "2 ^ nat (bitlen n - 1) \<le> n \<and> n < 2 ^ nat (bitlen n)"
    using bitlen_bounds [OF assms] .
  have "0 < bitlen n" using assms by (metis bitlen_bounds bitlen_nonneg int_one_le_iff_zero_less
        less_le_not_le linorder_not_less nat_0 nonneg_int_cases order_antisym power_0 zless_add1_eq
        of_nat_0_eq_iff)
  then have e: "2 powi (int (nat (bitlen n)) - 1) = (2 ^ nat (bitlen n - 1) :: rat)"
    by (simp add: power_int_def)
  have "(of_int (2 ^ nat (bitlen n - 1)) :: rat) \<le> of_int n"
    using b by (simp only: of_int_le_iff)
  then show "2 powi (int (nat (bitlen n)) - 1) \<le> (of_int n :: rat)"
    by (simp only: e of_int_power of_int_numeral)
  have "(of_int n :: rat) < of_int (2 ^ nat (bitlen n))"
    using b by (simp only: of_int_less_iff)
  then show "(of_int n :: rat) < 2 powi int (nat (bitlen n))"
    by (simp only: power_int_of_nat of_int_power of_int_numeral)
qed

lemma f64_exp_bracket:
  assumes "q \<noteq> 0"
  shows "2 powi (f64_exp q) \<le> \<bar>q\<bar>" and "\<bar>q\<bar> < 2 powi (f64_exp q + 1)"
proof -
  obtain n d where nd: "quotient_of \<bar>q\<bar> = (n, d)" by force
  have d: "0 < d" using quotient_of_denom_pos [OF nd] .
  have q: "\<bar>q\<bar> = of_int n / of_int d" using quotient_of_div [OF nd] .
  have "0 < of_int n / (of_int d :: rat)" using assms by (simp add: q [symmetric])
  with d have n: "0 < n" by (simp add: zero_less_divide_iff)
  define a where "a = int (nat (bitlen n))"
  define b where "b = int (nat (bitlen d))"
  have lo: "(2 :: rat) powi (a - b - 1) \<le> \<bar>q\<bar>"
  proof -
    have "(2 :: rat) powi (a - b - 1) = 2 powi (a - 1) / 2 powi b"
      by (simp add: power_int_diff [symmetric] algebra_simps)
    also have "\<dots> \<le> of_int n / of_int d"
      using bitlen_bracket [OF n] bitlen_bracket [OF d] d n
      by (intro frac_le) (auto simp: a_def b_def)
    finally show ?thesis by (simp add: q)
  qed
  have hi: "\<bar>q\<bar> < (2 :: rat) powi (a - b + 1)"
  proof -
    have "of_int n / of_int d < (2 :: rat) powi a / 2 powi (b - 1)"
      using bitlen_bracket [OF n] bitlen_bracket [OF d] d n
      by (intro frac_less) (auto simp: a_def b_def)
    also have "\<dots> = 2 powi (a - b + 1)"
      by (simp add: power_int_diff [symmetric] algebra_simps)
    finally show ?thesis by (simp add: q)
  qed
  have e: "f64_exp q = (if 2 powi (a - b) \<le> \<bar>q\<bar> then a - b else a - b - 1)"
    by (simp add: f64_exp_def nd a_def b_def)
  show "2 powi (f64_exp q) \<le> \<bar>q\<bar>" using lo by (simp add: e)
  show "\<bar>q\<bar> < 2 powi (f64_exp q + 1)" using hi by (simp add: e)
qed

lemma f64_ulp_pos [simp]: "0 < f64_ulp q" "f64_ulp q \<noteq> 0"
  by (simp_all add: f64_ulp_def)

lemma f64_ulp_le: "q \<noteq> 0 \<Longrightarrow> 2 ^ 52 * f64_ulp q \<le> \<bar>q\<bar>"
proof -
  assume "q \<noteq> 0"
  have "2 powi (f64_exp q) = 2 powi (52 + (f64_exp q - 52))" by simp
  also have "\<dots> = (2 :: rat) powi 52 * f64_ulp q"
    unfolding f64_ulp_def by (rule power_int_add) simp
  finally have "2 powi (f64_exp q) = 2 ^ 52 * f64_ulp q" by (simp only: power_int_numeral)
  with f64_exp_bracket(1) [OF \<open>q \<noteq> 0\<close>] show ?thesis by (simp only:)
qed

lemma f64_round_error: "\<bar>f64_round q - q\<bar> \<le> \<bar>q\<bar> / 2 ^ 53"
proof (cases "q = 0")
  case False
  define u where "u = f64_ulp q"
  have u: "0 < u" "2 ^ 52 * u \<le> \<bar>q\<bar>"
    using f64_ulp_le [OF False] by (simp_all add: u_def)
  have "f64_round q - q = (of_int (round_even (q / u)) - q / u) * u"
    using u False by (simp add: f64_round_def u_def left_diff_distrib)
  then have "\<bar>f64_round q - q\<bar> = \<bar>of_int (round_even (q / u)) - q / u\<bar> * u"
    using u by (simp add: abs_mult)
  also have "\<dots> \<le> 1 / 2 * u"
    using u by (intro mult_right_mono round_even_error) auto
  also have "\<dots> \<le> \<bar>q\<bar> / 2 ^ 53" using u by simp
  finally show ?thesis .
qed (simp add: f64_round_def)

lemma f64_round_int:
  assumes "\<bar>i\<bar> < 2 ^ 53"
  shows "f64_round (of_int i) = of_int i"
proof (cases "i = 0")
  case False
  let ?e = "f64_exp (of_int i) - 52"
  have "2 ^ 52 * f64_ulp (of_int i) \<le> \<bar>of_int i\<bar>"
    using f64_ulp_le [of "of_int i"] False by simp
  also have "\<bar>of_int i\<bar> < (2 ^ 53 :: rat)"
    using assms by (metis of_int_abs of_int_less_iff of_int_numeral of_int_power)
  finally have "f64_ulp (of_int i) < 2" by simp
  then have "(2 :: rat) powi ?e < 2 powi 1" by (simp add: f64_ulp_def)
  then have "?e < 1"
    by (meson not_less one_le_numeral power_int_increasing)
  then have k: "?e = - int (nat (- ?e))" by simp
  define k where "k = nat (- ?e)"
  have u: "f64_ulp (of_int i) = 1 / 2 ^ k"
    unfolding f64_ulp_def by (subst k) (simp only: k_def power_int_minus power_int_of_nat inverse_eq_divide)
  have "of_int i * (2 :: rat) ^ k = of_int (i * 2 ^ k)" by simp
  then have "round_even (of_int i / f64_ulp (of_int i)) = i * 2 ^ k"
    by (simp only: u divide_divide_eq_right div_by_1 round_even_int)
  then show ?thesis
    using False by (simp add: f64_round_def u)
qed (simp add: f64_round_def)

lemma f64_of_int_exact: "\<bar>i\<bar> < 2 ^ 53 \<Longrightarrow> f64_of_int i = of_int i"
  by (simp add: f64_of_int_def f64_round_int)

lemma f64_round_bounds:
  assumes "0 \<le> x"
  shows "x * (1 - 1 / 2 ^ 53) \<le> f64_round x" and "f64_round x \<le> x * (1 + 1 / 2 ^ 53)"
proof -
  have "f64_round x - x \<le> x / 2 ^ 53" "x - f64_round x \<le> x / 2 ^ 53"
    using f64_round_error [of x] assms by linarith+
  then show "x * (1 - 1 / 2 ^ 53) \<le> f64_round x" "f64_round x \<le> x * (1 + 1 / 2 ^ 53)"
    by (simp_all add: right_diff_distrib distrib_left)
qed

lemma f64_round_neg:
  assumes "x < 0"
  shows "f64_round x < 0"
proof -
  have "f64_round x \<le> x + \<bar>x\<bar> / 2 ^ 53"
    using f64_round_error [of x] by linarith
  also have "\<dots> < 0" using assms by simp
  finally show ?thesis .
qed

text \<open>
  A quotient compared with an integer: when the product of the threshold and the denominator
  is below \<open>2 ^ 53\<close>, rounding does not change the outcome.
\<close>

lemma f64_above:
  assumes w: "0 < w" and k: "0 \<le> k" "k * w + 1 < 2 ^ 53" and x: "k + 1 / w \<le> x"
  shows "k < f64_round x"
proof -
  define \<epsilon> :: rat where "\<epsilon> = 1 / 2 ^ 53"
  have "(k * w + 1) * \<epsilon> < 1" using k by (simp add: \<epsilon>_def)
  then have "k * \<epsilon> * w < 1 - \<epsilon>" by (simp add: algebra_simps)
  then have "k * \<epsilon> < (1 - \<epsilon>) / w" using w by (simp add: pos_less_divide_eq)
  then have "k < (k + 1 / w) * (1 - \<epsilon>)" using w by (simp add: field_simps)
  also have "\<dots> \<le> x * (1 - \<epsilon>)"
    using x by (intro mult_right_mono) (auto simp: \<epsilon>_def)
  also have "\<dots> \<le> f64_round x"
  proof -
    have "0 \<le> k + 1 / w" using k w by simp
    with x have "0 \<le> x" by linarith
    then show ?thesis unfolding \<epsilon>_def by (rule f64_round_bounds)
  qed
  finally show ?thesis .
qed

lemma f64_below:
  assumes w: "0 < w" and k: "0 \<le> k" "k * w + 1 < 2 ^ 53" and x: "x \<le> k - 1 / w"
  shows "f64_round x < k"
proof (cases "0 \<le> x")
  case True
  define \<epsilon> :: rat where "\<epsilon> = 1 / 2 ^ 53"
  have \<epsilon>: "0 < \<epsilon>" by (simp add: \<epsilon>_def)
  have "(k * w + 1) * \<epsilon> < 1" using k by (simp add: \<epsilon>_def)
  then have "k * \<epsilon> * w < 1 + \<epsilon>" using \<epsilon> by (simp add: algebra_simps)
  then have lt: "k * \<epsilon> < (1 + \<epsilon>) / w" using w by (simp add: pos_less_divide_eq)
  have "f64_round x \<le> x * (1 + \<epsilon>)"
    using True unfolding \<epsilon>_def by (rule f64_round_bounds)
  also have "\<dots> \<le> (k - 1 / w) * (1 + \<epsilon>)"
    using x \<epsilon> by (intro mult_right_mono) auto
  also have "\<dots> < k" using lt w by (simp add: field_simps)
  finally show ?thesis .
next
  case False
  then show ?thesis using f64_round_neg [of x] k by linarith
qed

lemma f64_div_compare:
  assumes w: "0 < w" and k: "0 \<le> k" "k * w + 1 < 2 ^ 53"
  shows "of_int k < f64_round (of_int a / of_int w) \<longleftrightarrow> k * w < a"
    and "f64_round (of_int a / of_int w) < of_int k \<longleftrightarrow> a < k * w"
proof -
  let ?x = "of_int a / of_int w :: rat"
  have w': "0 < (of_int w :: rat)" and k': "0 \<le> (of_int k :: rat)" using w k by simp_all
  have small: "of_int k * of_int w + 1 < (2 ^ 53 :: rat)"
  proof -
    have "(of_int (k * w + 1) :: rat) < of_int (2 ^ 53)" using k(2) by (simp only: of_int_less_iff)
    then show ?thesis by (simp only: of_int_add of_int_mult of_int_1 of_int_power of_int_numeral)
  qed
  have eq: "f64_round ?x = of_int k" if "a = k * w"
  proof -
    have "k * 1 \<le> k * w" using k w by (intro mult_left_mono) auto
    then have "f64_round (of_int k) = of_int k" using k by (intro f64_round_int) auto
    with that w show ?thesis by simp
  qed
  have gt: "of_int k < f64_round ?x" if "k * w < a"
  proof (rule f64_above [OF w' k' small])
    have "(of_int (k * w + 1) :: rat) \<le> of_int a" using that by (simp only: of_int_le_iff)
    then have "of_int (k * w + 1) / of_int w \<le> ?x" using w' by (intro divide_right_mono) auto
    then show "of_int k + 1 / of_int w \<le> ?x" using w' by (simp add: add_divide_distrib)
  qed
  have lt: "f64_round ?x < of_int k" if "a < k * w"
  proof (rule f64_below [OF w' k' small])
    have "(of_int a :: rat) \<le> of_int (k * w - 1)" using that by (simp only: of_int_le_iff)
    then have "?x \<le> of_int (k * w - 1) / of_int w" using w' by (intro divide_right_mono) auto
    then show "?x \<le> of_int k - 1 / of_int w" using w' by (simp add: diff_divide_distrib)
  qed
  define y where "y = f64_round ?x"
  note cases = eq gt lt
  show "of_int k < f64_round ?x \<longleftrightarrow> k * w < a"
    using cases unfolding y_def [symmetric] by (cases a "k * w" rule: linorder_cases) simp_all
  show "f64_round ?x < of_int k \<longleftrightarrow> a < k * w"
    using cases unfolding y_def [symmetric] by (cases a "k * w" rule: linorder_cases) simp_all
qed

text \<open>
  \<open>Hours\<close> adds two rounded terms; the sum still falls on the right side of 24 hours for every
  duration of 64 bits.
\<close>

lemma Hour_value [simp]: "Hour = 3600000000000"
  by (simp add: time_simps)

lemma sdiv_smod_Hour:
  "d = d sdiv Hour * Hour + d smod Hour" "\<bar>d smod Hour\<bar> < Hour" "0 \<le> d \<Longrightarrow> 0 \<le> d smod Hour"
  "d < 0 \<Longrightarrow> d smod Hour \<le> 0"
proof -
  show "d = d sdiv Hour * Hour + d smod Hour"
    by (simp only: sdiv_mult_smod_eq)
  show "\<bar>d smod Hour\<bar> < Hour"
    using pos_mod_sign [of Hour "\<bar>d\<bar>"] pos_mod_bound [of Hour "\<bar>d\<bar>"]
    by (auto simp: smod_int_alt_def sgn_if abs_mult)
  show "0 \<le> d \<Longrightarrow> 0 \<le> d smod Hour" "d < 0 \<Longrightarrow> d smod Hour \<le> 0"
    by (simp_all add: smod_int_alt_def sgn_if abs_if)
qed

lemma f64_hour_fraction:
  fixes r :: rat
  assumes n: "\<bar>n\<bar> < Hour" and r: "r = f64_div (f64_of_int n) (f64_of_int Hour)"
  shows "r \<le> 1 - 1 / 7200000000000" and "0 < n \<Longrightarrow> 1 / 7200000000000 \<le> r" and "n = 0 \<Longrightarrow> r = 0"
proof -
  have r': "r = f64_round (of_int n / 3600000000000)"
    using n by (simp add: r f64_div_def f64_of_int_exact)
  show "n = 0 \<Longrightarrow> r = 0" by (simp add: r' f64_round_def)
  show "r \<le> 1 - 1 / 7200000000000"
  proof (cases "0 \<le> n")
    case True
    have "r \<le> of_int n / 3600000000000 * (1 + 1 / 2 ^ 53)"
      using True unfolding r' by (intro f64_round_bounds) simp
    also have "\<dots> \<le> 3599999999999 / 3600000000000 * (1 + 1 / 2 ^ 53)"
      using n by (intro mult_right_mono divide_right_mono) auto
    finally show ?thesis by simp
  next
    case False
    then show ?thesis using f64_round_neg [of "of_int n / 3600000000000"] by (simp add: r')
  qed
  show "1 / 7200000000000 \<le> r" if "0 < n"
  proof -
    have "1 / 3600000000000 * (1 - 1 / 2 ^ 53) \<le> of_int n / (3600000000000 :: rat) * (1 - 1 / 2 ^ 53)"
      using that by (intro mult_right_mono divide_right_mono) auto
    also have "\<dots> \<le> r"
      using that unfolding r' by (intro f64_round_bounds) simp
    finally show ?thesis by simp
  qed
qed

lemma Hours_ge_24:
  assumes d: "- (2 ^ 63) \<le> d" "d \<le> 2 ^ 63 - 1"
  shows "24 \<le> Hours d \<longleftrightarrow> 24 * Hour \<le> d"
proof -
  define h n where "h = d sdiv Hour" and "n = d smod Hour"
  define r where "r = f64_div (f64_of_int n) (f64_of_int Hour)"
  have eq: "d = h * Hour + n" and n: "\<bar>n\<bar> < Hour" and sgn: "0 \<le> d \<Longrightarrow> 0 \<le> n" "d < 0 \<Longrightarrow> n \<le> 0"
    using sdiv_smod_Hour [of d] by (simp_all add: h_def n_def)
  note frac = f64_hour_fraction [OF n r_def]
  have "\<bar>h\<bar> < 2 ^ 53" using eq n d by auto
  then have H: "Hours d = f64_round (of_int h + r)"
    by (simp add: Hours_def f64_add_def f64_of_int_exact r_def h_def n_def)
  show ?thesis
  proof (cases "24 * Hour \<le> d")
    case True
    then have h: "24 \<le> h" using eq n by simp
    have "24 \<le> Hours d"
    proof (cases "h = 24 \<and> n = 0")
      case True
      then show ?thesis using frac(3) f64_round_int [of 24] by (simp add: H)
    next
      case False
      have "24 + 1 / 7200000000000 \<le> of_int h + r"
      proof (cases "h = 24")
        case True
        with False sgn(1) \<open>24 * Hour \<le> d\<close> have "0 < n" by simp
        with frac(2) True show ?thesis by simp
      next
        case False
        then have "(25 :: rat) \<le> of_int h" using h by simp
        moreover have "0 \<le> r" using frac(2,3) sgn(1) True by (cases "n = 0") auto
        ultimately show ?thesis by simp
      qed
      then have "24 < f64_round (of_int h + r)"
        by (intro f64_above [where w = 7200000000000]) simp_all
      then show ?thesis by (simp add: H)
    qed
    with True show ?thesis by simp
  next
    case False
    then have "h \<le> 23" using eq n sgn by (cases "0 \<le> d") auto
    then have "of_int h \<le> (23 :: rat)" by simp
    then have "of_int h + r \<le> 24 - 1 / 7200000000000" using frac(1) by simp
    then have "f64_round (of_int h + r) < 24"
      by (intro f64_below [where w = 7200000000000]) simp_all
    with False show ?thesis by (simp add: H)
  qed
qed

text \<open>Counters that only ever grow by one are exact up to \<open>2 ^ 53\<close>.\<close>

lemma f64_inc: "0 \<le> i \<Longrightarrow> i + 1 < 2 ^ 53 \<Longrightarrow> f64_add (of_int i) 1 = of_int (i + 1)"
  using f64_round_int [of "i + 1"] by (simp add: f64_add_def)

lemma int_of_f64_of_int [simp]: "int_of_f64 (of_int i) = i"
  by (simp add: int_of_f64_def)

end
