(* ===== verification/ChainState.thy ===== *)
theory ChainState
  imports AlarmCache Float64 "HOL-Library.Word"
begin

text \<open>
  The state of the process: the records of \<open>src/seer/types.go\<close>, \<open>validator.go\<close>,
  \<open>prometheus.go\<close> and \<open>dashboard/types.go\<close>, and the accessors of \<open>runtime_state.go\<close>.

  The configuration \<open>Config\<close> (the global \<open>td\<close>) owns the chains: \<open>Chains\<close> is the store of chain
  objects, and a \<open>*ChainConfig\<close> of the source is the key of its object. After startup the
  global \<open>alarms\<close>, \<open>td.alarms\<close> and the sender's cache are one object, the field \<open>alarms\<close> here.
  Outgoing channels (\<open>alertChan\<close>, \<open>updateChan\<close>, \<open>statsChan\<close>) are the lists of what was sent;
  the bounded capacity of \<open>alertChan\<close> is the subject of the lifecycle theory. Log lines are
  not modelled.

  A slice whose nil and empty values the program cannot tell apart is a list: \<open>blocksResults\<close>
  and \<open>Conspub\<close> are only ever assigned by \<open>append([]T(nil), ...)\<close>, which gives nil for no
  elements.
\<close>

section \<open>Configuration\<close>

type_synonym byte = "8 word"

record NodeConfig =
  Url :: string
  AlertIfDown :: bool
  down :: bool
  wasDown :: bool
  syncing :: bool
  lastMsg :: string
  downSince :: time

record ValInfo =
  Moniker :: string
  Bonded :: bool
  Jailed :: bool
  Tombstoned :: bool
  Missed :: int
  Window :: int
  Conspub :: "byte list"
  Valcons :: string

record PDConfig =
  pd_Enabled :: bool
  pd_ApiKey :: string
  pd_DefaultSeverity :: string

record DiscordConfig =
  di_Enabled :: bool
  di_Webhook :: string
  di_Mentions :: "string list"

record TeleConfig =
  tg_Enabled :: bool
  tg_ApiKey :: string
  tg_Channel :: string
  tg_Mentions :: "string list"

record SlackConfig =
  slk_Enabled :: bool
  slk_Webhook :: string
  slk_Mentions :: "string list"

record HealthcheckConfig =
  hc_Enabled :: bool
  PingURL :: string
  PingRate :: duration

record AlertConfig =
  Stalled :: int
  StalledAlerts :: bool
  ConsecutiveMissed :: int
  ConsecutivePriority :: string
  ConsecutiveAlerts :: bool
  al_Window :: int
  PercentagePriority :: string
  PercentageAlerts :: bool
  AlertIfInactive :: bool
  AlertIfNoServers :: bool
  PagerdutyAlerts :: bool
  DiscordAlerts :: bool
  TelegramAlerts :: bool
  al_Pagerduty :: PDConfig
  al_Discord :: DiscordConfig
  al_Telegram :: TeleConfig
  al_Slack :: SlackConfig

text \<open>An RPC client is known by the remote it talks to; its answers come from the environment.\<close>

datatype rpcClient = RpcClient (Remote: string)

record ChainConfig =
  name :: string
  wsclient :: "string option"
  client :: "rpcClient option"
  noNodes :: bool
  valInfo :: "ValInfo option"
  lastValInfo :: "ValInfo option"
  blocksResults :: "int list"
  lastError :: string
  lastBlockTime :: time
  lastBlockAlarm :: bool
  stalledResolutionPending :: bool
  percentageAlarm :: bool
  lastBlockNum :: int
  activeAlerts :: nat
  statTotalSigns :: float64
  statTotalProps :: float64
  statTotalMiss :: float64
  statPrevoteMiss :: float64
  statPrecommitMiss :: float64
  statConsecutiveMiss :: float64
  ChainId :: string
  ValAddress :: string
  ValconsOverride :: string
  ExtraInfo :: string
  Alerts :: AlertConfig
  PublicFallback :: bool
  Nodes :: "NodeConfig list"

section \<open>Messages to the dashboard and to Prometheus\<close>

record ChainStatus =
  cs_MsgType :: string
  cs_Name :: string
  cs_ChainId :: string
  cs_Moniker :: string
  cs_Bonded :: bool
  cs_Jailed :: bool
  cs_Tombstoned :: bool
  cs_Missed :: int
  cs_Window :: int
  cs_Nodes :: nat
  cs_HealthyNodes :: nat
  cs_ActiveAlerts :: nat
  cs_Height :: int
  cs_LastError :: string
  cs_Blocks :: "int list"

datatype metricType =
    metricSigned | metricProposed | metricMissed | metricPrevote | metricPrecommit
  | metricConsecutive | metricWindowMissed | metricWindowSize | metricLastBlockSeconds
  | metricLastBlockSecondsNotFinal | metricTotalNodes | metricUnealthyNodes
  | metricNodeLagSeconds | metricNodeDownSeconds

record promUpdate =
  pu_metric :: metricType
  pu_counter :: float64
  pu_name :: string
  pu_chainId :: string
  pu_moniker :: string
  pu_endpoint :: string

section \<open>The process\<close>

text \<open>
  \<open>statsLeft\<close> is how many more statistics the exporter takes before the context is done
  (\<open>None\<close>: it never is); it stands for the choice of the \<open>select\<close> in \<open>emitStat\<close>.
\<close>

record Config =
  alertChan :: "alertMsg list"
  updateChan :: "ChainStatus list"
  statsChan :: "promUpdate list"
  statsLeft :: "nat option"
  alarms :: alarmCache
  accepting :: bool
  EnableDash :: bool
  Listen :: string
  HideLogs :: bool
  NodeDownMin :: int
  NodeDownSeverity :: string
  Prom :: bool
  PrometheusListenPort :: int
  Pagerduty :: PDConfig
  Discord :: DiscordConfig
  Telegram :: TeleConfig
  Slack :: SlackConfig
  Healthcheck :: HealthcheckConfig
  Chains :: "(string, ChainConfig) gmap"

text \<open>Writing a chain object back into the store.\<close>

definition putChain :: "string \<Rightarrow> ChainConfig \<Rightarrow> Config \<Rightarrow> Config" where
  "putChain k cc td = td\<lparr>Chains := m_ins k cc (Chains td)\<rparr>"

abbreviation chainAt :: "Config \<Rightarrow> string \<Rightarrow> ChainConfig option" where
  "chainAt td \<equiv> m_lookup (Chains td)"

section \<open>Validator state\<close>

definition monitoringSnapshot :: "ChainConfig \<Rightarrow> rpcClient option \<times> ValInfo option \<times> ValInfo option" where
  "monitoringSnapshot cc = (client cc, valInfo cc, lastValInfo cc)"

definition rpcClientSnapshot :: "ChainConfig \<Rightarrow> rpcClient option" where
  "rpcClientSnapshot cc = fst (monitoringSnapshot cc)"

definition setRPCClient :: "rpcClient \<Rightarrow> ChainConfig \<Rightarrow> ChainConfig" where
  "setRPCClient c cc = cc\<lparr>client := Some c\<rparr>"

definition validatorInfoSnapshot :: "ChainConfig \<Rightarrow> ValInfo option \<times> ValInfo option" where
  "validatorInfoSnapshot cc = snd (monitoringSnapshot cc)"

definition publishValidatorInfo :: "ValInfo \<Rightarrow> bool \<Rightarrow> ChainConfig \<Rightarrow> ChainConfig" where
  "publishValidatorInfo next retainPrevious cc =
     (let cc1 = (if retainPrevious then cc\<lparr>lastValInfo := valInfo cc\<rparr> else cc)
      in cc1\<lparr>valInfo := Some next\<rparr>)"

definition emptyValInfo :: ValInfo where
  "emptyValInfo =
     \<lparr>Moniker = '''', Bonded = False, Jailed = False, Tombstoned = False, Missed = 0, Window = 0,
      Conspub = [], Valcons = ''''\<rparr>"

section \<open>Statistics\<close>

definition mkUpdate :: "metricType \<Rightarrow> float64 \<Rightarrow> string \<Rightarrow> ChainConfig \<Rightarrow> promUpdate" where
  "mkUpdate t v node cc =
     \<lparr>pu_metric = t, pu_counter = v, pu_name = name cc, pu_chainId = ChainId cc,
      pu_moniker = (case fst (validatorInfoSnapshot cc) of None \<Rightarrow> '''' | Some vi \<Rightarrow> Moniker vi),
      pu_endpoint = node\<rparr>"

definition emitStat :: "promUpdate \<Rightarrow> Config \<Rightarrow> bool \<times> Config" where
  "emitStat u td =
     (case statsLeft td of
        None \<Rightarrow> (True, td\<lparr>statsChan := statsChan td @ [u]\<rparr>)
      | Some 0 \<Rightarrow> (False, td)
      | Some (Suc n) \<Rightarrow> (True, td\<lparr>statsChan := statsChan td @ [u], statsLeft := Some n\<rparr>))"

text \<open>A sequence of \<open>emitStat\<close> calls that stops at the first one refused.\<close>

fun emitStats :: "promUpdate list \<Rightarrow> Config \<Rightarrow> bool \<times> Config" where
  "emitStats [] td = (True, td)"
| "emitStats (u # us) td =
     (case emitStat u td of (ok, td') \<Rightarrow> if ok then emitStats us td' else (False, td'))"

section \<open>Nodes and blocks\<close>

definition setNoNodes :: "bool \<Rightarrow> ChainConfig \<Rightarrow> ChainConfig" where
  "setNoNodes b cc = cc\<lparr>noNodes := b\<rparr>"

definition noNodesState :: "ChainConfig \<Rightarrow> bool" where
  "noNodesState cc = noNodes cc"

definition recordBlockResult :: "int \<Rightarrow> ChainConfig \<Rightarrow> int list \<times> ChainConfig" where
  "recordBlockResult result cc =
     (let bs = (if length (blocksResults cc) = 0 then [result]
                else result # take (length (blocksResults cc) - 1) (blocksResults cc))
      in (bs, cc\<lparr>blocksResults := bs\<rparr>))"

definition blockResultsSnapshot :: "ChainConfig \<Rightarrow> int list" where
  "blockResultsSnapshot cc = blocksResults cc"

record nodeRuntimeState =
  ns_down :: bool
  ns_wasDown :: bool
  ns_syncing :: bool
  ns_lastMsg :: string
  ns_downSince :: time

definition nodeState :: "NodeConfig \<Rightarrow> nodeRuntimeState" where
  "nodeState node =
     \<lparr>ns_down = down node, ns_wasDown = wasDown node, ns_syncing = syncing node,
      ns_lastMsg = lastMsg node, ns_downSince = downSince node\<rparr>"

definition updateNodeState ::
  "(nodeRuntimeState \<Rightarrow> nodeRuntimeState) \<Rightarrow> NodeConfig \<Rightarrow> nodeRuntimeState \<times> NodeConfig" where
  "updateNodeState update node =
     (let s = update (nodeState node)
      in (s, node\<lparr>down := ns_down s, wasDown := ns_wasDown s, syncing := ns_syncing s,
              lastMsg := ns_lastMsg s, downSince := ns_downSince s\<rparr>))"

text \<open>The node at position \<open>i\<close> of a chain, updated in place.\<close>

definition updateNodeAt ::
  "nat \<Rightarrow> (nodeRuntimeState \<Rightarrow> nodeRuntimeState) \<Rightarrow> ChainConfig \<Rightarrow> ChainConfig" where
  "updateNodeAt i update cc =
     cc\<lparr>Nodes := (Nodes cc)[i := snd (updateNodeState update (Nodes cc ! i))]\<rparr>"

section \<open>Well-formed processes\<close>

text \<open>
  What holds from startup on: the store of chains is made, every object carries the name of
  its key, and the alarm cache is well-formed.
\<close>

definition td_wf :: "Config \<Rightarrow> bool" where
  "td_wf td \<longleftrightarrow> Chains td \<noteq> NilMap \<and> m_wf (Chains td) \<and>
     (\<forall>k cc. chainAt td k = Some cc \<longrightarrow> name cc = k) \<and> cache_wf (alarms td)"

lemma chainAt_putChain [simp]:
  "chainAt (putChain k cc td) k' = (if k' = k then Some cc else chainAt td k')"
  by (simp add: putChain_def gmap_simps)

lemma putChain_frame [simp]:
  "alertChan (putChain k cc td) = alertChan td" "alarms (putChain k cc td) = alarms td"
  "accepting (putChain k cc td) = accepting td" "updateChan (putChain k cc td) = updateChan td"
  "statsChan (putChain k cc td) = statsChan td" "statsLeft (putChain k cc td) = statsLeft td"
  "NodeDownMin (putChain k cc td) = NodeDownMin td" "Prom (putChain k cc td) = Prom td"
  "NodeDownSeverity (putChain k cc td) = NodeDownSeverity td"
  "EnableDash (putChain k cc td) = EnableDash td" "HideLogs (putChain k cc td) = HideLogs td"
  "Pagerduty (putChain k cc td) = Pagerduty td" "Discord (putChain k cc td) = Discord td"
  "Telegram (putChain k cc td) = Telegram td" "Slack (putChain k cc td) = Slack td"
  by (simp_all add: putChain_def)

lemma td_wf_putChain: "td_wf td \<Longrightarrow> name cc = k \<Longrightarrow> td_wf (putChain k cc td)"
  by (auto simp: td_wf_def putChain_def gmap_simps)

lemma td_wf_name: "td_wf td \<Longrightarrow> chainAt td k = Some cc \<Longrightarrow> name cc = k"
  by (simp add: td_wf_def)

text \<open>Emitting statistics touches nothing but the statistics channel.\<close>

lemma emitStat_frame:
  "emitStat u td = (ok, td') \<Longrightarrow>
     \<exists>n. td' = td\<lparr>statsChan := statsChan td @ (if ok then [u] else []), statsLeft := n\<rparr>"
  by (intro exI [of _ "statsLeft td'"] Config.equality)
    (auto simp: emitStat_def split: option.splits nat.splits)

lemma emitStats_frame:
  "emitStats us td = (ok, td') \<Longrightarrow>
     \<exists>vs n. td' = td\<lparr>statsChan := statsChan td @ vs, statsLeft := n\<rparr> \<and> prefix vs us \<and>
       (ok \<longrightarrow> vs = us)"
proof (induction us arbitrary: td)
  case Nil
  then show ?case by (intro exI [of _ "[]"] exI [of _ "statsLeft td"]) simp
next
  case (Cons u us)
  obtain ok1 td1 where 1: "emitStat u td = (ok1, td1)" by force
  then obtain n where n: "td1 = td\<lparr>statsChan := statsChan td @ (if ok1 then [u] else []), statsLeft := n\<rparr>"
    using emitStat_frame by blast
  show ?case
  proof (cases ok1)
    case True
    with Cons.prems 1 have "emitStats us td1 = (ok, td')" by simp
    from Cons.IH [OF this] obtain vs n' where
      "td' = td1\<lparr>statsChan := statsChan td1 @ vs, statsLeft := n'\<rparr>" "prefix vs us" "ok \<longrightarrow> vs = us"
      by blast
    with n True show ?thesis by (intro exI [of _ "u # vs"] exI [of _ n']) simp
  next
    case False
    with Cons.prems 1 n show ?thesis by (intro exI [of _ "[]"] exI [of _ n]) simp
  qed
qed

section \<open>The history of block results\<close>

text \<open>The length of the history never changes once it is non-empty.\<close>

definition historyLength :: "ChainConfig \<Rightarrow> nat" where
  "historyLength cc = max 1 (length (blocksResults cc))"

interpretation blocks: recent_history "\<lambda>r cc. snd (recordBlockResult r cc)" blocksResults
  historyLength "\<lambda>_. True"
  by unfold_locales
    (auto simp: recordBlockResult_def historyLength_def Let_def take_Cons' max_def)

lemma recordBlockResult_returns:
  "fst (recordBlockResult r cc) = blocksResults (snd (recordBlockResult r cc))"
  by (simp add: recordBlockResult_def Let_def)

end
