(* ===== verification/Runes.thy ===== *)
theory Runes
  imports Prelude
begin

text \<open>
  Go strings as UTF-8: the width of the rune a byte string starts with (\<open>utf8.DecodeRuneInString\<close>, where an invalid
  byte counts as a rune of width one) and \<open>utf8.ValidString\<close>, as the metrics and the dashboard rely on them.
\<close>

abbreviation byteOf :: "char \<Rightarrow> nat" where
  "byteOf c \<equiv> of_char c"

definition continuation :: "char \<Rightarrow> bool" where
  "continuation c \<longleftrightarrow> 128 \<le> byteOf c \<and> byteOf c \<le> 191"

text \<open>The width the first byte announces, and the range of the second byte.\<close>

definition announcedWidth :: "char \<Rightarrow> nat" where
  "announcedWidth c =
     (let n = byteOf c in
      if 194 \<le> n \<and> n \<le> 223 then 2 else if 224 \<le> n \<and> n \<le> 239 then 3 else if 240 \<le> n \<and> n \<le> 244 then 4 else 1)"

definition secondByte :: "char \<Rightarrow> char \<Rightarrow> bool" where
  "secondByte c d \<longleftrightarrow>
     (if byteOf c = 224 then 160 else if byteOf c = 240 then 144 else 128) \<le> byteOf d \<and>
     byteOf d \<le> (if byteOf c = 237 then 159 else if byteOf c = 244 then 143 else 191)"

fun runeWidth :: "string \<Rightarrow> nat" where
  "runeWidth [] = 0"
| "runeWidth [c] = 1"
| "runeWidth (c # d # s) =
     (let w = announcedWidth c in
      if 1 < w \<and> w \<le> length s + 2 \<and> secondByte c d \<and> list_all continuation (take (w - 2) s) then w else 1)"

lemma runeWidth_pos [simp]: "s \<noteq> [] \<Longrightarrow> 0 < runeWidth s"
  by (cases s rule: runeWidth.cases) (auto simp: Let_def)

lemma runeWidth_le: "runeWidth s \<le> length s"
  by (cases s rule: runeWidth.cases) (auto simp: Let_def)

lemma runeWidth_ascii: "byteOf c < 128 \<Longrightarrow> runeWidth (c # s) = 1"
  by (cases s) (auto simp: announcedWidth_def Let_def)

function validString :: "string \<Rightarrow> bool" where
  "validString [] = True"
| "validString (c # s) =
     ((runeWidth (c # s) = 1 \<longrightarrow> byteOf c < 128) \<and> validString (drop (runeWidth (c # s)) (c # s)))"
  by pat_completeness auto
termination by (relation "measure length") (auto simp del: runeWidth.simps)

lemma validString_ascii: "list_all (\<lambda>c. byteOf c < 128) s \<Longrightarrow> validString s"
  by (induction s) (simp_all add: runeWidth_ascii)

end
