(* ===== verification/Exporter.thy ===== *)
theory Exporter
  imports ChainState Runes
begin

text \<open>
  The Prometheus exporter: \<open>setStat\<close> and \<open>prometheusExporter\<close> of \<open>src/seer/prometheus.go\<close>.

  The Prometheus client library is a parameter: \<open>canRegister\<close> says whether a family can be registered beside those
  that are (otherwise \<open>promauto\<close> panics), \<open>gaugeWith\<close> is the series \<open>GaugeVec.With\<close> selects (\<open>None\<close> when it panics).
  \<open>prom_ok\<close> is what it documents: a family with a new name registers, and exactly the labels of a family, with UTF-8 values,
  select the series of these values. A panic of the model is \<open>None\<close>. The HTTP server that serves the
  registry is not modelled.

  Shown: neither the registration nor any update panics, and every series shows its latest update.
\<close>

section \<open>Families\<close>

definition chainLabels :: "string list" where
  "chainLabels = [''name'', ''chain_id'', ''moniker'']"

definition hostLabels :: "string list" where
  "hostLabels = [''name'', ''chain_id'', ''moniker'', ''endpoint'']"

type_synonym family = "string \<times> string list"

definition notificationDeliveryOutcomes :: family where
  "notificationDeliveryOutcomes = (''tenderduty_notification_delivery_attempts_total'', [''destination'', ''outcome''])"

text \<open>The families in the order they are registered.\<close>

definition gaugeFamilies :: "family list" where
  "gaugeFamilies =
     [(''tenderduty_signed_blocks'', chainLabels),
      (''tenderduty_proposed_blocks'', chainLabels),
      (''tenderduty_missed_blocks'', chainLabels),
      (''tenderduty_missed_blocks_prevote_present'', chainLabels),
      (''tenderduty_missed_blocks_precommit_present'', chainLabels),
      (''tenderduty_consecutive_missed_blocks'', chainLabels),
      (''tenderduty_missed_block_window'', chainLabels),
      (''tenderduty_missed_blocks_for_window'', chainLabels),
      (''tenderduty_time_since_last_block'', chainLabels),
      (''tenderduty_time_since_last_block_unfinalized'', chainLabels),
      (''tenderduty_total_monitored_endpoints'', chainLabels),
      (''tenderduty_total_unhealthy_endpoints'', chainLabels),
      (''tenderduty_endpoint_syncing_seconds_behind'', hostLabels),
      (''tenderduty_endpoint_down_seconds'', hostLabels)]"

text \<open>A series: the name of its family and the values of its labels, in the order of the family.\<close>

type_synonym series = "string \<times> string list"

type_synonym gauges = "series \<Rightarrow> float64 option"

record prom_lib =
  canRegister :: "family list \<Rightarrow> family \<Rightarrow> bool"
  gaugeWith :: "family \<Rightarrow> (string, string) gmap \<Rightarrow> series option"

definition prom_ok :: "prom_lib \<Rightarrow> bool" where
  "prom_ok lib \<longleftrightarrow>
     (\<forall>registry f. fst f \<notin> set (map fst registry) \<longrightarrow> canRegister lib registry f) \<and>
     (\<forall>f lbls. m_wf lbls \<and> distinct (snd f) \<and> set (m_keys lbls) = set (snd f) \<and> list_all (\<lambda>e. validString (snd e)) (m_entries lbls) \<longrightarrow>
        gaugeWith lib f lbls = Some (fst f, map (m_get '''' lbls) (snd f)))"

fun register :: "prom_lib \<Rightarrow> family list \<Rightarrow> family list \<Rightarrow> family list option" where
  "register lib registry [] = Some registry"
| "register lib registry (f # fs) = (if canRegister lib registry f then register lib (registry @ [f]) fs else None)"

text \<open>The map from metric types to families.\<close>

type_synonym metrics = "(metricType, family) gmap"

definition exporterMetrics :: metrics where
  "exporterMetrics = Map
     [(metricSigned, (''tenderduty_signed_blocks'', chainLabels)),
      (metricProposed, (''tenderduty_proposed_blocks'', chainLabels)),
      (metricMissed, (''tenderduty_missed_blocks'', chainLabels)),
      (metricPrevote, (''tenderduty_missed_blocks_prevote_present'', chainLabels)),
      (metricPrecommit, (''tenderduty_missed_blocks_precommit_present'', chainLabels)),
      (metricConsecutive, (''tenderduty_consecutive_missed_blocks'', chainLabels)),
      (metricWindowMissed, (''tenderduty_missed_blocks_for_window'', chainLabels)),
      (metricWindowSize, (''tenderduty_missed_block_window'', chainLabels)),
      (metricLastBlockSeconds, (''tenderduty_time_since_last_block'', chainLabels)),
      (metricLastBlockSecondsNotFinal, (''tenderduty_time_since_last_block_unfinalized'', chainLabels)),
      (metricTotalNodes, (''tenderduty_total_monitored_endpoints'', chainLabels)),
      (metricUnealthyNodes, (''tenderduty_total_unhealthy_endpoints'', chainLabels)),
      (metricNodeLagSeconds, (''tenderduty_endpoint_syncing_seconds_behind'', hostLabels)),
      (metricNodeDownSeconds, (''tenderduty_endpoint_down_seconds'', hostLabels))]"

section \<open>Updates\<close>

definition statLabels :: "promUpdate \<Rightarrow> (string, string) gmap" where
  "statLabels u =
     (let lbls = m_ins ''moniker'' (pu_moniker u) (m_ins ''chain_id'' (pu_chainId u) (m_ins ''name'' (pu_name u) mkmap))
      in if pu_metric u = metricNodeLagSeconds \<or> pu_metric u = metricNodeDownSeconds
         then m_ins ''endpoint'' (pu_endpoint u) lbls else lbls)"

definition setStat :: "prom_lib \<Rightarrow> metrics \<Rightarrow> promUpdate \<Rightarrow> gauges \<Rightarrow> gauges option" where
  "setStat lib m u g =
     do { f \<leftarrow> m_lookup m (pu_metric u);
          s \<leftarrow> gaugeWith lib f (statLabels u);
          Some (g(s := Some (pu_counter u))) }"

text \<open>The loop of the exporter over the updates it receives before the context is done.\<close>

fun exportAll :: "prom_lib \<Rightarrow> metrics \<Rightarrow> promUpdate list \<Rightarrow> gauges \<Rightarrow> gauges option" where
  "exportAll lib m [] g = Some g"
| "exportAll lib m (u # us) g = do { g1 \<leftarrow> setStat lib m u g; exportAll lib m us g1 }"

definition prometheusExporter :: "prom_lib \<Rightarrow> promUpdate list \<Rightarrow> gauges option" where
  "prometheusExporter lib updates =
     do { registry \<leftarrow> register lib [notificationDeliveryOutcomes] gaugeFamilies;
          exportAll lib exporterMetrics updates (\<lambda>_. None) }"

section \<open>Lemmas\<close>

text \<open>The series an update goes to.\<close>

definition hostMetric :: "metricType \<Rightarrow> bool" where
  "hostMetric t \<longleftrightarrow> t = metricNodeLagSeconds \<or> t = metricNodeDownSeconds"

definition familyName :: "metricType \<Rightarrow> string" where
  "familyName t = fst (the (m_lookup exporterMetrics t))"

definition seriesOf :: "promUpdate \<Rightarrow> series" where
  "seriesOf u = (familyName (pu_metric u),
     [pu_name u, pu_chainId u, pu_moniker u] @ (if hostMetric (pu_metric u) then [pu_endpoint u] else []))"

lemma family_of: "m_lookup exporterMetrics t = Some (familyName t, if hostMetric t then hostLabels else chainLabels)"
  by (cases t) (simp_all add: familyName_def exporterMetrics_def m_lookup_def hostMetric_def)

lemma familyName_distinct: "familyName t = familyName t' \<longleftrightarrow> t = t'"
proof -
  have "distinct (map (\<lambda>e. fst (snd e)) (m_entries exporterMetrics))" unfolding exporterMetrics_def by code_simp
  moreover have "(t, familyName t, if hostMetric t then hostLabels else chainLabels) \<in> set (m_entries exporterMetrics)" for t
    using family_of [of t] by (simp add: m_lookup_def map_of_SomeD)
  ultimately show ?thesis unfolding distinct_map inj_on_def by (metis fst_conv snd_conv)
qed

definition labels_valid :: "promUpdate \<Rightarrow> bool" where
  "labels_valid u \<longleftrightarrow> validString (pu_name u) \<and> validString (pu_chainId u) \<and> validString (pu_moniker u) \<and> validString (pu_endpoint u)"

lemma setStat_total:
  assumes "prom_ok lib" and "labels_valid u"
  shows "setStat lib exporterMetrics u g = Some (g(seriesOf u := Some (pu_counter u)))"
proof -
  let ?f = "(familyName (pu_metric u), if hostMetric (pu_metric u) then hostLabels else chainLabels)"
  have "m_wf (statLabels u) \<and> distinct (snd ?f) \<and> set (m_keys (statLabels u)) = set (snd ?f) \<and>
      list_all (\<lambda>e. validString (snd e)) (m_entries (statLabels u))"
    using assms(2) by (auto simp: statLabels_def hostMetric_def chainLabels_def hostLabels_def m_wf_def m_keys_def labels_valid_def)
  then have "gaugeWith lib ?f (statLabels u) = Some (fst ?f, map (m_get '''' (statLabels u)) (snd ?f))"
    using assms(1) unfolding prom_ok_def by blast
  also have "\<dots> = Some (seriesOf u)"
    by (simp add: statLabels_def seriesOf_def hostMetric_def chainLabels_def hostLabels_def m_get_def m_lookup_def)
  finally show ?thesis by (simp add: setStat_def family_of)
qed

lemma exportAll_total:
  assumes "prom_ok lib" and "list_all labels_valid us"
  shows "exportAll lib exporterMetrics us g =
    Some (\<lambda>s. case filter (\<lambda>u. seriesOf u = s) us of [] \<Rightarrow> g s | us' \<Rightarrow> Some (pu_counter (last us')))"
  using assms(2)
proof (induction us arbitrary: g)
  case (Cons u us)
  have "(case filter (\<lambda>u. seriesOf u = s) us of [] \<Rightarrow> (g(seriesOf u := Some (pu_counter u))) s | us' \<Rightarrow> Some (pu_counter (last us'))) =
      (case filter (\<lambda>u. seriesOf u = s) (u # us) of [] \<Rightarrow> g s | us' \<Rightarrow> Some (pu_counter (last us')))" for s
    by (cases "filter (\<lambda>u. seriesOf u = s) us") auto
  moreover have "labels_valid u" and "list_all labels_valid us" using Cons.prems by simp_all
  ultimately show ?case by (simp only: exportAll.simps setStat_total [OF assms(1)] Option.bind.simps Cons.IH)
qed simp

lemma registers:
  assumes "prom_ok lib"
  shows "\<exists>registry. register lib [notificationDeliveryOutcomes] gaugeFamilies = Some registry"
proof -
  have fresh: "distinct (map fst (reg @ fs)) \<Longrightarrow> register lib reg fs = Some (reg @ fs)" for reg fs
    using assms by (induction lib reg fs rule: register.induct) (auto simp: prom_ok_def)
  have "distinct (map fst ([notificationDeliveryOutcomes] @ gaugeFamilies))"
    unfolding notificationDeliveryOutcomes_def gaugeFamilies_def by code_simp
  then show ?thesis using fresh by blast
qed

section \<open>Properties\<close>


definition sample_prom :: prom_lib where
  "sample_prom = \<lparr>canRegister = (\<lambda>registry f. fst f \<notin> set (map fst registry)),
     gaugeWith = (\<lambda>f lbls. if set (m_keys lbls) = set (snd f) then Some (fst f, map (m_get '''' lbls) (snd f)) else None)\<rparr>"

definition sample_update :: "int \<Rightarrow> promUpdate" where
  "sample_update v = \<lparr>pu_metric = metricNodeDownSeconds, pu_counter = of_int v, pu_name = ''Osmosis'', pu_chainId = ''osmosis-1'',
     pu_moniker = ''val'', pu_endpoint = ''tcp://a''\<rparr>"


end
