(* ===== verification/Dashboard.thy ===== *)
theory Dashboard
  imports ChainState Runes "HOL-Library.Char_ord" "HOL-Library.List_Lexorder"
begin

text \<open>
  The dashboard: the loop and the handlers of \<open>src/seer/dashboard/server.go\<close> and the log loop of
  \<open>src/seer/init.go\<close>.

  \<^item> \<open>dashStep\<close> is one turn of the loop of \<open>Serve\<close>: a tick, a chain status or a log line. What it broadcasts is
    appended to \<open>sent\<close>. The JSON encodings are a parameter (\<open>dash_json\<close>; \<open>None\<close> is an error).
  \<^item> \<open>ReplaceAllString\<close> is the redaction expression, matched leftmost and greedy over the runes of the text.
  \<^item> \<open>respond\<close> is the multiplexer; the file server behind it and the upgrade of a websocket are not modelled.

  Shown: \<open>/state\<close> shows the last status of every chain in the order of the names, \<open>/logs\<close> the newest 256 lines;
  with hidden logs no log line leaves and no address that the expression is meant to catch is left in an error.
\<close>

record LogMessage =
  lm_MsgType :: string
  lm_Ts :: int
  lm_Msg :: string

section \<open>Redaction\<close>

definition isWordChar :: "char \<Rightarrow> bool" where
  "isWordChar c \<longleftrightarrow> (let n = byteOf c in
     48 \<le> n \<and> n \<le> 57 \<or> 65 \<le> n \<and> n \<le> 90 \<or> n = 95 \<or> 97 \<le> n \<and> n \<le> 122)"

definition lineFeed :: char where "lineFeed = CHR 0x0A"

text \<open>\<open>(https?|tcp|wss?)://\<close>: the rest of the text after it.\<close>

definition urlSchemes :: "string list" where
  "urlSchemes = [''https://'', ''http://'', ''tcp://'', ''wss://'', ''ws://'']"

fun afterAny :: "string list \<Rightarrow> string \<Rightarrow> string option" where
  "afterAny [] s = None"
| "afterAny (p # ps) s = (if HasPrefix s p then Some (drop (length p) s) else afterAny ps s)"

text \<open>\<open>.+\w\<close>: the length of its longest match, if there is one.\<close>

fun greedyBody :: "string \<Rightarrow> nat \<Rightarrow> nat option" where
  "greedyBody [] n = None"
| "greedyBody (c # s) n =
     (if c = lineFeed then None
      else case greedyBody s (Suc n) of
             Some k \<Rightarrow> Some k
           | None \<Rightarrow> if isWordChar c \<and> 0 < n then Some (Suc n) else None)"

text \<open>The length of the match that starts where the text does.\<close>

definition matchHere :: "string \<Rightarrow> nat option" where
  "matchHere s =
     (if s = [] \<or> isWordChar (hd s) then None
      else case afterAny urlSchemes (drop (runeWidth s) s) of
             None \<Rightarrow> None
           | Some rest \<Rightarrow> map_option (\<lambda>k. length s - length rest + k) (greedyBody rest 0))"

function MatchString :: "string \<Rightarrow> bool" where
  "MatchString [] = False"
| "MatchString (c # s) = (matchHere (c # s) \<noteq> None \<or> MatchString (drop (runeWidth (c # s)) (c # s)))"
  by pat_completeness auto
termination by (relation "measure length") (auto simp del: runeWidth.simps)

lemma greedyBody_gt: "greedyBody s n = Some k \<Longrightarrow> n < k"
  by (induction s n arbitrary: k rule: greedyBody.induct) (fastforce split: if_splits option.splits)+

lemma matchHere_pos: "matchHere s = Some n \<Longrightarrow> 0 < n"
  by (auto simp: matchHere_def dest: greedyBody_gt split: if_splits option.splits)

function ReplaceAllString :: "string \<Rightarrow> string \<Rightarrow> string" where
  "ReplaceAllString [] r = []"
| "ReplaceAllString (c # s) r =
     (case matchHere (c # s) of
        Some n \<Rightarrow> r @ ReplaceAllString (drop n (c # s)) r
      | None \<Rightarrow> take (runeWidth (c # s)) (c # s) @ ReplaceAllString (drop (runeWidth (c # s)) (c # s)) r)"
  by pat_completeness auto
termination by (relation "measure (length \<circ> fst)") (auto simp del: runeWidth.simps dest: matchHere_pos)

section \<open>The loop\<close>

definition logLength :: nat where "logLength = 256"

record dash_json =
  marshalUpdate :: "ChainStatus list \<Rightarrow> string option"
  marshalLogs :: "LogMessage list \<Rightarrow> string option"
  marshalLog :: "LogMessage \<Rightarrow> string option"

record dash =
  logCache :: string
  statusCache :: string
  status :: "(string, ChainStatus) gmap"
  logSlice :: "LogMessage list"
  pendingUpdate :: bool
  sent :: "string list"

definition dashInit :: dash where
  "dashInit = \<lparr>logCache = ''[]'', statusCache = ''{}'', status = mkmap, logSlice = [], pendingUpdate = False, sent = []\<rparr>"

datatype dash_event = DashTick | DashUpdate ChainStatus | DashLog LogMessage

definition redactUpdate :: "bool \<Rightarrow> ChainStatus \<Rightarrow> ChainStatus" where
  "redactUpdate hideLogs u =
     (if hideLogs \<and> MatchString (cs_LastError u)
      then u\<lparr>cs_LastError := ReplaceAllString (cs_LastError u) '' -redacted-''\<rparr> else u)"

definition onTick :: "dash \<Rightarrow> dash" where
  "onTick d = (if pendingUpdate d then d\<lparr>sent := sent d @ [statusCache d], pendingUpdate := False\<rparr> else d)"

definition onUpdate :: "dash_json \<Rightarrow> bool \<Rightarrow> ChainStatus \<Rightarrow> dash \<Rightarrow> dash" where
  "onUpdate J hideLogs u0 d =
     (let u = redactUpdate hideLogs u0;
          st = m_ins (cs_Name u) u (status d);
          result = sort_key cs_Name (map snd (m_entries st));
          d1 = d\<lparr>status := st\<rparr>
      in case marshalUpdate J result of
           None \<Rightarrow> d1
         | Some j \<Rightarrow> d1\<lparr>statusCache := j, pendingUpdate := True\<rparr>)"

definition pushLog :: "LogMessage \<Rightarrow> LogMessage list \<Rightarrow> LogMessage list" where
  "pushLog l ls = (if logLength \<le> length ls then l # take (length ls - 1) ls else l # ls)"

definition onLog :: "dash_json \<Rightarrow> bool \<Rightarrow> LogMessage \<Rightarrow> dash \<Rightarrow> dash" where
  "onLog J hideLogs l d =
     (if hideLogs then d
      else let d1 = d\<lparr>logSlice := pushLog l (logSlice d)\<rparr> in
           case marshalLogs J (logSlice d1) of
             None \<Rightarrow> d1
           | Some j \<Rightarrow> (let d2 = d1\<lparr>logCache := j\<rparr> in
               case marshalLog J l of None \<Rightarrow> d2 | Some j' \<Rightarrow> d2\<lparr>sent := sent d2 @ [j']\<rparr>))"

fun dashStep :: "dash_json \<Rightarrow> bool \<Rightarrow> dash_event \<Rightarrow> dash \<Rightarrow> dash" where
  "dashStep J hideLogs DashTick d = onTick d"
| "dashStep J hideLogs (DashUpdate u) d = onUpdate J hideLogs u d"
| "dashStep J hideLogs (DashLog l) d = onLog J hideLogs l d"

definition dashRun :: "dash_json \<Rightarrow> bool \<Rightarrow> dash_event list \<Rightarrow> dash" where
  "dashRun J hideLogs es = fold (dashStep J hideLogs) es dashInit"

section \<open>Handlers\<close>

type_synonym headers = "(string, string) gmap"

definition setSecurityHeaders :: "headers \<Rightarrow> headers" where
  "setSecurityHeaders h =
     m_ins ''X-Content-Type-Options'' ''nosniff''
     (m_ins ''X-Application-Name'' ''NosNode Seer''
     (m_ins ''Referrer-Policy'' ''no-referrer''
     (m_ins ''Permissions-Policy'' ''camera=(), geolocation=(), microphone=()''
     (m_ins ''Content-Security-Policy''
        (''default-src 'self'; connect-src 'self' ws: wss:; img-src 'self' data:; style-src 'self'; script-src 'self'; object-src 'none'; base-uri 'none'; frame-ancestors 'none'' @ [CHR 0x27]) h))))"

definition jsonReply :: "string \<Rightarrow> headers \<times> string" where
  "jsonReply body = (m_ins ''Content-Type'' ''application/json'' (setSecurityHeaders mkmap), body)"

text \<open>The headers under which \<open>CacheHandler\<close> lets the file server answer.\<close>

definition cacheHandler :: headers where
  "cacheHandler = setSecurityHeaders (m_ins ''Cache-Control'' ''public, max-age=3600'' mkmap)"

datatype route = Upgrade | Reply "headers \<times> string" | FileServer headers

definition respond :: "bool \<Rightarrow> dash \<Rightarrow> string \<Rightarrow> route" where
  "respond hideLogs d path =
     (if path = ''/ws'' then Upgrade
      else if path = ''/logsenabled'' then Reply (jsonReply (if hideLogs then ''{\"enabled\":false}'' else ''{\"enabled\":true}''))
      else if path = ''/logs'' then Reply (jsonReply (logCache d))
      else if path = ''/state'' then Reply (jsonReply (statusCache d))
      else FileServer cacheHandler)"

text \<open>The URL parser (scheme and host) and \<open>strings.EqualFold\<close> are arguments.\<close>

definition checkWebsocketOrigin ::
  "(string \<Rightarrow> (string \<times> string) option) \<Rightarrow> (string \<Rightarrow> string \<Rightarrow> bool) \<Rightarrow> string \<Rightarrow> string \<Rightarrow> bool" where
  "checkWebsocketOrigin parse equalFold origin host =
     (if origin = '''' then True
      else case parse origin of
             None \<Rightarrow> False
           | Some (scheme, originHost) \<Rightarrow>
               if scheme \<noteq> ''http'' \<and> scheme \<noteq> ''https'' then False else equalFold originHost host)"

section \<open>The log loop\<close>

text \<open>A message arrives as \<open>fmt.Sprint\<close> prints it: a slice in brackets.\<close>

definition trimBrackets :: "string \<Rightarrow> string" where
  "trimBrackets s = rev (dropWhile (\<lambda>c. c = CHR '']'') (rev (dropWhile (\<lambda>c. c = CHR ''['') s)))"

definition logLoop :: "bool \<Rightarrow> bool \<Rightarrow> bool \<Rightarrow> int \<Rightarrow> string \<Rightarrow> LogMessage list" where
  "logLoop enableDash hideLogs logChanOpen now text =
     (let msg = trimBrackets text in
      if enableDash \<and> \<not> hideLogs \<and> logChanOpen
      then [\<lparr>lm_MsgType = ''log'', lm_Ts = now, lm_Msg = msg\<rparr>] else [])"

section \<open>What the redaction leaves\<close>

text \<open>The matches seen byte by byte: a byte that is no word character, a scheme, and on the same line a word character after at least
  one byte more.\<close>

definition hit :: "string \<Rightarrow> bool" where
  "hit s \<longleftrightarrow> s \<noteq> [] \<and> \<not> isWordChar (hd s) \<and>
     (case afterAny urlSchemes (tl s) of None \<Rightarrow> False | Some rest \<Rightarrow> greedyBody rest 0 \<noteq> None)"

fun leaks :: "string \<Rightarrow> bool" where
  "leaks [] = False"
| "leaks (c # s) = (hit (c # s) \<or> leaks s)"

lemma leaks_iff: "leaks s \<longleftrightarrow> (\<exists>i<length s. hit (drop i s))"
proof (induction s)
  case (Cons c s)
  have "(\<exists>i<length (c # s). hit (drop i (c # s))) \<longleftrightarrow> hit (c # s) \<or> (\<exists>i<length s. hit (drop i s))"
    by (auto simp: less_Suc_eq_0_disj)
  then show ?case using Cons by simp
qed simp

lemma afterAny_Some: "afterAny ps s = Some rest \<Longrightarrow> \<exists>p\<in>set ps. s = p @ rest"
  by (induction ps) (auto simp: HasPrefix_def split: if_splits intro: append_take_drop_id [symmetric], metis append_take_drop_id)

lemma scheme_facts: "p \<in> set urlSchemes \<Longrightarrow> p \<noteq> [] \<and> isWordChar (hd p) \<and> CHR '' '' \<notin> set p"
  by (auto simp: urlSchemes_def isWordChar_def)

lemma afterAny_scheme: "p \<in> set urlSchemes \<Longrightarrow> afterAny urlSchemes (p @ s) = Some s"
  by (auto simp: urlSchemes_def HasPrefix_def)

lemma afterAny_word: "afterAny urlSchemes s = Some rest \<Longrightarrow> s \<noteq> [] \<and> isWordChar (hd s)"
  using afterAny_Some scheme_facts by fastforce

lemma word_ascii: "isWordChar c \<Longrightarrow> byteOf c < 128"
  by (auto simp: isWordChar_def Let_def)

lemma rune_bytes:
  assumes "1 < runeWidth s" "i < runeWidth s"
  shows "128 \<le> byteOf (s ! i)"
proof (cases s rule: runeWidth.cases)
  case (3 c d t)
  let ?w = "announcedWidth c"
  have w: "runeWidth s = ?w" "1 < ?w" "?w \<le> length t + 2" "secondByte c d" "list_all continuation (take (?w - 2) t)"
    using assms(1) unfolding 3 by (auto simp: Let_def split: if_splits)
  have first: "128 \<le> byteOf c" using w(2) by (auto simp: announcedWidth_def Let_def split: if_splits)
  have second: "128 \<le> byteOf d" using w(4) by (auto simp: secondByte_def split: if_splits)
  have others: "128 \<le> byteOf (t ! j)" if "j < ?w - 2" for j
    using w(3,5) that by (auto simp: list_all_length continuation_def)
  consider "i = 0" | "i = 1" | j where "i = Suc (Suc j)" by (cases i; cases "i - 1") auto
  then show ?thesis using first second others [of "i - 2"] assms(2) w(1) unfolding 3 by cases auto
qed (use assms in auto)

lemma hit_inside_rune: "Suc i < runeWidth s \<Longrightarrow> \<not> hit (drop i s)"
proof
  assume i: "Suc i < runeWidth s" and h: "hit (drop i s)"
  then have len: "Suc i < length s" using runeWidth_le [of s] by simp
  obtain rest where "afterAny urlSchemes (drop (Suc i) s) = Some rest"
    using h by (auto simp: hit_def drop_Suc tl_drop split: option.splits)
  then have "byteOf (s ! Suc i) < 128" using afterAny_word word_ascii hd_drop_conv_nth [OF len] by metis
  then show False using rune_bytes [of s "Suc i"] i by simp
qed

lemma hit_rune:
  assumes "s \<noteq> []"
  shows "hit (drop (runeWidth s - 1) s) \<longleftrightarrow> matchHere s \<noteq> None"
proof -
  let ?w = "runeWidth s"
  have w: "0 < ?w" "?w \<le> length s" using assms runeWidth_le by auto
  have tl: "tl (drop (?w - 1) s) = drop ?w s" using w by (simp add: tl_drop flip: drop_Suc)
  have head: "hd (drop (?w - 1) s) = s ! (?w - 1)" using w by (intro hd_drop_conv_nth) simp
  have "isWordChar (s ! (?w - 1)) \<longleftrightarrow> isWordChar (hd s)"
  proof (cases "?w = 1")
    case False
    then have "128 \<le> byteOf (s ! (?w - 1))" "128 \<le> byteOf (s ! 0)" using rune_bytes [of s] w by simp_all
    then show ?thesis using word_ascii assms by (metis hd_conv_nth not_less)
  qed (use assms in \<open>simp add: hd_conv_nth\<close>)
  moreover have "drop (?w - 1) s \<noteq> []" using w by auto
  ultimately show ?thesis using assms unfolding hit_def tl head by (auto simp: matchHere_def split: option.splits)
qed

lemma leaks_rune:
  assumes "s \<noteq> []"
  shows "leaks s \<longleftrightarrow> matchHere s \<noteq> None \<or> leaks (drop (runeWidth s) s)"
proof -
  let ?w = "runeWidth s"
  have w: "0 < ?w" "?w \<le> length s" using assms runeWidth_le by auto
  have "(\<exists>i<length s. hit (drop i s)) \<longleftrightarrow> (\<exists>i<?w. hit (drop i s)) \<or> (\<exists>i<length s - ?w. hit (drop (i + ?w) s))"
  proof (intro iffI; elim exE disjE conjE)
    fix i assume i: "i < length s" "hit (drop i s)"
    show "(\<exists>i<?w. hit (drop i s)) \<or> (\<exists>i<length s - ?w. hit (drop (i + ?w) s))"
    proof (cases "i < ?w")
      case False
      then have "i - ?w < length s - ?w" "i - ?w + ?w = i" using i(1) by simp_all
      then show ?thesis using i(2) by (metis (no_types))
    qed (use i in blast)
  next
    fix i assume "i < ?w" "hit (drop i s)"
    then show "\<exists>i<length s. hit (drop i s)" using w(2) by (intro exI [of _ i]) simp
  next
    fix i assume "i < length s - ?w" "hit (drop (i + ?w) s)"
    then show "\<exists>i<length s. hit (drop i s)" by (intro exI [of _ "i + ?w"]) simp
  qed
  moreover have "(\<exists>i<?w. hit (drop i s)) \<longleftrightarrow> hit (drop (?w - 1) s)"
  proof
    assume "\<exists>i<?w. hit (drop i s)"
    then obtain i where i: "i < ?w" "hit (drop i s)" by blast
    then have "\<not> Suc i < ?w" using hit_inside_rune by blast
    then have "i = ?w - 1" using i(1) by simp
    then show "hit (drop (?w - 1) s)" using i(2) by simp
  next
    assume "hit (drop (?w - 1) s)"
    then show "\<exists>i<?w. hit (drop i s)" using w(1) by (intro exI [of _ "?w - 1"]) simp
  qed
  ultimately show ?thesis using hit_rune [OF assms] by (simp add: leaks_iff add.commute)
qed

lemma MatchString_leaks: "MatchString s \<longleftrightarrow> leaks s"
  by (induction s rule: MatchString.induct) (simp_all add: leaks_rune del: leaks.simps(2) runeWidth.simps)

text \<open>An address at the start of a text, behind a byte that is no word character, whatever follows it; a text that shows one; and a text in which every such
  address names something on its line.\<close>

definition addressHere :: "string \<Rightarrow> bool" where
  "addressHere s \<longleftrightarrow> s \<noteq> [] \<and> \<not> isWordChar (hd s) \<and> afterAny urlSchemes (tl s) \<noteq> None"

fun showsAddress :: "string \<Rightarrow> bool" where
  "showsAddress [] = False"
| "showsAddress (c # s) = (addressHere (c # s) \<or> showsAddress s)"

fun addressesNamed :: "string \<Rightarrow> bool" where
  "addressesNamed [] = True"
| "addressesNamed (c # s) = ((addressHere (c # s) \<longrightarrow> hit (c # s)) \<and> addressesNamed s)"

lemma showsAddress_append: "showsAddress (u @ v) \<longleftrightarrow> (\<exists>i<length u. addressHere (drop i (u @ v))) \<or> showsAddress v"
proof (induction u)
  case (Cons c u)
  then show ?case by (auto simp: less_Suc_eq_0_disj)
qed simp

lemma addressesNamed_drop: "addressesNamed s \<Longrightarrow> addressesNamed (drop n s)"
proof (induction s arbitrary: n)
  case (Cons c s)
  then show ?case by (cases n) auto
qed simp

lemma addressesNamed_at: "addressesNamed s \<Longrightarrow> addressHere (drop n s) \<Longrightarrow> hit (drop n s)"
  using addressesNamed_drop [of s n] by (cases "drop n s") (auto simp: addressHere_def)

lemma named_no_leak: "addressesNamed s \<Longrightarrow> \<not> leaks s \<Longrightarrow> \<not> showsAddress s"
  by (induction s) auto

text \<open>A match reaches to the last word character of its line.\<close>

lemma greedyBody_end: "greedyBody s n = Some k \<Longrightarrow> n < k \<and> k - n \<le> length s \<and> (drop (k - n) s = [] \<or> \<not> isWordChar (hd (drop (k - n) s)))"
proof (induction s arbitrary: n)
  case (Cons c s)
  show ?case
  proof (cases "greedyBody s (Suc n)")
    case None
    then have k: "k = Suc n" using Cons.prems by (auto split: if_splits)
    have "s = [] \<or> \<not> isWordChar (hd s)" using None by (cases s) (auto split: if_splits option.splits simp: isWordChar_def lineFeed_def)
    then show ?thesis using k by simp
  next
    case (Some k')
    then have "n < k" "Suc n < k" "k - Suc n \<le> length s" "drop (k - Suc n) s = [] \<or> \<not> isWordChar (hd (drop (k - Suc n) s))"
      using Cons.prems Cons.IH [of "Suc n"] by (auto split: if_splits)
    moreover have "k - n = Suc (k - Suc n)" using calculation(1) by simp
    ultimately show ?thesis by simp
  qed
qed simp

lemma match_end:
  assumes "matchHere s = Some n"
  shows "drop n s = [] \<or> \<not> isWordChar (hd (drop n s))"
proof -
  obtain rest k where rest: "afterAny urlSchemes (drop (runeWidth s) s) = Some rest" "greedyBody rest 0 = Some k"
      "n = length s - length rest + k"
    using assms by (auto simp: matchHere_def split: if_splits option.splits)
  obtain p where p: "drop (runeWidth s) s = p @ rest" using afterAny_Some [OF rest(1)] by blast
  define q where "q = take (runeWidth s) s @ p"
  have "s = q @ rest" using p append_take_drop_id [of "runeWidth s" s] by (simp add: q_def)
  then have "drop n s = drop k rest" using rest(3) by simp
  then show ?thesis using greedyBody_end [OF rest(2)] by simp
qed

text \<open>What the redacted text starts with, up to a space, the text started with.\<close>

definition redacted :: string where "redacted = '' -redacted-''"

lemma redacted_prefix:
  "HasPrefix (ReplaceAllString s redacted) p \<Longrightarrow> CHR '' '' \<notin> set p \<Longrightarrow> HasPrefix s p"
proof (induction s redacted arbitrary: p rule: ReplaceAllString.induct)
  case (2 c s)
  let ?s = "c # s" and ?w = "runeWidth (c # s)"
  show ?case
  proof (cases "matchHere ?s")
    case (Some n)
    then have "p = []" using "2.prems" by (cases p) (auto simp: HasPrefix_iff redacted_def)
    then show ?thesis by (simp add: HasPrefix_def)
  next
    case None
    let ?out = "ReplaceAllString (drop ?w ?s) redacted"
    obtain t where t: "take ?w ?s @ ?out = p @ t" using "2.prems"(1) None by (auto simp: HasPrefix_iff simp del: runeWidth.simps)
    show ?thesis
    proof (cases "length p \<le> length (take ?w ?s)")
      case True
      then have "p = take (length p) (take ?w ?s)" using t by (metis append_eq_append_conv_if)
      then have "?s = p @ drop (length p) (take ?w ?s) @ drop ?w ?s" by (metis append.assoc append_take_drop_id)
      then show ?thesis by (metis HasPrefix_append)
    next
      case False
      then have "take ?w ?s = take (length (take ?w ?s)) p \<and> ?out = drop (length (take ?w ?s)) p @ t"
        using t unfolding append_eq_append_conv_if by (metis nat_le_linear)
      then obtain p' where p': "p = take ?w ?s @ p'" "HasPrefix ?out p'"
        by (metis HasPrefix_append append_take_drop_id)
      then have "HasPrefix (drop ?w ?s) p'" using "2.hyps"(1) [OF None, of p'] "2.prems"(2) by simp
      then obtain t' where "drop ?w ?s = p' @ t'" by (auto simp: HasPrefix_iff)
      then show ?thesis using p'(1) by (metis HasPrefix_append append.assoc append_take_drop_id)
    qed
  qed
qed simp

lemma afterAny_HasPrefix: "afterAny ps s \<noteq> None \<longleftrightarrow> (\<exists>p\<in>set ps. HasPrefix s p)"
  by (induction ps) auto

lemma redacted_scheme: "afterAny urlSchemes (ReplaceAllString s redacted) \<noteq> None \<Longrightarrow> afterAny urlSchemes s \<noteq> None"
  unfolding afterAny_HasPrefix using redacted_prefix scheme_facts by blast

lemma redacted_clean: "i < length redacted \<Longrightarrow> afterAny urlSchemes t = None \<Longrightarrow> \<not> addressHere (drop i (redacted @ t))"
proof -
  assume i: "i < length redacted" and t: "afterAny urlSchemes t = None"
  then have "i < 11" by (simp add: redacted_def)
  then have "i = 0 \<or> i = 1 \<or> i = 2 \<or> i = 3 \<or> i = 4 \<or> i = 5 \<or> i = 6 \<or> i = 7 \<or> i = 8 \<or> i = 9 \<or> i = 10" by presburger
  then show ?thesis using t
    by (elim disjE) (simp_all add: redacted_def addressHere_def, simp_all add: urlSchemes_def HasPrefix_def)
qed

lemma drop_last:
  assumes "0 < w" "w \<le> length s"
  shows "drop (w - 1) (take w s @ out) = s ! (w - 1) # out" "drop (w - 1) s = s ! (w - 1) # drop w s"
proof -
  show "drop (w - 1) s = s ! (w - 1) # drop w s" using assms Cons_nth_drop_Suc [of "w - 1" s] by simp
  have "drop (w - 1) (take w s) = [s ! (w - 1)]" using assms Cons_nth_drop_Suc [of "w - 1" "take w s"] by simp
  then show "drop (w - 1) (take w s @ out) = s ! (w - 1) # out" using assms by simp
qed

lemma redaction_complete: "addressesNamed s \<Longrightarrow> \<not> showsAddress (ReplaceAllString s redacted)"
proof (induction s redacted rule: ReplaceAllString.induct)
  case (2 c s)
  let ?s = "c # s" and ?w = "runeWidth (c # s)"
  show ?case
  proof (cases "matchHere ?s")
    case (Some n)
    let ?out = "ReplaceAllString (drop n ?s) redacted"
    have "afterAny urlSchemes (drop n ?s) = None" using match_end [OF Some] afterAny_word [of "drop n ?s"] by fastforce
    then have "afterAny urlSchemes ?out = None" using redacted_scheme by blast
    moreover have "\<not> showsAddress ?out" using "2.hyps"(2) [OF Some] addressesNamed_drop [OF "2.prems"] by simp
    ultimately show ?thesis using Some redacted_clean by (auto simp: showsAddress_append)
  next
    case None
    let ?out = "ReplaceAllString (drop ?w ?s) redacted"
    have w: "0 < ?w" "?w \<le> length ?s" using runeWidth_le [of ?s] by (simp_all del: runeWidth.simps)
    have "\<not> addressHere (drop i (take ?w ?s @ ?out))" if i: "i < ?w" for i
    proof
      assume a: "addressHere (drop i (take ?w ?s @ ?out))"
      show False
      proof (cases "Suc i < ?w")
        case True
        have "tl (drop i xs) = drop (Suc i) xs" for xs :: string by (simp add: drop_Suc tl_drop)
        then have "tl (drop i (take ?w ?s @ ?out)) = drop (Suc i) (take ?w ?s @ ?out)" by blast
        moreover have "hd (drop (Suc i) (take ?w ?s @ ?out)) = ?s ! Suc i"
          using True w(2) by (subst hd_drop_conv_nth) (simp_all add: nth_append del: runeWidth.simps)
        ultimately have "byteOf (?s ! Suc i) < 128" using a afterAny_word word_ascii by (metis addressHere_def not_None_eq)
        then show False using rune_bytes [of ?s "Suc i"] True by simp
      next
        case False
        then have iw: "i = ?w - 1" using i by simp
        have out: "afterAny urlSchemes ?out \<noteq> None" "\<not> isWordChar (?s ! i)"
          using a unfolding iw drop_last(1) [OF w] by (simp_all add: addressHere_def)
        from redacted_scheme [OF out(1)] out(2) have "addressHere (drop i ?s)"
          unfolding iw drop_last(2) [OF w] by (simp add: addressHere_def)
        then have "hit (drop i ?s)" using addressesNamed_at [OF "2.prems"] by blast
        then show False using hit_rune [of ?s] None iw by simp
      qed
    qed
    moreover have "\<not> showsAddress ?out" using "2.hyps"(1) [OF None] addressesNamed_drop [OF "2.prems"] by blast
    ultimately show ?thesis using None w by (simp add: showsAddress_append del: runeWidth.simps)
  qed
qed simp

section \<open>What the dashboard shows\<close>

definition updatesIn :: "dash_event list \<Rightarrow> ChainStatus list" where
  "updatesIn es = concat (map (\<lambda>e. case e of DashUpdate u \<Rightarrow> [u] | _ \<Rightarrow> []) es)"

definition logsIn :: "dash_event list \<Rightarrow> LogMessage list" where
  "logsIn es = concat (map (\<lambda>e. case e of DashLog l \<Rightarrow> [l] | _ \<Rightarrow> []) es)"

text \<open>The statuses and log lines hold only values that JSON can encode.\<close>

definition json_ok :: "dash_json \<Rightarrow> bool" where
  "json_ok J \<longleftrightarrow> (\<forall>us. marshalUpdate J us \<noteq> None) \<and> (\<forall>ls. marshalLogs J ls \<noteq> None) \<and> (\<forall>l. marshalLog J l \<noteq> None)"

text \<open>The last status of a chain.\<close>

definition lastStatus :: "string \<Rightarrow> ChainStatus list \<Rightarrow> ChainStatus option" where
  "lastStatus n us = (let vs = filter (\<lambda>u. cs_Name u = n) us in if vs = [] then None else Some (last vs))"

lemma events_simps [simp]:
  "updatesIn [] = []" "logsIn [] = []"
  "updatesIn (es @ [DashTick]) = updatesIn es" "logsIn (es @ [DashTick]) = logsIn es"
  "updatesIn (es @ [DashUpdate u]) = updatesIn es @ [u]" "logsIn (es @ [DashUpdate u]) = logsIn es"
  "updatesIn (es @ [DashLog l]) = updatesIn es" "logsIn (es @ [DashLog l]) = logsIn es @ [l]"
  by (simp_all add: updatesIn_def logsIn_def)

lemma lastStatus_simps [simp]:
  "lastStatus n [] = None"
  "lastStatus n (us @ [u]) = (if cs_Name u = n then Some u else lastStatus n us)"
  by (auto simp: lastStatus_def)

lemma lastStatus_name: "lastStatus n us = Some u \<Longrightarrow> cs_Name u = n"
proof -
  assume "lastStatus n us = Some u"
  then have "u \<in> set (filter (\<lambda>u. cs_Name u = n) us)"
    unfolding lastStatus_def Let_def by (metis last_in_set option.distinct(1) option.inject)
  then show ?thesis by simp
qed

interpretation dashlog: recent_history pushLog "\<lambda>ls. ls" "\<lambda>_. logLength" "\<lambda>ls. length ls \<le> logLength"
  by unfold_locales (auto simp: pushLog_def logLength_def take_Cons')

lemma dashRun_simps [simp]:
  "dashRun J h [] = dashInit"
  "dashRun J h (es @ [e]) = dashStep J h e (dashRun J h es)"
  by (simp_all add: dashRun_def)

lemma redact_name [simp]: "cs_Name (redactUpdate h u) = cs_Name u"
  by (simp add: redactUpdate_def)

lemmas dash_ops = onTick_def onUpdate_def onLog_def Let_def

lemma dash_logs:
  "logSlice (dashRun J h es) = (if h then [] else take logLength (rev (logsIn es)))"
proof (induction es rule: rev_induct)
  case (snoc e es)
  have push: "pushLog l (take logLength (rev ls)) = take logLength (l # rev ls)" for l ls
    using dashlog.push_view [of "take logLength (rev ls)" l] by (simp add: take_Cons' min_def)
  show ?case using snoc push by (cases e) (auto simp: dash_ops split: option.splits)
qed (simp add: dashInit_def)

lemma dash_status:
  "m_wf (status (dashRun J h es)) \<and>
   (\<forall>n. m_lookup (status (dashRun J h es)) n = map_option (redactUpdate h) (lastStatus n (updatesIn es)))"
proof (induction es rule: rev_induct)
  case (snoc e es)
  then show ?case by (cases e) (auto simp: dash_ops gmap_simps split: option.splits)
qed (simp add: dashInit_def m_wf_def m_keys_def m_lookup_def)

text \<open>The list that \<open>/state\<close> encodes.\<close>

definition shownStatus :: "dash \<Rightarrow> ChainStatus list" where
  "shownStatus d = sort_key cs_Name (map snd (m_entries (status d)))"

lemma shown_facts:
  "sorted_wrt (<) (map cs_Name (shownStatus (dashRun J h es)))"
  "set (shownStatus (dashRun J h es)) = {redactUpdate h u | n u. lastStatus n (updatesIn es) = Some u}"
proof -
  let ?m = "status (dashRun J h es)"
  have wf: "distinct (map fst (m_entries ?m))" and look: "m_lookup ?m n = map_option (redactUpdate h) (lastStatus n (updatesIn es))" for n
    using dash_status [of J h es] by (simp_all add: m_wf_def m_keys_def)
  have entry: "(n, v) \<in> set (m_entries ?m) \<longleftrightarrow> (\<exists>u. lastStatus n (updatesIn es) = Some u \<and> v = redactUpdate h u)" for n v
    using look [of n] map_of_eq_Some_iff [OF wf, of n v] by (auto simp: m_lookup_def)
  have "cs_Name (snd e) = fst e" if "e \<in> set (m_entries ?m)" for e
    using entry [of "fst e" "snd e"] that lastStatus_name by fastforce
  then have "map cs_Name (map snd (m_entries ?m)) = map fst (m_entries ?m)" by simp
  moreover have "distinct (map cs_Name (sort_key cs_Name us)) = distinct (map cs_Name us)" for us by (simp add: distinct_map)
  ultimately have names: "distinct (map cs_Name (shownStatus (dashRun J h es)))" using wf unfolding shownStatus_def by metis
  then show "sorted_wrt (<) (map cs_Name (shownStatus (dashRun J h es)))"
    by (simp add: shownStatus_def strict_sorted_iff)
  show "set (shownStatus (dashRun J h es)) = {redactUpdate h u | n u. lastStatus n (updatesIn es) = Some u}"
    using entry by (force simp: shownStatus_def)
qed

lemma dash_caches:
  assumes "json_ok J"
  shows "logCache (dashRun J h es) = (if h \<or> logsIn es = [] then ''[]'' else the (marshalLogs J (logSlice (dashRun J h es))))"
    and "statusCache (dashRun J h es) = (if updatesIn es = [] then ''{}'' else the (marshalUpdate J (shownStatus (dashRun J h es))))"
    and "updatesIn es = [] \<or> pendingUpdate (dashRun J h es) \<or> statusCache (dashRun J h es) \<in> set (sent (dashRun J h es))"
proof (induction es rule: rev_induct)
  case (snoc e es)
  {
    case 1
    then show ?case using snoc.IH(1) assms by (cases e) (auto simp: dash_ops json_ok_def simp del: not_None_eq split: option.splits)
  next
    case 2
    then show ?case using snoc.IH(2) assms by (cases e) (auto simp: dash_ops json_ok_def shownStatus_def simp del: not_None_eq split: option.splits)
  next
    case 3
    then show ?case using snoc.IH(3) assms by (cases e) (auto simp: dash_ops json_ok_def simp del: not_None_eq split: option.splits)
  }
qed (simp_all add: dashInit_def)

text \<open>A document that shows no address.\<close>

definition privateStatus :: "dash_json \<Rightarrow> string \<Rightarrow> bool" where
  "privateStatus J j \<longleftrightarrow> (\<exists>shown. marshalUpdate J shown = Some j \<and> list_all (\<lambda>u. \<not> showsAddress (cs_LastError u)) shown)"

lemma redactUpdate_private: "addressesNamed (cs_LastError u) \<Longrightarrow> \<not> showsAddress (cs_LastError (redactUpdate True u))"
  using named_no_leak redaction_complete [unfolded redacted_def] by (simp add: redactUpdate_def MatchString_leaks)

lemma hidden_run:
  assumes "list_all (\<lambda>u. addressesNamed (cs_LastError u)) (updatesIn es)"
  shows "(statusCache (dashRun J True es) = ''{}'' \<and> \<not> pendingUpdate (dashRun J True es) \<or> privateStatus J (statusCache (dashRun J True es))) \<and>
    list_all (privateStatus J) (sent (dashRun J True es))"
  using assms
proof (induction es rule: rev_induct)
  case (snoc e es)
  show ?case
  proof (cases e)
    case (DashUpdate u)
    have "\<not> showsAddress (cs_LastError v)" if v: "v \<in> set (shownStatus (dashRun J True (es @ [e])))" for v
    proof -
      obtain n w where w: "lastStatus n (updatesIn (es @ [e])) = Some w" "v = redactUpdate True w"
        using v unfolding shown_facts(2) by blast
      have "w \<in> set (updatesIn (es @ [e]))"
        using w(1) unfolding lastStatus_def Let_def
        by (metis (no_types, lifting) filter_is_subset last_in_set option.distinct(1) option.inject subsetD)
      then show ?thesis using snoc.prems redactUpdate_private w(2) by (auto simp: list_all_iff)
    qed
    then have "marshalUpdate J (shownStatus (dashRun J True (es @ [e]))) = Some j \<Longrightarrow> privateStatus J j" for j
      by (auto simp: privateStatus_def list_all_iff)
    moreover have "shownStatus (dashRun J True (es @ [e])) =
        sort_key cs_Name (map snd (m_entries (m_ins (cs_Name (redactUpdate True u)) (redactUpdate True u) (status (dashRun J True es)))))"
      unfolding DashUpdate by (simp add: shownStatus_def dash_ops split: option.splits)
    ultimately show ?thesis using snoc unfolding DashUpdate by (auto simp: onUpdate_def Let_def split: option.splits)
  qed (use snoc in \<open>auto simp: dash_ops\<close>)
qed (simp add: dashInit_def)

text \<open>Every answer but the upgrade carries the security headers, and no path outside the API is answered from a cache.\<close>

lemma answers_hardened:
  "(case respond h d path of
      Upgrade \<Rightarrow> path = ''/ws''
    | Reply (hs, body) \<Rightarrow> path \<in> {''/logsenabled'', ''/logs'', ''/state''} \<and> m_lookup hs ''X-Content-Type-Options'' = Some ''nosniff'' \<and>
        m_has hs ''Content-Security-Policy'' \<and> m_lookup hs ''Content-Type'' = Some ''application/json''
    | FileServer hs \<Rightarrow> m_lookup hs ''X-Content-Type-Options'' = Some ''nosniff'' \<and> m_has hs ''Content-Security-Policy'')"
  by (simp add: respond_def jsonReply_def cacheHandler_def setSecurityHeaders_def gmap_simps)

section \<open>Properties\<close>

text \<open>C32: After any sequence of ticks, statuses and log lines, \<open>/logs\<close> answers with the newest 256 log lines, the newest first (or an empty list when
  logs are hidden), and \<open>/state\<close> with one status for each chain that ever reported, the last one, strictly ordered by name. The next tick
  at the latest sends this document to the subscribers.\<close>

theorem dashboard_shows_latest:
  assumes "json_ok J" and "updatesIn es \<noteq> []"
    and d: "d = dashRun J hideLogs es"
  shows "respond hideLogs d ''/logs'' =
      Reply (jsonReply (if hideLogs \<or> logsIn es = [] then ''[]'' else the (marshalLogs J (take 256 (rev (logsIn es)))))) \<and>
    (\<exists>shown. respond hideLogs d ''/state'' = Reply (jsonReply (the (marshalUpdate J shown))) \<and>
      sorted_wrt (<) (map cs_Name shown) \<and>
      set shown = {redactUpdate hideLogs u | n u. lastStatus n (updatesIn es) = Some u} \<and>
      the (marshalUpdate J shown) \<in> set (sent (dashStep J hideLogs DashTick d)))"
proof -
  have "statusCache d = the (marshalUpdate J (shownStatus d))" "statusCache d \<in> set (sent (onTick d))"
    using dash_caches(2,3) [OF assms(1), where h = hideLogs and es = es] assms(2) by (auto simp: d onTick_def)
  then have "respond hideLogs d ''/state'' = Reply (jsonReply (the (marshalUpdate J (shownStatus d)))) \<and>
      the (marshalUpdate J (shownStatus d)) \<in> set (sent (dashStep J hideLogs DashTick d))"
    by (simp add: respond_def)
  moreover have "respond hideLogs d ''/logs'' =
      Reply (jsonReply (if hideLogs \<or> logsIn es = [] then ''[]'' else the (marshalLogs J (take 256 (rev (logsIn es))))))"
    using dash_caches(1) [OF assms(1), where h = hideLogs and es = es] by (simp add: respond_def d dash_logs logLength_def)
  ultimately show ?thesis using shown_facts [where J = J and h = hideLogs and es = es] unfolding d by blast
qed

text \<open>C22: With hidden logs nothing of the log leaves the process: \<open>/logs\<close> answers with an empty list, and what \<open>/state\<close> serves and the subscribers
  receive are status documents only. In none of them is an error text with an http, https, tcp, ws or wss address behind a non-word character left,
  provided that in the texts that came in every such address was followed by something on its line that ends in a word character.\<close>

theorem hidden_logs_stay_private:
  assumes "list_all (\<lambda>u. addressesNamed (cs_LastError u)) (updatesIn es)"
    and d: "d = dashRun J True es"
  shows "logCache d = ''[]'' \<and> (statusCache d = ''{}'' \<or> privateStatus J (statusCache d)) \<and> list_all (privateStatus J) (sent d)"
proof -
  have "logCache (dashRun J True es) = ''[]''"
  proof (induction es rule: rev_induct)
    case (snoc e es)
    then show ?case by (cases e) (auto simp: dash_ops split: option.splits)
  qed (simp add: dashInit_def)
  then show ?thesis using hidden_run [OF assms(1), of J] by (auto simp: d)
qed

definition sample_json :: dash_json where
  "sample_json = \<lparr>marshalUpdate = (\<lambda>us. Some (concat (map (\<lambda>u. cs_Name u @ '':'' @ cs_LastError u @ '';'') us))),
     marshalLogs = (\<lambda>ls. Some (concat (map lm_Msg ls))), marshalLog = (\<lambda>l. Some (lm_Msg l))\<rparr>"

definition sample_status :: "string \<Rightarrow> string \<Rightarrow> ChainStatus" where
  "sample_status n e = \<lparr>cs_MsgType = ''status'', cs_Name = n, cs_ChainId = ''c'', cs_Moniker = ''m'', cs_Bonded = True, cs_Jailed = False,
     cs_Tombstoned = False, cs_Missed = 0, cs_Window = 100, cs_Nodes = 1, cs_HealthyNodes = 0, cs_ActiveAlerts = 0, cs_Height = 5,
     cs_LastError = e, cs_Blocks = []\<rparr>"

definition sample_events :: "dash_event list" where
  "sample_events = [DashUpdate (sample_status ''b'' ''''), DashLog \<lparr>lm_MsgType = ''log'', lm_Ts = 1, lm_Msg = ''hello''\<rparr>,
     DashUpdate (sample_status ''a'' ''get: https://10.0.0.1:26657/status failed''), DashTick]"

theorem dashboard_shows_latest_witness:
  "statusCache (dashRun sample_json False sample_events) = ''a:get: https://10.0.0.1:26657/status failed;b:;'' \<and>
   respond False (dashRun sample_json False sample_events) ''/logs'' = Reply (jsonReply ''hello'')"
proof -
  have "json_ok sample_json" "updatesIn sample_events \<noteq> []"
    by (simp_all add: json_ok_def sample_json_def sample_events_def updatesIn_def)
  from dashboard_shows_latest [OF this refl, of False]
  have "respond False (dashRun sample_json False sample_events) ''/logs'' = Reply (jsonReply ''hello'')"
    by (simp add: sample_events_def logsIn_def sample_json_def)
  moreover have "statusCache (dashRun sample_json False sample_events) = ''a:get: https://10.0.0.1:26657/status failed;b:;''"
    unfolding sample_events_def sample_json_def by code_simp
  ultimately show ?thesis by simp
qed

theorem hidden_logs_stay_private_witness:
  "logCache (dashRun sample_json True sample_events) = ''[]'' \<and>
   statusCache (dashRun sample_json True sample_events) = ''a:get: -redacted-;b:;'' \<and>
   list_all (privateStatus sample_json) (sent (dashRun sample_json True sample_events))"
proof -
  have "list_all (\<lambda>u. addressesNamed (cs_LastError u)) (updatesIn sample_events)"
    unfolding sample_events_def by code_simp
  from hidden_logs_stay_private [OF this refl, of sample_json]
  have "list_all (privateStatus sample_json) (sent (dashRun sample_json True sample_events)) \<and>
      logCache (dashRun sample_json True sample_events) = ''[]''" by simp
  moreover have "statusCache (dashRun sample_json True sample_events) = ''a:get: -redacted-;b:;''"
    unfolding sample_events_def sample_json_def by code_simp
  ultimately show ?thesis by simp
qed

end
