(* ===== verification/Encryption.thy ===== *)
theory Encryption
  imports ChainState
begin

unbundle bit_operations_syntax

text \<open>
  Encrypted configuration files: \<open>src/seer/encryption.go\<close>.

  The cryptographic primitives and the password rules are parameters (\<open>crypto\<close>): the validator of
  passwords, Argon2id, the two directions of the block cipher and the MAC. \<open>crypto_ok\<close> collects
  what their documentation promises and the code relies on: lengths, and that encryption and
  decryption of a block are inverse under the same key. Random bytes are arguments. Base64,
  cipher block chaining and the padding are modelled.

  A result is \<open>None\<close> for a panic (a slice out of range, blocks of a wrong size), \<open>Inl\<close> for
  an error, \<open>Inr\<close> for a value.

  Shown: what was encrypted is decrypted again with the same password; nothing is released
  whose MAC does not verify; and no input makes the decryption panic.
\<close>

type_synonym bytes = "byte list"

definition idKeySize :: nat where "idKeySize = 32"
definition ivSize :: nat where "ivSize = 16"
definition macSize :: nat where "macSize = 32"
definition BlockSize :: nat where "BlockSize = 16"

section \<open>Base64\<close>

definition b64alphabet :: "char list" where
  "b64alphabet = ''ABCDEFGHIJKLMNOPQRSTUVWXYZabcdefghijklmnopqrstuvwxyz0123456789+/''"

definition b64char :: "nat \<Rightarrow> byte" where
  "b64char n = of_char (b64alphabet ! n)"

definition b64pad :: byte where "b64pad = of_char (CHR ''='')"

fun indexIn :: "'a list \<Rightarrow> 'a \<Rightarrow> nat option" where
  "indexIn [] x = None"
| "indexIn (y # ys) x = (if y = x then Some 0 else map_option Suc (indexIn ys x))"

definition b64value :: "byte \<Rightarrow> nat option" where
  "b64value b = indexIn (map of_char b64alphabet) b"

fun b64encode :: "bytes \<Rightarrow> bytes" where
  "b64encode (a # b # c # rest) =
     (let n = (unat a * 256 + unat b) * 256 + unat c
      in [b64char (n div 262144), b64char (n div 4096 mod 64), b64char (n div 64 mod 64), b64char (n mod 64)] @
         b64encode rest)"
| "b64encode [a, b] =
     (let n = (unat a * 256 + unat b) * 256
      in [b64char (n div 262144), b64char (n div 4096 mod 64), b64char (n div 64 mod 64), b64pad])"
| "b64encode [a] =
     (let n = unat a * 65536 in [b64char (n div 262144), b64char (n div 4096 mod 64), b64pad, b64pad])"
| "b64encode [] = []"

text \<open>Decoding a quantum of four characters; line breaks have been dropped, trailing bits are ignored.\<close>

fun b64quanta :: "bytes \<Rightarrow> bytes option" where
  "b64quanta [] = Some []"
| "b64quanta (a # b # c # d # rest) =
     (case (b64value a, b64value b) of
        (Some x, Some y) \<Rightarrow>
          if c = b64pad
          then if d = b64pad \<and> rest = [] then Some [of_nat ((x * 64 + y) div 16)] else None
          else (case b64value c of
                  None \<Rightarrow> None
                | Some z \<Rightarrow>
                    if d = b64pad
                    then if rest = []
                         then Some [of_nat ((x * 64 + y) div 16), of_nat (((x * 64 + y) * 64 + z) div 4)] else None
                    else (case b64value d of
                            None \<Rightarrow> None
                          | Some w \<Rightarrow>
                              (case b64quanta rest of
                                 None \<Rightarrow> None
                               | Some bs \<Rightarrow>
                                   Some ([of_nat ((x * 64 + y) div 16), of_nat (((x * 64 + y) * 64 + z) div 4),
                                          of_nat ((((x * 64 + y) * 64 + z) * 64 + w))] @ bs))))
      | _ \<Rightarrow> None)"
| "b64quanta _ = None"

definition b64decode :: "bytes \<Rightarrow> bytes option" where
  "b64decode s = b64quanta (filter (\<lambda>b. b \<noteq> 10 \<and> b \<noteq> 13) s)"

section \<open>Parameters\<close>

record crypto =
  validatePassword :: "string \<Rightarrow> string option"
  IDKey :: "string \<Rightarrow> bytes \<Rightarrow> bytes"
  encryptBlock :: "bytes \<Rightarrow> bytes \<Rightarrow> bytes"
  decryptBlock :: "bytes \<Rightarrow> bytes \<Rightarrow> bytes"
  hmac :: "bytes \<Rightarrow> bytes \<Rightarrow> bytes"

definition crypto_ok :: "crypto \<Rightarrow> bool" where
  "crypto_ok C \<longleftrightarrow>
     (\<forall>p s. length (IDKey C p s) = 2 * idKeySize) \<and> (\<forall>k t. length (hmac C k t) = macSize) \<and>
     (\<forall>k b. length b = BlockSize \<longrightarrow> length (encryptBlock C k b) = BlockSize \<and>
        length (decryptBlock C k b) = BlockSize \<and> decryptBlock C k (encryptBlock C k b) = b \<and>
        encryptBlock C k (decryptBlock C k b) = b)"

section \<open>Slices and block modes\<close>

text \<open>\<open>s[lo:hi]\<close> panics out of range.\<close>

definition subslice :: "nat \<Rightarrow> nat \<Rightarrow> 'a list \<Rightarrow> 'a list option" where
  "subslice lo hi s = (if lo \<le> hi \<and> hi \<le> length s then Some (drop lo (take hi s)) else None)"

definition xorBytes :: "bytes \<Rightarrow> bytes \<Rightarrow> bytes" where
  "xorBytes a b = map (\<lambda>(x, y). x XOR y) (zip a b)"

function cbcEncryptBlocks :: "(bytes \<Rightarrow> bytes) \<Rightarrow> bytes \<Rightarrow> bytes \<Rightarrow> bytes" where
  "cbcEncryptBlocks E iv s =
     (if s = [] then []
      else let c = E (xorBytes (take BlockSize s) iv) in c @ cbcEncryptBlocks E c (drop BlockSize s))"
  by pat_completeness auto

termination cbcEncryptBlocks
  by (relation "measure (\<lambda>(E, iv, s). length s)") (auto simp: BlockSize_def)

function cbcDecryptBlocks :: "(bytes \<Rightarrow> bytes) \<Rightarrow> bytes \<Rightarrow> bytes \<Rightarrow> bytes" where
  "cbcDecryptBlocks D iv s =
     (if s = [] then []
      else xorBytes (D (take BlockSize s)) iv @ cbcDecryptBlocks D (take BlockSize s) (drop BlockSize s))"
  by pat_completeness auto

termination cbcDecryptBlocks
  by (relation "measure (\<lambda>(D, iv, s). length s)") (auto simp: BlockSize_def)

declare cbcEncryptBlocks.simps [simp del] cbcDecryptBlocks.simps [simp del]

text \<open>The constructors panic on an IV of a wrong length, \<open>CryptBlocks\<close> on incomplete blocks.\<close>

definition cbcEncrypt :: "(bytes \<Rightarrow> bytes) \<Rightarrow> bytes \<Rightarrow> bytes \<Rightarrow> bytes option" where
  "cbcEncrypt E iv s =
     (if length iv \<noteq> BlockSize \<or> length s mod BlockSize \<noteq> 0 then None else Some (cbcEncryptBlocks E iv s))"

definition cbcDecrypt :: "(bytes \<Rightarrow> bytes) \<Rightarrow> bytes \<Rightarrow> bytes \<Rightarrow> bytes option" where
  "cbcDecrypt D iv s =
     (if length iv \<noteq> BlockSize \<or> length s mod BlockSize \<noteq> 0 then None else Some (cbcDecryptBlocks D iv s))"

section \<open>Keys\<close>

text \<open>
  The salt is known, or the outcome of reading random bytes. \<open>aes.NewCipher\<close> fails unless the key has
  16, 24 or 32 bytes.
\<close>

definition getKey ::
  "crypto \<Rightarrow> string \<Rightarrow> bytes option \<Rightarrow> string + bytes \<Rightarrow> string + bytes \<times> bytes \<times> bytes" where
  "getKey C pass knownSalt random =
     (case validatePassword C pass of
        Some e \<Rightarrow> Inl e
      | None \<Rightarrow>
          (case (case knownSalt of
                   None \<Rightarrow> random
                 | Some salt \<Rightarrow>
                     if length salt \<noteq> idKeySize \<or> salt = replicate idKeySize 0
                     then Inl ''salt must be 32 bytes and non-zero'' else Inr salt) of
             Inl e \<Rightarrow> Inl e
           | Inr salt \<Rightarrow>
               let keys = IDKey C pass salt
               in if length keys \<noteq> idKeySize * 2 \<or> keys = replicate (idKeySize * 2) 0
                  then Inl ''invalid key, was all zeros''
                  else Inr (take idKeySize keys, drop idKeySize keys, salt)))"

definition validKeySize :: "bytes \<Rightarrow> bool" where
  "validKeySize aesKey \<longleftrightarrow> length aesKey = 16 \<or> length aesKey = 24 \<or> length aesKey = 32"

section \<open>Encrypting and decrypting\<close>

definition padded :: "bytes \<Rightarrow> bytes" where
  "padded plainText =
     (let padLen = BlockSize - length plainText mod BlockSize in plainText @ replicate padLen (of_nat padLen))"

definition encrypt :: "crypto \<Rightarrow> string + bytes \<Rightarrow> string + bytes \<Rightarrow> bytes \<Rightarrow> string \<Rightarrow> (string + bytes) option" where
  "encrypt C randomSalt randomIv plainText password =
     (if length plainText = 0 then Some (Inl ''invalid config file'')
      else case getKey C password None randomSalt of
             Inl e \<Rightarrow> Some (Inl e)
           | Inr (aesKey, macKey, salt) \<Rightarrow>
               if \<not> validKeySize aesKey then Some (Inl ''crypto/aes: invalid key size'')
               else (case randomIv of
                       Inl e \<Rightarrow> Some (Inl e)
                     | Inr iv \<Rightarrow>
                         do { cipherText \<leftarrow> cbcEncrypt (encryptBlock C aesKey) iv (padded plainText);
                              if length cipherText = 0 then Some (Inl ''invalid ciphertext, nothing encrypted'')
                              else let buf = salt @ iv @ cipherText
                                   in Some (Inr (b64encode (buf @ hmac C macKey buf))) }))"

definition unpad :: "bytes \<Rightarrow> string + bytes" where
  "unpad plainText =
     (let padLen = unat (last plainText); n = length plainText
      in if padLen < 1 \<or> BlockSize < padLen \<or> n < padLen then Inl ''plaintext has invalid padding''
         else if drop (n - padLen) plainText \<noteq> replicate padLen (of_nat padLen) then Inl ''plaintext has invalid padding''
         else Inr (take (n - padLen) plainText))"

definition decrypt :: "crypto \<Rightarrow> bytes \<Rightarrow> string \<Rightarrow> (string + bytes) option" where
  "decrypt C encodedFile password =
     (case b64decode encodedFile of
        None \<Rightarrow> Some (Inl ''illegal base64 data'')
      | Some cipherText \<Rightarrow>
          let size = length cipherText;
              minimumSize = idKeySize + ivSize + BlockSize + macSize;
              cipherBytes = int size - int idKeySize - int ivSize - int macSize
          in if size < minimumSize \<or> cipherBytes mod int BlockSize \<noteq> 0
             then Some (Inl ''ciphertext has an invalid length'')
             else do {
               knownSalt \<leftarrow> subslice 0 idKeySize cipherText;
               (case getKey C password (Some knownSalt) (Inl '''') of
                  Inl e \<Rightarrow> Some (Inl e)
                | Inr (aesKey, macKey, salt) \<Rightarrow>
                    do {
                      authText \<leftarrow> subslice 0 (length cipherText - macSize) cipherText;
                      mac \<leftarrow> subslice (length cipherText - macSize) (length cipherText) cipherText;
                      if mac \<noteq> hmac C macKey authText then Some (Inl ''HMAC authentication failed'')
                      else if \<not> validKeySize aesKey then Some (Inl ''crypto/aes: invalid key size'')
                      else do {
                        iv \<leftarrow> subslice idKeySize (idKeySize + ivSize) cipherText;
                        body \<leftarrow> subslice (ivSize + idKeySize) (length authText) authText;
                        plainText \<leftarrow> cbcDecrypt (decryptBlock C aesKey) iv body;
                        if length plainText = 0 then Some (Inl ''plaintext was empty'') else Some (unpad plainText)
                      }
                    })
             })"

section \<open>Files\<close>

text \<open>
  \<open>EncryptedConfig\<close> on a store of files, with the errors the operating system may report:
  on opening or reading the input, on opening the output (which truncates it), and on writing, after
  some bytes have been written.
\<close>

record file_faults =
  readFault :: "string option"
  openFault :: "string option"
  writeFault :: "(nat \<times> string) option"

definition EncryptedConfig ::
  "crypto \<Rightarrow> string + bytes \<Rightarrow> string + bytes \<Rightarrow> file_faults \<Rightarrow> string \<Rightarrow> string \<Rightarrow> string \<Rightarrow> bool \<Rightarrow>
     (string \<Rightarrow> bytes option) \<Rightarrow> (string option \<times> (string \<Rightarrow> bytes option)) option" where
  "EncryptedConfig C randomSalt randomIv faults plaintext ciphertext pass decrypting files =
     (let infile = (if decrypting then ciphertext else plaintext);
          outfile = (if decrypting then plaintext else ciphertext)
      in case (readFault faults, files infile) of
           (Some e, _) \<Rightarrow> Some (Some e, files)
         | (None, None) \<Rightarrow> Some (Some ''no such file or directory'', files)
         | (None, Some inConfig) \<Rightarrow>
             do { out \<leftarrow> (if decrypting then decrypt C inConfig pass
                          else encrypt C randomSalt randomIv inConfig pass);
                  case out of
                    Inl e \<Rightarrow> Some (Some e, files)
                  | Inr outConfig \<Rightarrow>
                      (case (openFault faults, writeFault faults) of
                         (Some e, _) \<Rightarrow> Some (Some e, files)
                       | (None, Some (n, e)) \<Rightarrow> Some (Some e, files(outfile := Some (take n outConfig)))
                       | (None, None) \<Rightarrow> Some (None, files(outfile := Some outConfig))) })"

section \<open>Base64 round trip\<close>

lemma indexIn_nth: "distinct ys \<Longrightarrow> i < length ys \<Longrightarrow> indexIn ys (ys ! i) = Some i"
  by (induction ys arbitrary: i) (auto simp: nth_Cons' less_Suc_eq_0_disj)

lemma indexIn_None: "indexIn ys x = None \<longleftrightarrow> x \<notin> set ys"
  by (induction ys) auto

lemma length_alphabet [simp]: "length b64alphabet = 64"
  by (simp add: b64alphabet_def)

lemma alphabet_distinct: "distinct (map of_char b64alphabet :: byte list)"
  unfolding b64alphabet_def by code_simp

lemma alphabet_clean: "b64pad \<notin> set (map of_char b64alphabet)" "10 \<notin> set (map of_char b64alphabet :: byte list)"
  "13 \<notin> set (map of_char b64alphabet :: byte list)"
  unfolding b64alphabet_def b64pad_def by code_simp+

lemma b64value_char [simp]: "n < 64 \<Longrightarrow> b64value (b64char n) = Some n"
  using indexIn_nth [OF alphabet_distinct, of n] by (simp add: b64value_def b64char_def)

lemma b64char_mem: "n < 64 \<Longrightarrow> b64char n \<in> set (map of_char b64alphabet)"
  by (auto simp: b64char_def)

lemma b64char_clean [simp]:
  assumes "n < 64"
  shows "b64char n \<noteq> b64pad" "b64char n \<noteq> 10" "b64char n \<noteq> 13" "b64pad \<noteq> b64char n"
  using b64char_mem [OF assms] alphabet_clean by metis+

lemma pad_clean [simp]: "b64pad \<noteq> 10" "b64pad \<noteq> 13"
  unfolding b64pad_def by code_simp+

lemma unat_byte [simp]: "unat (b :: byte) < 256"
  using unsigned_less [where ?'a = nat, of b] by simp

lemma digits_join:
  fixes n :: nat
  shows "(n div 262144 * 64 + n div 4096 mod 64) = n div 4096"
    "(n div 4096 * 64 + n div 64 mod 64) = n div 64" "n div 64 * 64 + n mod 64 = n"
proof -
  show "n div 262144 * 64 + n div 4096 mod 64 = n div 4096"
    using div_mult_mod_eq [of "n div 4096" 64] by (simp add: div_mult2_eq [symmetric])
  show "n div 4096 * 64 + n div 64 mod 64 = n div 64"
    using div_mult_mod_eq [of "n div 64" 64] by (simp add: div_mult2_eq [symmetric])
qed simp

lemma of_nat_byte: "of_nat (256 * m + unat b) = (b :: byte)"
proof -
  have "(of_nat 256 :: byte) = 0" by code_simp
  then have "of_nat (256 * m) = (0 :: byte)" by (simp only: of_nat_mult mult_zero_left)
  then show ?thesis by (simp only: of_nat_add) simp
qed

lemma low_byte: "c < 256 \<Longrightarrow> (m * 256 + c) div 256 = (m :: nat)"
  by simp

lemma three_bytes:
  fixes a b c :: byte
  defines "n \<equiv> (unat a * 256 + unat b) * 256 + unat c"
  shows "n div 262144 < 64" "of_nat (n div 4096 div 16) = a" "of_nat (n div 64 div 4) = b" "of_nat n = c"
proof -
  have "unat a \<le> 255" "unat b \<le> 255" "unat c \<le> 255"
    using unat_byte [of a] unat_byte [of b] unat_byte [of c] by linarith+
  then have "n < 64 * 262144" unfolding n_def by simp
  then show "n div 262144 < 64" by (simp add: less_mult_imp_div_less)
  have "n div 256 = unat a * 256 + unat b" unfolding n_def by (rule low_byte) simp
  moreover have "n div 65536 = n div 256 div 256" by (simp add: div_mult2_eq [symmetric])
  ultimately have "n div 65536 = unat a" using unat_byte [of b] by simp
  then show "of_nat (n div 4096 div 16) = a" by (simp add: div_mult2_eq [symmetric])
  show "of_nat (n div 64 div 4) = b"
    using \<open>n div 256 = unat a * 256 + unat b\<close> of_nat_byte [of "unat a" b]
    by (simp add: div_mult2_eq [symmetric] mult.commute)
  show "of_nat n = c" using of_nat_byte [of "unat a * 256 + unat b" c] by (simp add: n_def algebra_simps)
qed

lemma quanta_step:
  assumes "n div 262144 < 64"
  shows "b64quanta (b64char (n div 262144) # b64char (n div 4096 mod 64) # b64char (n div 64 mod 64) #
        b64char (n mod 64) # rest) =
      map_option (\<lambda>bs. of_nat (n div 4096 div 16) # of_nat (n div 64 div 4) # of_nat n # bs) (b64quanta rest)"
    "b64quanta [b64char (n div 262144), b64char (n div 4096 mod 64), b64char (n div 64 mod 64), b64pad] =
      Some [of_nat (n div 4096 div 16), of_nat (n div 64 div 4)]"
    "b64quanta [b64char (n div 262144), b64char (n div 4096 mod 64), b64pad, b64pad] =
      Some [of_nat (n div 4096 div 16)]"
  using assms
  by (simp_all add: digits_join map_option_case del: of_nat_add of_nat_mult split: option.split)

lemma quanta_encode: "b64quanta (b64encode bs) = Some bs"
proof (induction bs rule: b64encode.induct)
  case (1 a b c rest)
  then show ?case
    unfolding b64encode.simps Let_def append_Cons append_Nil quanta_step(1) [OF three_bytes(1)] three_bytes by simp
next
  case (2 a b)
  then show ?case
    unfolding b64encode.simps Let_def
    using quanta_step(2) [OF three_bytes(1) [of a b 0]] three_bytes [of a b 0] by simp
next
  case (3 a)
  then show ?case
    unfolding b64encode.simps Let_def
    using quanta_step(3) [OF three_bytes(1) [of a 0 0]] three_bytes [of a 0 0] by simp
qed simp

lemma encode_clean: "filter (\<lambda>b. b \<noteq> 10 \<and> b \<noteq> 13) (b64encode bs) = b64encode bs"
proof (induction bs rule: b64encode.induct)
  case (1 a b c rest)
  then show ?case using three_bytes(1) [of a b c] by (simp add: Let_def)
next
  case (2 a b)
  then show ?case using three_bytes(1) [of a b 0] by (simp add: Let_def)
next
  case (3 a)
  then show ?case using three_bytes(1) [of a 0 0] by (simp add: Let_def)
qed simp

lemma b64_roundtrip [simp]: "b64decode (b64encode bs) = Some bs"
  by (simp add: b64decode_def encode_clean quanta_encode)

section \<open>Chaining and padding\<close>

lemma length_xorBytes [simp]: "length (xorBytes a b) = min (length a) (length b)"
  by (simp add: xorBytes_def)

lemma xorBytes_twice [simp]: "length a = length b \<Longrightarrow> xorBytes (xorBytes a b) b = a"
  by (induction a b rule: list_induct2) (auto simp: xorBytes_def xor.assoc)

lemma cbc_nil [simp]: "cbcEncryptBlocks E iv [] = []" "cbcDecryptBlocks D iv [] = []"
  by (simp_all add: cbcEncryptBlocks.simps cbcDecryptBlocks.simps)

lemma cbc_encrypt_block: "length b = BlockSize \<Longrightarrow>
    cbcEncryptBlocks E iv (b @ s) = E (xorBytes b iv) @ cbcEncryptBlocks E (E (xorBytes b iv)) s"
  by (subst cbcEncryptBlocks.simps) (auto simp: Let_def BlockSize_def)

lemma cbc_decrypt_block: "length b = BlockSize \<Longrightarrow>
    cbcDecryptBlocks D iv (b @ s) = xorBytes (D b) iv @ cbcDecryptBlocks D b s"
  by (subst cbcDecryptBlocks.simps) (auto simp: BlockSize_def)

lemma blocks_induct [consumes 1, case_names Nil Block]:
  assumes "length s mod BlockSize = 0" "P []"
    "\<And>b s. length b = BlockSize \<Longrightarrow> length s mod BlockSize = 0 \<Longrightarrow> P s \<Longrightarrow> P (b @ s)"
  shows "P s"
  using assms(1)
proof (induction "length s" arbitrary: s rule: less_induct)
  case less
  show ?case
  proof (cases "s = []")
    case False
    then have long: "BlockSize \<le> length s" using less.prems by (metis length_0_conv mod_less not_le)
    have "P (take BlockSize s @ drop BlockSize s)"
      using long less.prems le_mod_geq [OF long]
      by (intro assms(3) less.hyps) (auto simp: BlockSize_def)
    then show ?thesis by simp
  qed (simp add: assms(2))
qed

lemma cbc_roundtrip:
  assumes "length s mod BlockSize = 0" "length iv = BlockSize"
    "\<And>b. length b = BlockSize \<Longrightarrow> length (E b) = BlockSize \<and> D (E b) = b"
  shows "cbcDecryptBlocks D iv (cbcEncryptBlocks E iv s) = s \<and> length (cbcEncryptBlocks E iv s) = length s"
  using assms(1,2)
  by (induction s arbitrary: iv rule: blocks_induct) (simp_all add: cbc_encrypt_block cbc_decrypt_block assms(3))

lemma length_padded: "length (padded s) mod BlockSize = 0" "padded s \<noteq> []"
  by (simp_all add: padded_def Let_def BlockSize_def) presburger

lemma unpad_padded [simp]: "unpad (padded s) = Inr s"
proof -
  define p where "p = BlockSize - length s mod BlockSize"
  have p: "0 < p" "p \<le> BlockSize" by (simp_all add: p_def BlockSize_def)
  then have "unat (of_nat p :: byte) = p" by (simp add: unat_of_nat BlockSize_def)
  moreover have "padded s = s @ replicate p (of_nat p)" by (simp add: padded_def Let_def p_def)
  ultimately show ?thesis using p by (simp add: unpad_def Let_def)
qed

lemma cbc_roundtrip':
  assumes "length s mod BlockSize = 0" "length iv = BlockSize"
    "\<And>b. length b = BlockSize \<Longrightarrow> length (D b) = BlockSize \<and> E (D b) = b"
  shows "cbcEncryptBlocks E iv (cbcDecryptBlocks D iv s) = s \<and> length (cbcDecryptBlocks D iv s) = length s"
  using assms(1,2)
  by (induction s arbitrary: iv rule: blocks_induct) (simp_all add: cbc_encrypt_block cbc_decrypt_block assms(3))

lemma pad_length:
  fixes n p :: nat
  assumes "(n + p) mod 16 = 0" "1 \<le> p" "p \<le> 16"
  shows "p = 16 - n mod 16"
proof -
  define r where "r = n mod 16"
  have "(r + p) mod 16 = 0" "r < 16" using assms(1) by (simp_all add: r_def mod_add_left_eq)
  moreover have "r + p < 16 \<Longrightarrow> (r + p) mod 16 = r + p" by simp
  moreover have "16 \<le> r + p \<Longrightarrow> (r + p) mod 16 = r + p - 16" using assms(3) \<open>r < 16\<close> by (simp add: le_mod_geq)
  ultimately show ?thesis using assms(2) unfolding r_def [symmetric] by linarith
qed

lemma unpad_inverts:
  assumes "unpad s = Inr plain" "length s mod BlockSize = 0"
  shows "s = padded plain"
proof -
  define p where "p = unat (last s)"
  have p: "1 \<le> p" "p \<le> BlockSize" "p \<le> length s" and tail: "drop (length s - p) s = replicate p (of_nat p)"
    and plain: "plain = take (length s - p) s"
    using assms(1) by (auto simp: unpad_def Let_def p_def [symmetric] split: if_splits)
  have s: "s = plain @ replicate p (of_nat p)" using tail plain by (metis append_take_drop_id)
  then have "(length plain + p) mod 16 = 0" using assms(2) by (simp add: BlockSize_def)
  then have "p = 16 - length plain mod 16" using p(1,2) pad_length [of "length plain" p] by (simp add: BlockSize_def)
  then show ?thesis using s by (simp add: padded_def Let_def BlockSize_def)
qed

section \<open>What is accepted\<close>

text \<open>The bytes a plain text is stored as, and when a password and a salt can be used at all.\<close>

definition container :: "crypto \<Rightarrow> string \<Rightarrow> bytes \<Rightarrow> bytes \<Rightarrow> bytes \<Rightarrow> bytes" where
  "container C pass salt iv plain =
     (let keys = IDKey C pass salt;
          buf = salt @ iv @ cbcEncryptBlocks (encryptBlock C (take idKeySize keys)) iv (padded plain)
      in buf @ hmac C (drop idKeySize keys) buf)"

definition usable :: "crypto \<Rightarrow> string \<Rightarrow> bytes \<Rightarrow> bool" where
  "usable C pass salt \<longleftrightarrow> validatePassword C pass = None \<and> length salt = idKeySize \<and>
     salt \<noteq> replicate idKeySize 0 \<and> IDKey C pass salt \<noteq> replicate (idKeySize * 2) 0"

lemmas sizes = idKeySize_def ivSize_def macSize_def BlockSize_def

lemma crypto_okD:
  assumes "crypto_ok C"
  shows "length (IDKey C p s) = 2 * idKeySize" "length (hmac C k t) = macSize"
    "length b = BlockSize \<Longrightarrow> length (encryptBlock C k b) = BlockSize \<and> decryptBlock C k (encryptBlock C k b) = b"
    "length b = BlockSize \<Longrightarrow> length (decryptBlock C k b) = BlockSize \<and> encryptBlock C k (decryptBlock C k b) = b"
  using assms by (auto simp: crypto_ok_def)

lemma getKey_known:
  assumes "crypto_ok C"
  shows "getKey C pass (Some salt) r = Inr (k, mk, s) \<longleftrightarrow> usable C pass salt \<and> s = salt \<and>
    k = take idKeySize (IDKey C pass salt) \<and> mk = drop idKeySize (IDKey C pass salt)"
  using crypto_okD(1) [OF assms] by (auto simp: getKey_def usable_def Let_def split: option.splits if_splits)

lemma getKey_fresh:
  assumes "crypto_ok C" "usable C pass salt"
  shows "getKey C pass None (Inr salt) =
    Inr (take idKeySize (IDKey C pass salt), drop idKeySize (IDKey C pass salt), salt)"
  using assms(2) crypto_okD(1) [OF assms(1)] by (simp add: getKey_def usable_def Let_def)

lemma getKey_validKeySize:
  assumes "getKey C pass salt r = Inr (k, mk, s)"
  shows "validKeySize k"
  using assms
  by (auto simp: getKey_def validKeySize_def Let_def idKeySize_def split: option.splits if_splits sum.splits)

text \<open>Decryption behind its length check: every slice is in range and every block is complete.\<close>

definition opened :: "crypto \<Rightarrow> bytes \<Rightarrow> string \<Rightarrow> string + bytes" where
  "opened C c password =
     (case getKey C password (Some (take idKeySize c)) (Inl '''') of
        Inl e \<Rightarrow> Inl e
      | Inr (k, macKey, salt) \<Rightarrow>
          if drop (length c - macSize) c \<noteq> hmac C macKey (take (length c - macSize) c)
          then Inl ''HMAC authentication failed''
          else unpad (cbcDecryptBlocks (decryptBlock C k) (take ivSize (drop idKeySize c))
                        (drop (ivSize + idKeySize) (take (length c - macSize) c))))"

definition sized :: "bytes \<Rightarrow> bool" where
  "sized c \<longleftrightarrow> 96 \<le> length c \<and> (length c - 80) mod 16 = 0"

lemma sized_check:
  "(length c < idKeySize + ivSize + BlockSize + macSize \<or>
    (int (length c) - int idKeySize - int ivSize - int macSize) mod int BlockSize \<noteq> 0) \<longleftrightarrow> \<not> sized c"
proof (cases "96 \<le> length c")
  case True
  then have "int (length c) - 32 - 16 - 32 = int (length c - 80)" by simp
  moreover have "int (length c - 80) mod 16 = int ((length c - 80) mod 16)" by (simp only: zmod_int of_nat_numeral)
  ultimately show ?thesis using True by (simp add: sized_def sizes)
qed (simp add: sized_def sizes)

lemma body_blocks:
  assumes "sized c"
  shows "length (drop (ivSize + idKeySize) (take (length c - macSize) c)) mod BlockSize = 0"
    "0 < length (drop (ivSize + idKeySize) (take (length c - macSize) c))"
  using assms by (simp_all add: sized_def sizes)

lemma decrypt_cases:
  assumes "crypto_ok C"
  shows "decrypt C f password =
    (case b64decode f of
       None \<Rightarrow> Some (Inl ''illegal base64 data'')
     | Some c \<Rightarrow> if sized c then Some (opened C c password) else Some (Inl ''ciphertext has an invalid length''))"
proof (cases "b64decode f")
  case (Some c)
  show ?thesis
  proof (cases "sized c")
    case True
    then have long: "96 \<le> length c" by (simp add: sized_def)
    then have slices: "subslice 0 idKeySize c = Some (take idKeySize c)"
      "subslice 0 (length c - macSize) c = Some (take (length c - macSize) c)"
      "subslice (length c - macSize) (length c) c = Some (drop (length c - macSize) c)"
      "subslice idKeySize (idKeySize + ivSize) c = Some (take ivSize (drop idKeySize c))"
      by (simp_all add: subslice_def sizes drop_take)
    let ?auth = "take (length c - macSize) c"
    let ?body = "drop (ivSize + idKeySize) ?auth"
    have body: "subslice (ivSize + idKeySize) (length c - macSize) ?auth = Some ?body"
      using long by (simp add: subslice_def sizes)
    have cbc: "cbcDecrypt (decryptBlock C k) (take ivSize (drop idKeySize c)) ?body =
        Some (cbcDecryptBlocks (decryptBlock C k) (take ivSize (drop idKeySize c)) ?body)" for k
      using long body_blocks [OF True] by (simp add: cbcDecrypt_def sizes)
    have full: "cbcDecryptBlocks (decryptBlock C k) (take ivSize (drop idKeySize c)) ?body \<noteq> []" for k
      using cbc_roundtrip' [OF body_blocks(1) [OF True], of "take ivSize (drop idKeySize c)" "decryptBlock C k" "encryptBlock C k"]
        body_blocks(2) [OF True] crypto_okD(4) [OF assms] long by (auto simp: sizes)
    show ?thesis
      using True Some full
      by (auto simp: decrypt_def Let_def sized_check opened_def slices body cbc getKey_validKeySize
          split: sum.splits prod.splits)
  qed (simp add: decrypt_def Some Let_def sized_check)
qed (simp add: decrypt_def)

text \<open>Reading a container, and that everything that opens is a container.\<close>

lemma length_container:
  assumes "crypto_ok C" "usable C pass salt" "length iv = ivSize"
  shows "sized (container C pass salt iv plain)"
proof -
  let ?E = "encryptBlock C (take idKeySize (IDKey C pass salt))"
  have "length (cbcEncryptBlocks ?E iv (padded plain)) = length (padded plain)"
    using cbc_roundtrip [OF length_padded(1), of iv ?E "decryptBlock C (take idKeySize (IDKey C pass salt))"]
      assms(3) crypto_okD(3) [OF assms(1)] by (auto simp: sizes)
  moreover have blocks: "length (padded plain) mod 16 = 0" using length_padded(1) [of plain] by (simp add: BlockSize_def)
  moreover have "16 \<le> length (padded plain)"
    using blocks length_padded(2) [of plain] by (cases "length (padded plain) < 16") auto
  ultimately show ?thesis
    using assms(2,3) crypto_okD(2) [OF assms(1)] by (simp add: container_def Let_def sized_def usable_def sizes)
qed

lemma opened_container:
  assumes "crypto_ok C" "usable C pass salt" "length iv = ivSize"
  shows "opened C (container C pass salt iv plain) pass = Inr plain"
proof -
  define keys where "keys = IDKey C pass salt"
  define enc where "enc = cbcEncryptBlocks (encryptBlock C (take idKeySize keys)) iv (padded plain)"
  define mac where "mac = hmac C (drop idKeySize keys) (salt @ iv @ enc)"
  have c: "container C pass salt iv plain = salt @ iv @ enc @ mac"
    by (simp add: container_def Let_def keys_def enc_def mac_def)
  have len: "length salt = idKeySize" "length mac = macSize"
    using assms(2) crypto_okD(2) [OF assms(1)] by (simp_all add: usable_def mac_def)
  have "cbcDecryptBlocks (decryptBlock C (take idKeySize keys)) iv enc = padded plain"
    using cbc_roundtrip [OF length_padded(1), of iv "encryptBlock C (take idKeySize keys)"
        "decryptBlock C (take idKeySize keys)" plain] assms(3) crypto_okD(3) [OF assms(1)]
    by (simp add: enc_def sizes)
  moreover have "getKey C pass (Some salt) (Inl '''') = Inr (take idKeySize keys, drop idKeySize keys, salt)"
    using assms by (simp add: getKey_known keys_def)
  ultimately show ?thesis
    using len assms(3) by (simp add: opened_def c mac_def [symmetric])
qed

lemma container_opened:
  assumes ok: "crypto_ok C" and "sized c" "opened C c pass = Inr plain"
  shows "\<exists>salt iv. usable C pass salt \<and> length iv = ivSize \<and> c = container C pass salt iv plain"
proof -
  define salt where "salt = take idKeySize c"
  define iv where "iv = take ivSize (drop idKeySize c)"
  define body where "body = drop (ivSize + idKeySize) (take (length c - macSize) c)"
  define keys where "keys = IDKey C pass salt"
  have mac: "usable C pass salt" "drop (length c - macSize) c = hmac C (drop idKeySize keys) (take (length c - macSize) c)"
    "unpad (cbcDecryptBlocks (decryptBlock C (take idKeySize keys)) iv body) = Inr plain"
    using assms(3)
    by (auto simp: opened_def getKey_known [OF ok] salt_def iv_def body_def keys_def split: sum.splits prod.splits if_splits)
  have auth: "take (length c - macSize) c = salt @ iv @ body"
    using assms(2) unfolding salt_def iv_def body_def sized_def sizes
    by (simp add: drop_take take_add [symmetric] flip: append_assoc)
  have iv: "length iv = ivSize" using assms(2) by (auto simp: iv_def sized_def sizes)
  have blocks: "length body mod BlockSize = 0" using body_blocks(1) [OF assms(2)] by (simp add: body_def)
  note inv = cbc_roundtrip' [OF blocks, of iv "decryptBlock C (take idKeySize keys)" "encryptBlock C (take idKeySize keys)"]
  have "cbcDecryptBlocks (decryptBlock C (take idKeySize keys)) iv body = padded plain"
    using unpad_inverts [OF mac(3)] inv blocks iv crypto_okD(4) [OF ok] by (simp add: sizes)
  then have "body = cbcEncryptBlocks (encryptBlock C (take idKeySize keys)) iv (padded plain)"
    using inv iv crypto_okD(4) [OF ok] by (simp add: sizes)
  then have "c = container C pass salt iv plain"
    using append_take_drop_id [of "length c - macSize" c] auth mac(2)
    by (simp add: container_def Let_def keys_def [symmetric])
  then show ?thesis using mac(1) iv by blast
qed

lemma encrypt_container:
  assumes "crypto_ok C" "usable C pass salt" "length iv = ivSize" "plain \<noteq> []"
  shows "encrypt C (Inr salt) (Inr iv) plain pass = Some (Inr (b64encode (container C pass salt iv plain)))"
proof -
  let ?k = "take idKeySize (IDKey C pass salt)"
  have "length (cbcEncryptBlocks (encryptBlock C ?k) iv (padded plain)) = length (padded plain)"
    using cbc_roundtrip [OF length_padded(1), of iv "encryptBlock C ?k" "decryptBlock C ?k"]
      assms(3) crypto_okD(3) [OF assms(1)] by (auto simp: sizes)
  then have "cbcEncryptBlocks (encryptBlock C ?k) iv (padded plain) \<noteq> []"
    using length_padded(2) [of plain] by auto
  moreover have "cbcEncrypt (encryptBlock C ?k) iv (padded plain) = Some (cbcEncryptBlocks (encryptBlock C ?k) iv (padded plain))"
    using length_padded(1) assms(3) by (simp add: cbcEncrypt_def sizes)
  moreover have "validKeySize ?k" using getKey_validKeySize getKey_fresh [OF assms(1,2)] by blast
  ultimately show ?thesis
    using assms(4) getKey_fresh [OF assms(1,2)] by (simp add: encrypt_def container_def Let_def)
qed

section \<open>Properties\<close>

lemma decrypt_Inr:
  assumes "crypto_ok C"
  shows "decrypt C f pass = Some (Inr plain) \<longleftrightarrow>
    (\<exists>c. b64decode f = Some c \<and> sized c \<and> opened C c pass = Inr plain)"
  by (auto simp: decrypt_cases [OF assms] split: option.split)

lemma decrypt_returns: "crypto_ok C \<Longrightarrow> \<exists>r. decrypt C f pass = Some r"
  by (simp add: decrypt_cases split: option.split)

lemma encrypt_returns:
  assumes "crypto_ok C" "\<forall>iv. randomIv = Inr iv \<longrightarrow> length iv = ivSize"
  shows "\<exists>r. encrypt C randomSalt randomIv plain pass = Some r"
proof (cases randomIv)
  case (Inr iv)
  then have "cbcEncrypt E iv (padded plain) = Some (cbcEncryptBlocks E iv (padded plain))" for E
    using assms(2) length_padded(1) [of plain] by (simp add: cbcEncrypt_def sizes)
  then show ?thesis by (simp add: encrypt_def Inr Let_def split: sum.split prod.split)
qed (simp add: encrypt_def split: sum.split prod.split)

lemma EncryptedConfig_encrypts:
  assumes "crypto_ok C" "usable C pass salt" "length iv = ivSize"
    "readFault faults = None" "openFault faults = None" "writeFault faults = None"
    "files plainFile = Some plain" "plain \<noteq> []"
  shows "EncryptedConfig C (Inr salt) (Inr iv) faults plainFile cipherFile pass False files =
    Some (None, files(cipherFile := Some (b64encode (container C pass salt iv plain))))"
  using assms by (simp add: EncryptedConfig_def encrypt_container)

lemma EncryptedConfig_decrypts:
  assumes "crypto_ok C" "usable C pass salt" "length iv = ivSize"
    "readFault faults = None" "openFault faults = None" "writeFault faults = None"
    "files cipherFile = Some (b64encode (container C pass salt iv plain))"
  shows "EncryptedConfig C rs ri faults outFile cipherFile pass True files = Some (None, files(outFile := Some plain))"
  using assms by (simp add: EncryptedConfig_def decrypt_cases length_container opened_container)

text \<open>C18: \<open>decrypt\<close> releases a text exactly when the file is the Base64 form of salt, IV, the CBC encryption
  of the padded text and the MAC over all three, under the keys derived from the password and that salt.
  So any other file, one with a single changed byte or opened with a password that derives other keys
  included, is refused, whatever its padding looks like once decrypted.
\<close>

theorem decrypt_exact:
  assumes "crypto_ok C"
  shows "decrypt C f pass = Some (Inr plain) \<longleftrightarrow>
    (\<exists>salt iv. usable C pass salt \<and> length iv = ivSize \<and> b64decode f = Some (container C pass salt iv plain))"
  using decrypt_Inr [OF assms] opened_container [OF assms] container_opened [OF assms] length_container [OF assms]
  by metis

text \<open>C19: A configuration that \<open>EncryptedConfig\<close> encrypts comes back byte for byte when it is decrypted with
  the same password into any file.
\<close>

theorem encrypted_config_roundtrip:
  assumes "crypto_ok C" "usable C pass salt" "length iv = ivSize"
    "readFault faults = None" "openFault faults = None" "writeFault faults = None"
    "files plainFile = Some plain" "plain \<noteq> []"
  shows "\<exists>files'. EncryptedConfig C (Inr salt) (Inr iv) faults plainFile cipherFile pass False files = Some (None, files') \<and>
    EncryptedConfig C rs ri faults outFile cipherFile pass True files' = Some (None, files'(outFile := Some plain))"
proof -
  have "EncryptedConfig C (Inr salt) (Inr iv) faults plainFile cipherFile pass False files =
      Some (None, files(cipherFile := Some (b64encode (container C pass salt iv plain))))"
    using assms by (intro EncryptedConfig_encrypts)
  then show ?thesis using EncryptedConfig_decrypts [OF assms(1-6)] by simp
qed

text \<open>C20: No file content, password or random bytes make encryption or decryption panic: every slice is in
  range and only whole blocks reach the cipher. An error other than a failed write
  leaves every file as it was.
\<close>

theorem encrypted_config_safe:
  assumes "crypto_ok C" "\<forall>iv. randomIv = Inr iv \<longrightarrow> length iv = ivSize"
  shows "\<exists>e files'. EncryptedConfig C randomSalt randomIv faults p c pass decrypting files = Some (e, files') \<and>
    (e \<noteq> None \<and> writeFault faults = None \<longrightarrow> files' = files)"
proof -
  define enc dec where "enc f = the (encrypt C randomSalt randomIv f pass)" and "dec f = the (decrypt C f pass)" for f
  have "encrypt C randomSalt randomIv f pass = Some (enc f)" "decrypt C f pass = Some (dec f)" for f
    using encrypt_returns [OF assms, of randomSalt f pass] decrypt_returns [OF assms(1), of f pass]
    by (auto simp: enc_def dec_def)
  then show ?thesis
    by (auto simp: EncryptedConfig_def Let_def split: option.split sum.split)
qed

text \<open>An instance of the parameters: lengths as documented, a cipher that complements, a checksum as MAC.\<close>

definition sampleCrypto :: crypto where
  "sampleCrypto =
     \<lparr>validatePassword = (\<lambda>p. if length p < 8 then Some ''too short'' else None),
      IDKey = (\<lambda>p salt. replicate 64 (of_nat (length p))),
      encryptBlock = (\<lambda>k. map (\<lambda>b. NOT b)), decryptBlock = (\<lambda>k. map (\<lambda>b. NOT b)),
      hmac = (\<lambda>k t. replicate 32 (sum_list t))\<rparr>"

lemma sampleCrypto_ok: "crypto_ok sampleCrypto"
  by (simp add: crypto_ok_def sampleCrypto_def sizes o_def)

lemma sample_usable: "usable sampleCrypto ''correct horse'' (replicate 32 7)"
proof -
  have "replicate 32 (7 :: byte) \<noteq> replicate 32 0" "replicate 64 (13 :: byte) \<noteq> replicate 64 0" by code_simp+
  then show ?thesis by (simp add: usable_def sampleCrypto_def sizes)
qed

theorem decrypt_exact_witness:
  "crypto_ok sampleCrypto \<and>
   decrypt sampleCrypto (b64encode (container sampleCrypto ''correct horse'' (replicate 32 7) (replicate 16 9) [1, 2]))
     ''correct horse'' = Some (Inr [1, 2])"
proof -
  have "length (replicate 16 (9 :: byte)) = ivSize" by (simp add: ivSize_def)
  then show ?thesis using decrypt_exact [OF sampleCrypto_ok] sampleCrypto_ok sample_usable b64_roundtrip by blast
qed

theorem encrypted_config_roundtrip_witness:
  "\<exists>files'. EncryptedConfig sampleCrypto (Inr (replicate 32 7)) (Inr (replicate 16 9))
       \<lparr>readFault = None, openFault = None, writeFault = None\<rparr> ''config.yml'' ''config.yml.asc'' ''correct horse'' False
       [''config.yml'' \<mapsto> [99, 104]] = Some (None, files') \<and>
     EncryptedConfig sampleCrypto (Inl '''') (Inl '''')
       \<lparr>readFault = None, openFault = None, writeFault = None\<rparr> ''out.yml'' ''config.yml.asc'' ''correct horse'' True
       files' = Some (None, files'(''out.yml'' \<mapsto> [99, 104]))"
  by (rule encrypted_config_roundtrip [OF sampleCrypto_ok sample_usable]) (simp_all add: ivSize_def)

theorem encrypted_config_safe_witness:
  "\<exists>e files'. EncryptedConfig sampleCrypto (Inr []) (Inr (replicate 16 9))
       \<lparr>readFault = None, openFault = None, writeFault = None\<rparr> ''out.yml'' ''config.yml.asc'' ''correct horse'' True
       [''config.yml.asc'' \<mapsto> [65, 65, 65, 65]] = Some (e, files') \<and>
     (e = None \<or> files' = [''config.yml.asc'' \<mapsto> [65, 65, 65, 65]])"
proof -
  let ?faults = "\<lparr>readFault = None, openFault = None, writeFault = None\<rparr>"
  obtain e files' where "EncryptedConfig sampleCrypto (Inr []) (Inr (replicate 16 9)) ?faults ''out.yml'' ''config.yml.asc'' ''correct horse'' True
       [''config.yml.asc'' \<mapsto> [65, 65, 65, 65]] = Some (e, files')"
    "e \<noteq> None \<and> writeFault ?faults = None \<longrightarrow> files' = [''config.yml.asc'' \<mapsto> [65, 65, 65, 65]]"
    using encrypted_config_safe [OF sampleCrypto_ok, where randomIv = "Inr (replicate 16 9)" and randomSalt = "Inr []" and faults = ?faults
        and p = "''out.yml''" and c = "''config.yml.asc''" and pass = "''correct horse''" and decrypting = True
        and files = "[''config.yml.asc'' \<mapsto> [65, 65, 65, 65]]"] by (auto simp: ivSize_def)
  then show ?thesis by auto
qed

end
