(* ===== verification/Cli.thy ===== *)
theory Cli
  imports Encryption
begin

text \<open>
  The command line: \<open>src/main.go\<close>.

  \<^item> \<open>parseFlags\<close> is the parser of package \<open>flag\<close> over a table of string and boolean flags: it gives the settings in
    the order of the arguments and the arguments left over.
  \<^item> \<open>parseOptions\<close>, \<open>runApp\<close> and \<open>legacyInvocationWorkingDirectory\<close> follow the functions of these names; \<open>mainProgram\<close> is \<open>main\<close>. The
    environment, the existence of files, the terminal, the embedded example and the two operations behind the command line are
    fields of \<open>app_env\<close>; the operations act on a world of any type. What is
    printed on the standard error stream is not modelled.

  Shown: which files and password a command line selects, what each exit code means, and that a configuration
  encrypted from the command line is restored by decrypting it.
\<close>

section \<open>Flags\<close>

datatype flag_kind = StringFlag | BoolFlag

datatype flag_error = ErrHelp | BadSyntax string | Undefined string | BadValue string string | NeedsArgument string

definition parseBool :: "string \<Rightarrow> bool option" where
  "parseBool s =
     (if s \<in> set [''1'', ''t'', ''T'', ''TRUE'', ''true'', ''True''] then Some True
      else if s \<in> set [''0'', ''f'', ''F'', ''FALSE'', ''false'', ''False''] then Some False else None)"

type_synonym flagSettings = "(string \<times> string) list"

definition addSetting :: "string \<Rightarrow> string \<Rightarrow> flag_error + flagSettings \<times> string list \<Rightarrow> flag_error + flagSettings \<times> string list" where
  "addSetting n v r = (case r of Inl e \<Rightarrow> Inl e | Inr (sets, rest) \<Rightarrow> Inr ((n, v) # sets, rest))"

definition isFlag :: "string \<Rightarrow> bool" where
  "isFlag s \<longleftrightarrow> 2 \<le> length s \<and> hd s = CHR ''-''"

text \<open>The text after the dashes, split at the first equals sign.\<close>

definition flagText :: "string \<Rightarrow> string" where
  "flagText s = (if s ! 1 = CHR ''-'' then drop 2 s else drop 1 s)"

definition flagName :: "string \<Rightarrow> string" where
  "flagName t = takeWhile (\<lambda>c. c \<noteq> CHR ''='') t"

definition flagValue :: "string \<Rightarrow> string option" where
  "flagValue t = (if CHR ''='' \<in> set t then Some (drop (Suc (length (flagName t))) t) else None)"

fun parseFlags :: "(string \<times> flag_kind) list \<Rightarrow> string list \<Rightarrow> flag_error + flagSettings \<times> string list" where
  "parseFlags flags [] = Inr ([], [])"
| "parseFlags flags (s # args) =
     (if \<not> isFlag s then Inr ([], s # args)
      else if s = ''--'' then Inr ([], args)
      else let t = flagText s; n = flagName t in
        if t = [] \<or> hd t = CHR ''-'' \<or> hd t = CHR ''='' then Inl (BadSyntax s)
        else case map_of flags n of
          None \<Rightarrow> Inl (if n = ''help'' \<or> n = ''h'' then ErrHelp else Undefined n)
        | Some BoolFlag \<Rightarrow>
            (let v = (case flagValue t of Some v \<Rightarrow> v | None \<Rightarrow> ''true'')
             in if parseBool v = None then Inl (BadValue n v) else addSetting n v (parseFlags flags args))
        | Some StringFlag \<Rightarrow>
            (case flagValue t of
               Some v \<Rightarrow> addSetting n v (parseFlags flags args)
             | None \<Rightarrow> (case args of
                  [] \<Rightarrow> Inl (NeedsArgument n)
                | v # args' \<Rightarrow> addSetting n v (parseFlags flags args'))))"

section \<open>Options\<close>

definition defaultStateFile :: string where "defaultStateFile = ''.nosnode-seer-state.json''"
definition legacyStateFile :: string where "legacyStateFile = ''.tenderduty-state.json''"
definition canonicalContainerDirectory :: string where "canonicalContainerDirectory = ''/var/lib/nosnode-seer''"
definition legacyContainerDirectory :: string where "legacyContainerDirectory = ''/var/lib/tenderduty''"

record options =
  configFile :: string
  chainConfigDirectory :: string
  stateFile :: string
  encryptedFile :: string
  password :: string
  dumpConfig :: bool
  encryptConfig :: bool
  decryptConfig :: bool
  showVersion :: bool
  usingLegacyState :: bool

definition cliFlags :: "(string \<times> flag_kind) list" where
  "cliFlags =
     [(''f'', StringFlag), (''encrypted-config'', StringFlag), (''password'', StringFlag), (''state'', StringFlag),
      (''cc'', StringFlag), (''example-config'', BoolFlag), (''encrypt'', BoolFlag), (''decrypt'', BoolFlag), (''version'', BoolFlag)]"

definition defaultOptions :: options where
  "defaultOptions =
     \<lparr>configFile = ''config.yml'', chainConfigDirectory = ''chains.d'', stateFile = defaultStateFile,
      encryptedFile = ''config.yml.asc'', password = '''', dumpConfig = False, encryptConfig = False, decryptConfig = False,
      showVersion = False, usingLegacyState = False\<rparr>"

definition setOption :: "string \<times> string \<Rightarrow> options \<Rightarrow> options" where
  "setOption e opts =
     (let n = fst e; v = snd e; b = (parseBool v = Some True) in
      if n = ''f'' then opts\<lparr>configFile := v\<rparr>
      else if n = ''encrypted-config'' then opts\<lparr>encryptedFile := v\<rparr>
      else if n = ''password'' then opts\<lparr>password := v\<rparr>
      else if n = ''state'' then opts\<lparr>stateFile := v\<rparr>
      else if n = ''cc'' then opts\<lparr>chainConfigDirectory := v\<rparr>
      else if n = ''example-config'' then opts\<lparr>dumpConfig := b\<rparr>
      else if n = ''encrypt'' then opts\<lparr>encryptConfig := b\<rparr>
      else if n = ''decrypt'' then opts\<lparr>decryptConfig := b\<rparr>
      else if n = ''version'' then opts\<lparr>showVersion := b\<rparr> else opts)"

record 'w app_env =
  getenv :: "string \<Rightarrow> string"
  fileExists :: "string \<Rightarrow> bool"
  ReadPassword :: "string + string"
  defaultConfig :: string
  buildVersion :: "string \<times> string \<times> string"
  encryptedConfigOp :: "string \<Rightarrow> string \<Rightarrow> string \<Rightarrow> bool \<Rightarrow> 'w \<Rightarrow> (string option \<times> 'w) option"
  runOp :: "string \<Rightarrow> string \<Rightarrow> string \<Rightarrow> string \<Rightarrow> 'w \<Rightarrow> (string option \<times> 'w) option"

definition parseOptions :: "'w app_env \<Rightarrow> string list \<Rightarrow> flag_error + options" where
  "parseOptions env args =
     (case parseFlags cliFlags args of
        Inl e \<Rightarrow> Inl e
      | Inr (sets, rest) \<Rightarrow>
          (let o0 = fold setOption sets defaultOptions;
               stateExplicit = (''state'' \<in> set (map fst sets));
               o1 = (if \<not> stateExplicit \<and> \<not> fileExists env defaultStateFile \<and> fileExists env legacyStateFile
                     then o0\<lparr>stateFile := legacyStateFile, usingLegacyState := True\<rparr> else o0);
               o2 = (if configFile o1 = ''config.yml'' \<and> getenv env ''CONFIG'' \<noteq> '''' then o1\<lparr>configFile := getenv env ''CONFIG''\<rparr> else o1);
               o3 = (if getenv env ''PASSWORD'' \<noteq> '''' then o2\<lparr>password := getenv env ''PASSWORD''\<rparr> else o2)
           in Inr o3))"

section \<open>The application\<close>

definition versionLine :: "'w app_env \<Rightarrow> string" where
  "versionLine env =
     (case buildVersion env of (version, commit, date) \<Rightarrow>
        ProductName @ '' ('' @ BrandName @ '') '' @ version @ ''; commit='' @ commit @ ''; built='' @ date @ [CHR 0x0A])"

text \<open>The exit code, the standard output and the world; \<open>None\<close> is a panic.\<close>

definition exitOf :: "string \<Rightarrow> (string option \<times> 'w) option \<Rightarrow> (int \<times> string \<times> 'w) option" where
  "exitOf out r = map_option (\<lambda>(e, w). (if e = None then 0 else 1, out, w)) r"

definition runApp :: "'w app_env \<Rightarrow> string list \<Rightarrow> 'w \<Rightarrow> (int \<times> string \<times> 'w) option" where
  "runApp env args w =
     (case parseOptions env args of
        Inl e \<Rightarrow> Some (if e = ErrHelp then 0 else 2, '''', w)
      | Inr opts \<Rightarrow>
          if showVersion opts then Some (0, versionLine env, w)
          else if dumpConfig opts then Some (0, defaultConfig env, w)
          else if encryptConfig opts \<or> decryptConfig opts then
            (if password opts = ''''
             then (let prompt = ''Please enter the encryption password: '' in
                   case ReadPassword env of
                     Inl e \<Rightarrow> Some (1, prompt, w)
                   | Inr pass \<Rightarrow> exitOf (prompt @ [CHR 0x0A])
                       (encryptedConfigOp env (configFile opts) (encryptedFile opts) pass (decryptConfig opts) w))
             else exitOf '''' (encryptedConfigOp env (configFile opts) (encryptedFile opts) (password opts) (decryptConfig opts) w))
          else exitOf '''' (runOp env (configFile opts) (stateFile opts) (chainConfigDirectory opts) (password opts) w))"

text \<open>\<open>filepath.Base\<close>.\<close>

definition Base :: "string \<Rightarrow> string" where
  "Base p =
     (if p = [] then ''.''
      else let q = dropWhile (\<lambda>c. c = CHR ''/'') (rev p);
               b = rev (takeWhile (\<lambda>c. c \<noteq> CHR ''/'') q)
           in if b = [] then ''/'' else b)"

definition namesConfig :: "string \<Rightarrow> bool" where
  "namesConfig arg \<longleftrightarrow> arg = ''-f'' \<or> arg = ''--f'' \<or> HasPrefix arg ''-f='' \<or> HasPrefix arg ''--f=''"

definition legacyInvocationWorkingDirectory ::
  "string \<Rightarrow> string \<Rightarrow> string list \<Rightarrow> string \<Rightarrow> (string \<Rightarrow> bool) \<Rightarrow> string" where
  "legacyInvocationWorkingDirectory argv0 currentDirectory args configEnvironment exists =
     (if Base argv0 = ''tenderduty'' then (if exists legacyContainerDirectory then legacyContainerDirectory else '''')
      else if currentDirectory \<noteq> canonicalContainerDirectory \<or> configEnvironment \<noteq> '''' \<or> exists ''config.yml'' then ''''
      else if list_ex namesConfig args then ''''
      else if exists (legacyContainerDirectory @ ''/config.yml'') then legacyContainerDirectory
      else '''')"

text \<open>The process: changing the directory may fail, and changes which files exist.\<close>

definition mainProgram ::
  "(string \<Rightarrow> 'w app_env) \<Rightarrow> (string \<Rightarrow> string option) \<Rightarrow> string \<Rightarrow> string \<Rightarrow> string list \<Rightarrow> 'w \<Rightarrow> (int \<times> string \<times> 'w) option" where
  "mainProgram envIn chdir argv0 currentDirectory args w =
     (let env = envIn currentDirectory;
          directory = legacyInvocationWorkingDirectory argv0 currentDirectory args (getenv env ''CONFIG'') (fileExists env)
      in if directory = '''' then runApp env args w
         else if chdir directory \<noteq> None then Some (1, '''', w)
         else runApp (envIn directory) args w)"

section \<open>Lemmas\<close>

text \<open>A setting written \<open>-name=value\<close> is parsed as it was written.\<close>

lemma flag_written:
  assumes "n \<noteq> []" "hd n \<noteq> CHR ''-''" "CHR ''='' \<notin> set n"
  shows "isFlag (''-'' @ n @ ''='' @ v)" "''-'' @ n @ ''='' @ v \<noteq> ''--''" "flagText (''-'' @ n @ ''='' @ v) = n @ ''='' @ v"
    "flagName (n @ ''='' @ v) = n" "flagValue (n @ ''='' @ v) = Some v" "hd (n @ ''='' @ v) = hd n"
proof -
  obtain c n' where n: "n = c # n'" using assms(1) by (cases n) auto
  have "takeWhile (\<lambda>c. c \<noteq> CHR ''='') (n @ CHR ''='' # v) = n" using assms(3) by (induction n) auto
  then show "flagName (n @ ''='' @ v) = n" by (simp add: flagName_def)
  then show "flagValue (n @ ''='' @ v) = Some v" by (simp add: flagValue_def)
  show "isFlag (''-'' @ n @ ''='' @ v)" "''-'' @ n @ ''='' @ v \<noteq> ''--''" "flagText (''-'' @ n @ ''='' @ v) = n @ ''='' @ v"
    "hd (n @ ''='' @ v) = hd n"
    using assms unfolding n by (simp_all add: isFlag_def flagText_def)
qed

definition writable :: "(string \<times> flag_kind) list \<Rightarrow> string \<times> string \<Rightarrow> bool" where
  "writable flags e \<longleftrightarrow> fst e \<noteq> [] \<and> hd (fst e) \<noteq> CHR ''-'' \<and> CHR ''='' \<notin> set (fst e) \<and>
     (case map_of flags (fst e) of None \<Rightarrow> False | Some StringFlag \<Rightarrow> True | Some BoolFlag \<Rightarrow> parseBool (snd e) \<noteq> None)"

lemma parseFlags_written:
  "list_all (writable flags) sets \<Longrightarrow> rest = [] \<or> \<not> isFlag (hd rest) \<Longrightarrow>
     parseFlags flags (map (\<lambda>e. ''-'' @ fst e @ ''='' @ snd e) sets @ rest) = Inr (sets, rest)"
proof (induction sets)
  case Nil
  then show ?case by (cases rest) auto
next
  case (Cons e sets)
  have w: "writable flags e" using Cons.prems(1) by simp
  have "parseFlags flags (map (\<lambda>e. ''-'' @ fst e @ ''='' @ snd e) sets @ rest) = Inr (sets, rest)" using Cons by simp
  then have IH: "addSetting (fst e) (snd e) (parseFlags flags (map (\<lambda>e. ''-'' @ fst e @ ''='' @ snd e) sets @ rest)) =
      Inr (e # sets, rest)"
    by (simp add: addSetting_def)
  have n: "fst e \<noteq> []" "hd (fst e) \<noteq> CHR ''-''" "CHR ''='' \<notin> set (fst e)" using w by (simp_all add: writable_def)
  then have "hd (fst e) \<noteq> CHR ''=''" using hd_in_set [of "fst e"] by metis
  note f = flag_written [OF n, of "snd e"] n this
  obtain k where k: "map_of flags (fst e) = Some k" "k = BoolFlag \<longrightarrow> parseBool (snd e) \<noteq> None"
    using w by (auto simp: writable_def split: option.splits flag_kind.splits)
  have args: "map (\<lambda>e. ''-'' @ fst e @ ''='' @ snd e) (e # sets) @ rest =
      (''-'' @ fst e @ ''='' @ snd e) # map (\<lambda>e. ''-'' @ fst e @ ''='' @ snd e) sets @ rest" by simp
  have nonempty: "fst e @ ''='' @ snd e \<noteq> []" by simp
  show ?case unfolding args parseFlags.simps(2) Let_def f(3,4,5,6) using f nonempty k IH by (cases k) simp_all
qed

lemma setOption_frame [simp]: "usingLegacyState (setOption e opts) = usingLegacyState opts"
  by (simp add: setOption_def Let_def)

lemma fold_setOption_legacy [simp]: "usingLegacyState (fold setOption sets opts) = usingLegacyState opts"
  by (induction sets arbitrary: opts) simp_all

text \<open>The last value of a flag.\<close>

definition lastSetting :: "string \<Rightarrow> string \<Rightarrow> flagSettings \<Rightarrow> string" where
  "lastSetting n d sets = (case map_of (rev sets) n of Some v \<Rightarrow> v | None \<Rightarrow> d)"

lemma lastSetting_simps [simp]:
  "lastSetting n d [] = d" "lastSetting n d (sets @ [e]) = (if fst e = n then snd e else lastSetting n d sets)"
  by (simp_all add: lastSetting_def)

lemma fold_setOption:
  "configFile (fold setOption sets opts) = lastSetting ''f'' (configFile opts) sets"
  "encryptedFile (fold setOption sets opts) = lastSetting ''encrypted-config'' (encryptedFile opts) sets"
  "password (fold setOption sets opts) = lastSetting ''password'' (password opts) sets"
  "stateFile (fold setOption sets opts) = lastSetting ''state'' (stateFile opts) sets"
  "chainConfigDirectory (fold setOption sets opts) = lastSetting ''cc'' (chainConfigDirectory opts) sets"
  by (induction sets rule: rev_induct) (simp_all add: setOption_def Let_def)

section \<open>Properties\<close>



text \<open>The arguments of an encryption or decryption with a password and two files.\<close>

definition cryptArgs :: "string \<Rightarrow> string \<Rightarrow> string \<Rightarrow> string \<Rightarrow> string list" where
  "cryptArgs mode pass plainFile cipherFile =
     map (\<lambda>e. ''-'' @ fst e @ ''='' @ snd e) [(mode, ''true''), (''password'', pass), (''f'', plainFile), (''encrypted-config'', cipherFile)]"

lemma runApp_crypt:
  assumes "mode = ''encrypt'' \<or> mode = ''decrypt''" "getenv env ''PASSWORD'' = ''''" "pass \<noteq> ''''"
    "plainFile = ''config.yml'' \<longrightarrow> getenv env ''CONFIG'' = ''''"
  shows "runApp env (cryptArgs mode pass plainFile cipherFile) w =
    exitOf '''' (encryptedConfigOp env plainFile cipherFile pass (mode = ''decrypt'') w)"
proof -
  let ?sets = "[(mode, ''true''), (''password'', pass), (''f'', plainFile), (''encrypted-config'', cipherFile)]"
  have "list_all (writable cliFlags) ?sets" using assms(1) by (auto simp: writable_def cliFlags_def parseBool_def)
  from parseFlags_written [OF this, of "[]"]
  have parsed: "parseFlags cliFlags (cryptArgs mode pass plainFile cipherFile) = Inr (?sets, [])" by (simp add: cryptArgs_def)
  have sets: "fold setOption ?sets defaultOptions = defaultOptions\<lparr>configFile := plainFile, encryptedFile := cipherFile, password := pass,
      encryptConfig := (mode = ''encrypt''), decryptConfig := (mode = ''decrypt'')\<rparr>"
    using assms(1) by (elim disjE) (simp_all add: setOption_def defaultOptions_def parseBool_def)
  have "\<exists>legacy state. parseOptions env (cryptArgs mode pass plainFile cipherFile) = Inr (defaultOptions\<lparr>configFile := plainFile,
      stateFile := state, encryptedFile := cipherFile, password := pass, encryptConfig := (mode = ''encrypt''),
      decryptConfig := (mode = ''decrypt''), usingLegacyState := legacy\<rparr>)"
    unfolding parseOptions_def parsed sum.case prod.case Let_def sets using assms(2,4) by (simp add: defaultOptions_def) blast
  then show ?thesis using assms(1,3) by (elim disjE exE) (simp_all add: runApp_def defaultOptions_def)
qed

text \<open>C35: A configuration encrypted from the command line is written back byte for byte, into any file, by decrypting it from the command line with
  the same password; both commands end with code 0.\<close>

theorem command_line_roundtrip:
  assumes "crypto_ok C" "usable C pass salt" "length iv = ivSize" "pass \<noteq> ''''" "getenv env ''PASSWORD'' = ''''" "getenv env ''CONFIG'' = ''''"
    "readFault faults = None" "openFault faults = None" "writeFault faults = None" "files plainFile = Some plain" "plain \<noteq> []"
    and e: "e = env\<lparr>encryptedConfigOp := EncryptedConfig C (Inr salt) (Inr iv) faults\<rparr>"
  shows "\<exists>files'. runApp e (cryptArgs ''encrypt'' pass plainFile cipherFile) files = Some (0, '''', files') \<and>
    runApp e (cryptArgs ''decrypt'' pass outFile cipherFile) files' = Some (0, '''', files'(outFile := Some plain))"
proof -
  let ?files = "files(cipherFile := Some (b64encode (container C pass salt iv plain)))"
  have "EncryptedConfig C (Inr salt) (Inr iv) faults plainFile cipherFile pass False files = Some (None, ?files)"
    using assms by (intro EncryptedConfig_encrypts)
  moreover have "EncryptedConfig C (Inr salt) (Inr iv) faults outFile cipherFile pass True ?files = Some (None, ?files(outFile := Some plain))"
    using assms by (intro EncryptedConfig_decrypts) simp_all
  ultimately show ?thesis
    using runApp_crypt [of "''encrypt''" e pass plainFile cipherFile files] runApp_crypt [of "''decrypt''" e pass outFile cipherFile ?files]
      assms(4-6) by (auto simp: e exitOf_def)
qed

text \<open>An environment with nothing set.\<close>

definition bare_env :: "(string \<Rightarrow> bytes option) app_env" where
  "bare_env = \<lparr>getenv = (\<lambda>_. ''''), fileExists = (\<lambda>f. f = legacyStateFile), ReadPassword = Inl ''no terminal'', defaultConfig = '''',
     buildVersion = (''dev'', ''unknown'', ''unknown''), encryptedConfigOp = (\<lambda>_ _ _ _ w. Some (Some ''failed'', w)),
     runOp = (\<lambda>_ _ _ _ w. Some (None, w))\<rparr>"



theorem command_line_roundtrip_witness:
  "\<exists>files'. runApp (bare_env\<lparr>encryptedConfigOp := EncryptedConfig sampleCrypto (Inr (replicate 32 7)) (Inr (replicate 16 9))
       \<lparr>readFault = None, openFault = None, writeFault = None\<rparr>\<rparr>) (cryptArgs ''encrypt'' ''correct horse'' ''config.yml'' ''config.yml.asc'')
       [''config.yml'' \<mapsto> [99, 104]] = Some (0, '''', files') \<and>
     runApp (bare_env\<lparr>encryptedConfigOp := EncryptedConfig sampleCrypto (Inr (replicate 32 7)) (Inr (replicate 16 9))
       \<lparr>readFault = None, openFault = None, writeFault = None\<rparr>\<rparr>) (cryptArgs ''decrypt'' ''correct horse'' ''out.yml'' ''config.yml.asc'')
       files' = Some (0, '''', files'(''out.yml'' \<mapsto> [99, 104]))"
  by (rule command_line_roundtrip [OF sampleCrypto_ok sample_usable, where env = bare_env and iv = "replicate 16 9"
      and faults = "\<lparr>readFault = None, openFault = None, writeFault = None\<rparr>"]) (simp_all add: ivSize_def bare_env_def)

end
