(* ===== verification/StateFile.thy ===== *)
theory StateFile
  imports AlarmCache
begin

text \<open>
  The state file of \<open>src/seer/state.go\<close>: decoding and validation of a document, loading with
  the rollback backup, and the atomic replacement of the file.

  \<^item> The JSON codec is a parameter (\<open>json_codec\<close>), as \<open>encodeJSON\<close> is one of the source: the
    first decoded value of a text with the text left over, what a second decode gives, and the
    encoded text. \<open>codec_faithful\<close> is what the program relies on for one document: its
    encoding decodes, as the only value of the file, to the same document.
  \<^item> The disk is a model of a file system with caches. A directory entry that was changed since
    the directory was last synced may after a power failure have any of the values it went
    through (\<open>maybe\<close>); the data of a file that was written since its last sync is then garbage.
    Paths are the cleaned directory and the final element.
  \<^item> Every call can fail, as the script of the environment says; a failed write may leave a part
    of the data. A call that fails otherwise has no effect.
  \<^item> The calls that reached the disk are recorded in order, so that a crash between any two of
    them is the disk after a prefix of them.

  The theorems say what is on the disk after a power failure at any point of a save, what a
  failed save leaves, and what loading returns in each case.
\<close>

section \<open>Documents\<close>

record savedState =
  Alarms :: "alarmCache option"
  Blocks :: "(string, int list) gmap"
  NodesDown :: "(string, times) gmap"

record stateDocument =
  doc_Version :: int
  doc_Alarms :: "alarmCache option"
  doc_Blocks :: "(string, int list) gmap"
  doc_NodesDown :: "(string, times) gmap"

type_synonym path = "string \<times> string"

record stateLoadInfo =
  Source :: "path option"
  Version :: int
  Legacy :: bool
  RecoveredFromBackup :: bool

definition emptySavedState :: savedState where
  "emptySavedState = \<lparr>Alarms = None, Blocks = NilMap, NodesDown = NilMap\<rparr>"

definition emptyLoadInfo :: stateLoadInfo where
  "emptyLoadInfo = \<lparr>Source = None, Version = 0, Legacy = False, RecoveredFromBackup = False\<rparr>"

definition currentStateVersion :: int where "currentStateVersion = 1"
definition stateBackupSuffix :: string where "stateBackupSuffix = ''.bak''"

section \<open>Decoding\<close>

datatype trailing = Eof | AnotherValue | BadTrailing string

record json_codec =
  decodeDocument :: "string \<Rightarrow> string + stateDocument option \<times> string"
  decodeTrailing :: "string \<Rightarrow> trailing"
  encodeDocument :: "stateDocument \<Rightarrow> string + string"

datatype state_error =
    NotExist | ReadFailed string | EmptyState | BadJson string | NullDocument | MultipleValues
  | BadTrailingData string | UnsupportedVersion int | NoDurableFields

text \<open>The UTF-8 encodings of the runes that \<open>unicode.IsSpace\<close> accepts.\<close>

definition spaceRunes :: "string list" where
  "spaceRunes =
     [[CHR 0x09], [CHR 0x0A], [CHR 0x0B], [CHR 0x0C], [CHR 0x0D], [CHR 0x20],
      [CHR 0xC2, CHR 0x85], [CHR 0xC2, CHR 0xA0], [CHR 0xE1, CHR 0x9A, CHR 0x80],
      [CHR 0xE2, CHR 0x80, CHR 0x80], [CHR 0xE2, CHR 0x80, CHR 0x81], [CHR 0xE2, CHR 0x80, CHR 0x82],
      [CHR 0xE2, CHR 0x80, CHR 0x83], [CHR 0xE2, CHR 0x80, CHR 0x84], [CHR 0xE2, CHR 0x80, CHR 0x85],
      [CHR 0xE2, CHR 0x80, CHR 0x86], [CHR 0xE2, CHR 0x80, CHR 0x87], [CHR 0xE2, CHR 0x80, CHR 0x88],
      [CHR 0xE2, CHR 0x80, CHR 0x89], [CHR 0xE2, CHR 0x80, CHR 0x8A], [CHR 0xE2, CHR 0x80, CHR 0xA8],
      [CHR 0xE2, CHR 0x80, CHR 0xA9], [CHR 0xE2, CHR 0x80, CHR 0xAF], [CHR 0xE2, CHR 0x81, CHR 0x9F],
      [CHR 0xE3, CHR 0x80, CHR 0x80]]"

text \<open>\<open>strings.TrimLeft\<close> over the white space; what it leaves is empty iff \<open>bytes.TrimSpace\<close> is.\<close>

function trimSpaceLeft :: "string \<Rightarrow> string" where
  "trimSpaceLeft s =
     (case find (HasPrefix s) spaceRunes of
        None \<Rightarrow> s
      | Some r \<Rightarrow> trimSpaceLeft (drop (length r) s))"
  by pat_completeness auto

lemma spaceRune_shortens: "find (HasPrefix s) spaceRunes = Some r \<Longrightarrow> length (drop (length r) s) < length s"
proof -
  assume "find (HasPrefix s) spaceRunes = Some r"
  then have "r \<in> set spaceRunes" "HasPrefix s r"
    by (auto simp: find_Some_iff)
  moreover have "r \<noteq> []" using \<open>r \<in> set spaceRunes\<close> by (auto simp: spaceRunes_def)
  ultimately show ?thesis by (auto simp: HasPrefix_iff)
qed

termination trimSpaceLeft
  by (relation "measure length") (auto dest: spaceRune_shortens)

declare trimSpaceLeft.simps [simp del]

definition decodeState :: "json_codec \<Rightarrow> string \<Rightarrow> state_error + savedState \<times> stateLoadInfo" where
  "decodeState codec data =
     (if trimSpaceLeft data = [] then Inl EmptyState
      else case decodeDocument codec data of
             Inl e \<Rightarrow> Inl (BadJson e)
           | Inr (None, rest) \<Rightarrow> Inl NullDocument
           | Inr (Some document, rest) \<Rightarrow>
               (case decodeTrailing codec rest of
                  AnotherValue \<Rightarrow> Inl MultipleValues
                | BadTrailing e \<Rightarrow> Inl (BadTrailingData e)
                | Eof \<Rightarrow>
                    if doc_Version document < 0 \<or> currentStateVersion < doc_Version document
                    then Inl (UnsupportedVersion (doc_Version document))
                    else if doc_Alarms document = None \<and> doc_Blocks document = NilMap \<and>
                            doc_NodesDown document = NilMap
                    then Inl NoDurableFields
                    else Inr (\<lparr>Alarms = doc_Alarms document, Blocks = doc_Blocks document,
                               NodesDown = doc_NodesDown document\<rparr>,
                              emptyLoadInfo\<lparr>Version := doc_Version document,
                                Legacy := (doc_Version document = 0)\<rparr>)))"

section \<open>Loading\<close>

definition backupPath :: "path \<Rightarrow> path" where
  "backupPath p = (fst p, snd p @ stateBackupSuffix)"

definition readStateCandidate ::
  "json_codec \<Rightarrow> path \<Rightarrow> (path \<Rightarrow> state_error + string) \<Rightarrow> state_error + savedState \<times> stateLoadInfo" where
  "readStateCandidate codec p readFile =
     (case readFile p of Inl e \<Rightarrow> Inl e | Inr data \<Rightarrow> decodeState codec data)"

datatype load_error = BadBackup state_error | BadState state_error | BadBoth state_error state_error

definition loadStateWithReader ::
  "json_codec \<Rightarrow> path \<Rightarrow> (path \<Rightarrow> state_error + string) \<Rightarrow> load_error + savedState \<times> stateLoadInfo" where
  "loadStateWithReader codec statePath readFile =
     (case readStateCandidate codec statePath readFile of
        Inr (state, info) \<Rightarrow> Inr (state, info\<lparr>Source := Some statePath\<rparr>)
      | Inl primaryErr \<Rightarrow>
          (case readStateCandidate codec (backupPath statePath) readFile of
             Inr (backup, backupInfo) \<Rightarrow>
               Inr (backup, backupInfo\<lparr>Source := Some (backupPath statePath), RecoveredFromBackup := True\<rparr>)
           | Inl backupErr \<Rightarrow>
               if primaryErr = NotExist \<and> backupErr = NotExist then Inr (emptySavedState, emptyLoadInfo)
               else if primaryErr = NotExist then Inl (BadBackup backupErr)
               else if backupErr = NotExist then Inl (BadState primaryErr)
               else Inl (BadBoth primaryErr backupErr)))"

section \<open>The disk\<close>

record inode =
  content :: string
  synced :: bool

record disk =
  inodes :: "inode list"
  entries :: "path \<Rightarrow> nat option"
  maybe :: "path \<Rightarrow> nat option list"

datatype disk_op =
    CreateFile path | WriteData nat string | SyncFile nat | RenameFile path path | RemoveFile path
  | SyncDir string

text \<open>Changing an entry: its new value is visible, the old ones may come back.\<close>

definition setEntry :: "path \<Rightarrow> nat option \<Rightarrow> disk \<Rightarrow> disk" where
  "setEntry p v d = d\<lparr>entries := (entries d)(p := v), maybe := (maybe d)(p := v # maybe d p)\<rparr>"

fun execute :: "disk_op \<Rightarrow> disk \<Rightarrow> disk" where
  "execute (CreateFile p) d =
     setEntry p (Some (length (inodes d))) (d\<lparr>inodes := inodes d @ [\<lparr>content = '''', synced = False\<rparr>]\<rparr>)"
| "execute (WriteData i s) d =
     d\<lparr>inodes := (inodes d)[i := \<lparr>content = content (inodes d ! i) @ s, synced = False\<rparr>]\<rparr>"
| "execute (SyncFile i) d = d\<lparr>inodes := (inodes d)[i := (inodes d ! i)\<lparr>synced := True\<rparr>]\<rparr>"
| "execute (RenameFile p q) d = setEntry q (entries d p) (setEntry p None d)"
| "execute (RemoveFile p) d = setEntry p None d"
| "execute (SyncDir dir) d = d\<lparr>maybe := (\<lambda>p. if fst p = dir then [entries d p] else maybe d p)\<rparr>"

section \<open>Calls\<close>

text \<open>
  The state of a running save. \<open>script\<close> says how the coming calls end, \<open>suffixes\<close> are the random
  parts the temporary names are tried with.
\<close>

datatype outcome = Done | Fails string | Short nat string

record io =
  io_disk :: disk
  trace :: "disk_op list"
  script :: "outcome list"
  suffixes :: "string list"

definition perform :: "disk_op \<Rightarrow> io \<Rightarrow> io" where
  "perform op w = w\<lparr>io_disk := execute op (io_disk w), trace := trace w @ [op]\<rparr>"

definition outcomeOf :: "io \<Rightarrow> outcome" where
  "outcomeOf w = (case script w of [] \<Rightarrow> Done | r # rs \<Rightarrow> r)"

definition failure :: "io \<Rightarrow> string option" where
  "failure w = (case outcomeOf w of Done \<Rightarrow> None | Fails e \<Rightarrow> Some e | Short n e \<Rightarrow> Some e)"

definition consume :: "io \<Rightarrow> io" where
  "consume w = w\<lparr>script := tl (script w)\<rparr>"

text \<open>A call that performs an operation, or fails without an effect.\<close>

definition attempt :: "disk_op option \<Rightarrow> io \<Rightarrow> string option \<times> io" where
  "attempt op w =
     (case failure w of
        Some e \<Rightarrow> (Some e, consume w)
      | None \<Rightarrow> (None, case op of None \<Rightarrow> consume w | Some x \<Rightarrow> perform x (consume w)))"

definition readFile :: "path \<Rightarrow> io \<Rightarrow> (state_error + string) \<times> io" where
  "readFile p w =
     (case entries (io_disk w) p of
        None \<Rightarrow> (Inl NotExist, w)
      | Some i \<Rightarrow>
          (case failure w of
             Some e \<Rightarrow> (Inl (ReadFailed e), consume w)
           | None \<Rightarrow> (Inr (content (inodes (io_disk w) ! i)), consume w)))"

text \<open>A write of a non-empty text; a failing one may leave the first \<open>n\<close> bytes.\<close>

definition writeFile :: "nat \<Rightarrow> string \<Rightarrow> io \<Rightarrow> string option \<times> io" where
  "writeFile i data w =
     (case outcomeOf w of
        Done \<Rightarrow> (None, perform (WriteData i data) (consume w))
      | Fails e \<Rightarrow> (Some e, consume w)
      | Short n e \<Rightarrow> (Some e, perform (WriteData i (take n data)) (consume w)))"

text \<open>\<open>os.CreateTemp\<close>: the first name not in use; the file is created exclusively.\<close>

definition tempName :: "path \<Rightarrow> string \<Rightarrow> path" where
  "tempName target random = (fst target, ''.'' @ snd target @ ''.tmp-'' @ random)"

definition createTemp :: "path \<Rightarrow> io \<Rightarrow> (string + path \<times> nat) \<times> io" where
  "createTemp target w =
     (case find (\<lambda>s. entries (io_disk w) (tempName target s) = None) (suffixes w) of
        None \<Rightarrow> (Inl ''file exists'', w)
      | Some s \<Rightarrow>
          (case failure w of
             Some e \<Rightarrow> (Inl e, consume w)
           | None \<Rightarrow> (Inr (tempName target s, length (inodes (io_disk w))),
                       perform (CreateFile (tempName target s)) (consume w))))"

text \<open>\<open>os.Remove\<close>; \<open>None\<close> also when the file does not exist, which the caller ignores.\<close>

definition removeIfThere :: "path \<Rightarrow> io \<Rightarrow> string option \<times> io" where
  "removeIfThere p w =
     (if entries (io_disk w) p = None then (None, w) else attempt (Some (RemoveFile p)) w)"

section \<open>Atomic replacement\<close>

datatype replace_error =
    CreateError string | ChmodError string | EncodeError string | WriteError string | FlushError string
  | SyncError string | CloseError string | RenameError string | SyncDirError string | RemoveError string

text \<open>What is written: a copy of bytes, or an encoded document (or the error of encoding it).\<close>

datatype payload = RawBytes string | Encoded "string + string"

fun payloadBytes :: "payload \<Rightarrow> string + string" where
  "payloadBytes (RawBytes data) = Inr data"
| "payloadBytes (Encoded r) = r"

fun writeErrorOf :: "payload \<Rightarrow> string \<Rightarrow> replace_error" where
  "writeErrorOf (RawBytes data) e = WriteError e"
| "writeErrorOf (Encoded r) e = EncodeError e"

text \<open>
  The buffered writer: a text longer than its 4096 bytes goes to the file at once, a shorter one
  when the buffer is flushed.
\<close>

definition bufferSize :: nat where "bufferSize = 4096"

definition writeStep :: "nat \<Rightarrow> payload \<Rightarrow> io \<Rightarrow> replace_error option \<times> io" where
  "writeStep i body w =
     (case payloadBytes body of
        Inl e \<Rightarrow> (Some (writeErrorOf body e), w)
      | Inr data \<Rightarrow>
          if bufferSize < length data
          then (case writeFile i data w of (r, w') \<Rightarrow> (map_option (writeErrorOf body) r, w'))
          else (None, w))"

definition flushStep :: "nat \<Rightarrow> payload \<Rightarrow> io \<Rightarrow> replace_error option \<times> io" where
  "flushStep i body w =
     (case payloadBytes body of
        Inl e \<Rightarrow> (None, w)
      | Inr data \<Rightarrow>
          if data \<noteq> [] \<and> length data \<le> bufferSize
          then (case writeFile i data w of (r, w') \<Rightarrow> (map_option FlushError r, w'))
          else (None, w))"

definition labelled :: "(string \<Rightarrow> replace_error) \<Rightarrow> disk_op option \<Rightarrow> io \<Rightarrow> replace_error option \<times> io" where
  "labelled label op w = (case attempt op w of (r, w') \<Rightarrow> (map_option label r, w'))"

text \<open>Steps in order, up to the first error.\<close>

fun runSteps :: "(io \<Rightarrow> replace_error option \<times> io) list \<Rightarrow> io \<Rightarrow> replace_error option \<times> io" where
  "runSteps [] w = (None, w)"
| "runSteps (f # fs) w = (case f w of (None, w') \<Rightarrow> runSteps fs w' | (Some e, w') \<Rightarrow> (Some e, w'))"

text \<open>
  The file is prepared, closed and renamed over the target. Whatever happens, the deferred
  function closes it if it is still open and removes what the temporary name still denotes.
  The result is the list of the joined errors.
\<close>

definition prepare :: "nat \<Rightarrow> payload \<Rightarrow> io \<Rightarrow> replace_error option \<times> io" where
  "prepare i body =
     runSteps [labelled ChmodError None, writeStep i body, flushStep i body, labelled SyncError (Some (SyncFile i))]"

definition install :: "path \<Rightarrow> path \<Rightarrow> io \<Rightarrow> replace_error option \<times> io" where
  "install tmp target =
     runSteps [labelled CloseError None, labelled RenameError (Some (RenameFile tmp target)),
       labelled SyncDirError (Some (SyncDir (fst target)))]"

definition atomicReplace :: "path \<Rightarrow> payload \<Rightarrow> io \<Rightarrow> replace_error list \<times> io" where
  "atomicReplace target body w =
     (case createTemp target w of
        (Inl e, w1) \<Rightarrow> ([CreateError e], w1)
      | (Inr (tmp, i), w1) \<Rightarrow>
          (case prepare i body w1 of
             (Some e, w2) \<Rightarrow>
               (case labelled CloseError None w2 of
                  (closeErr, w3) \<Rightarrow>
                    (case removeIfThere tmp w3 of
                       (removeErr, w4) \<Rightarrow>
                         (e # (case closeErr of None \<Rightarrow> [] | Some c \<Rightarrow> [c]) @
                              (case removeErr of None \<Rightarrow> [] | Some r \<Rightarrow> [RemoveError r]), w4)))
           | (None, w2) \<Rightarrow>
               (case install tmp target w2 of
                  (err, w3) \<Rightarrow>
                    (case removeIfThere tmp w3 of
                       (removeErr, w4) \<Rightarrow>
                         ((case err of None \<Rightarrow> [] | Some e \<Rightarrow> [e]) @
                          (case removeErr of None \<Rightarrow> [] | Some r \<Rightarrow> [RemoveError r]), w4)))))"

section \<open>Saving\<close>

datatype save_error =
  NilState | BackupFailed "replace_error list" | ReadBefore state_error | ReplaceFailed "replace_error list"

definition documentOf :: "savedState \<Rightarrow> stateDocument" where
  "documentOf state =
     \<lparr>doc_Version = currentStateVersion, doc_Alarms = Alarms state, doc_Blocks = Blocks state,
      doc_NodesDown = NodesDown state\<rparr>"

definition replaceState :: "json_codec \<Rightarrow> path \<Rightarrow> stateDocument \<Rightarrow> io \<Rightarrow> save_error option \<times> io" where
  "replaceState codec p document w =
     (case atomicReplace p (Encoded (encodeDocument codec document)) w of
        (errs, w') \<Rightarrow> (if errs = [] then None else Some (ReplaceFailed errs), w'))"

definition writeStateAtomic :: "json_codec \<Rightarrow> path \<Rightarrow> savedState option \<Rightarrow> io \<Rightarrow> save_error option \<times> io" where
  "writeStateAtomic codec p st w =
     (case st of
        None \<Rightarrow> (Some NilState, w)
      | Some state \<Rightarrow>
          (case readFile p w of
             (Inr current, w1) \<Rightarrow>
               (case decodeState codec current of
                  Inr _ \<Rightarrow>
                    (case atomicReplace (backupPath p) (RawBytes current) w1 of
                       (errs, w2) \<Rightarrow>
                         if errs \<noteq> [] then (Some (BackupFailed errs), w2)
                         else replaceState codec p (documentOf state) w2)
                | Inl _ \<Rightarrow> replaceState codec p (documentOf state) w1)
           | (Inl e, w1) \<Rightarrow>
               if e = NotExist then replaceState codec p (documentOf state) w1
               else (Some (ReadBefore e), w1)))"

section \<open>After a power failure\<close>

text \<open>What a path can hold then, and the reader of a disk on which the choices have been made.\<close>

datatype found = Missing | Holds string | Garbage

definition foundOf :: "disk \<Rightarrow> nat option \<Rightarrow> found" where
  "foundOf d e =
     (case e of
        None \<Rightarrow> Missing
      | Some i \<Rightarrow> if synced (inodes d ! i) then Holds (content (inodes d ! i)) else Garbage)"

definition afterLoss :: "disk \<Rightarrow> path \<Rightarrow> found set" where
  "afterLoss d p = foundOf d ` set (maybe d p)"

fun readerOf :: "(path \<Rightarrow> found) \<Rightarrow> path \<Rightarrow> state_error + string" where
  "readerOf pick p = (case pick p of Missing \<Rightarrow> Inl NotExist | Holds s \<Rightarrow> Inr s | Garbage \<Rightarrow> Inl (ReadFailed ''garbage''))"

text \<open>The disk when the process stops after the first \<open>n\<close> calls that reached it.\<close>

definition crashAfter :: "nat \<Rightarrow> disk \<Rightarrow> disk_op list \<Rightarrow> disk" where
  "crashAfter n d ops = fold execute (take n ops) d"

definition disk_wf :: "disk \<Rightarrow> bool" where
  "disk_wf d \<longleftrightarrow> (\<forall>p. entries d p \<in> set (maybe d p) \<and> (\<forall>i. Some i \<in> set (maybe d p) \<longrightarrow> i < length (inodes d)))"

section \<open>Equal up to the order of map entries\<close>

text \<open>
  A map that went through JSON has the same entries in another order; of an alarm cache only the
  exported fields go through.
\<close>

definition same_map :: "('k, 'v) gmap \<Rightarrow> ('k, 'v) gmap \<Rightarrow> bool" where
  "same_map m m' \<longleftrightarrow> (m = NilMap \<longleftrightarrow> m' = NilMap) \<and> m_lookup m = m_lookup m' \<and> (m_wf m \<longrightarrow> m_wf m')"

definition same_nested :: "('k, ('l, 'v) gmap) gmap \<Rightarrow> ('k, ('l, 'v) gmap) gmap \<Rightarrow> bool" where
  "same_nested m m' \<longleftrightarrow> (m = NilMap \<longleftrightarrow> m' = NilMap) \<and> dom (m_lookup m) = dom (m_lookup m') \<and>
     (\<forall>k. same_map (m_get NilMap m k) (m_get NilMap m' k)) \<and> (m_wf m \<longrightarrow> m_wf m')"

definition same_alarms :: "alarmCache \<Rightarrow> alarmCache \<Rightarrow> bool" where
  "same_alarms a a' \<longleftrightarrow> (\<forall>d. same_map (sentMap d a) (sentMap d a')) \<and> same_nested (AllAlarms a) (AllAlarms a')"

definition same_document :: "stateDocument \<Rightarrow> stateDocument \<Rightarrow> bool" where
  "same_document doc doc' \<longleftrightarrow> doc_Version doc = doc_Version doc' \<and>
     (case (doc_Alarms doc, doc_Alarms doc') of
        (Some a, Some a') \<Rightarrow> same_alarms a a' | (None, None) \<Rightarrow> True | _ \<Rightarrow> False) \<and>
     same_map (doc_Blocks doc) (doc_Blocks doc') \<and> same_nested (doc_NodesDown doc) (doc_NodesDown doc')"

text \<open>What the program relies on of the codec, for the document it writes.\<close>

definition codec_faithful :: "json_codec \<Rightarrow> stateDocument \<Rightarrow> bool" where
  "codec_faithful codec doc \<longleftrightarrow>
     (\<exists>text doc' rest. encodeDocument codec doc = Inr text \<and> trimSpaceLeft text \<noteq> [] \<and>
        decodeDocument codec text = Inr (Some doc', rest) \<and> decodeTrailing codec rest = Eof \<and>
        same_document doc doc')"

section \<open>Crash points\<close>

text \<open>\<open>w'\<close> comes after \<open>w\<close>, and \<open>Q\<close> holds of the disk at every crash point in between.\<close>

definition through :: "(disk \<Rightarrow> bool) \<Rightarrow> io \<Rightarrow> io \<Rightarrow> bool" where
  "through Q w w' \<longleftrightarrow>
     (\<exists>ops. trace w' = trace w @ ops \<and> io_disk w' = fold execute ops (io_disk w) \<and>
        (\<forall>n. Q (crashAfter n (io_disk w) ops)))"

definition visible :: "disk \<Rightarrow> path \<Rightarrow> string option" where
  "visible d p = map_option (\<lambda>i. content (inodes d ! i)) (entries d p)"

text \<open>The disk \<open>d\<close> while a file \<open>tmp\<close> with inode \<open>nd\<close> is being prepared.\<close>

definition workDisk :: "disk \<Rightarrow> path \<Rightarrow> inode \<Rightarrow> disk" where
  "workDisk d tmp nd =
     d\<lparr>inodes := inodes d @ [nd], entries := (entries d)(tmp := Some (length (inodes d))),
       maybe := (maybe d)(tmp := Some (length (inodes d)) # maybe d tmp)\<rparr>"

text \<open>What a replacement of \<open>target\<close> by one of the texts \<open>D\<close> may do to the disk, up to its temporary files.\<close>

definition replacing :: "path \<Rightarrow> string set \<Rightarrow> disk \<Rightarrow> disk \<Rightarrow> bool" where
  "replacing target D d0 d \<longleftrightarrow> disk_wf d \<and>
     (\<forall>p. p \<notin> range (tempName target) \<longrightarrow> p \<noteq> target \<longrightarrow> afterLoss d p \<subseteq> afterLoss d0 p \<and> visible d p = visible d0 p) \<and>
     afterLoss d target \<subseteq> Holds ` D \<union> afterLoss d0 target \<and>
     visible d target \<in> insert (visible d0 target) (Some ` D)"

lemma io_frame [simp]:
  "io_disk (consume w) = io_disk w" "trace (consume w) = trace w" "suffixes (consume w) = suffixes w"
  "io_disk (perform op w) = execute op (io_disk w)" "trace (perform op w) = trace w @ [op]"
  by (simp_all add: consume_def perform_def)

lemma through_same: "Q (io_disk w) \<Longrightarrow> io_disk w' = io_disk w \<Longrightarrow> trace w' = trace w \<Longrightarrow> through Q w w'"
  by (auto simp: through_def crashAfter_def)

lemma through_perform:
  "Q (io_disk w) \<Longrightarrow> Q (execute op (io_disk w)) \<Longrightarrow> through Q w (perform op (consume w))"
  by (auto simp: through_def crashAfter_def take_Cons' intro!: exI [of _ "[op]"])

lemma through_trans: "through Q w w1 \<Longrightarrow> through Q w1 w2 \<Longrightarrow> through Q w w2"
proof -
  assume "through Q w w1" "through Q w1 w2"
  then obtain a b where a: "trace w1 = trace w @ a" "io_disk w1 = fold execute a (io_disk w)"
      "\<And>n. Q (crashAfter n (io_disk w) a)"
    and b: "trace w2 = trace w1 @ b" "io_disk w2 = fold execute b (io_disk w1)" "\<And>n. Q (crashAfter n (io_disk w1) b)"
    unfolding through_def by blast
  have "Q (crashAfter n (io_disk w) (a @ b))" for n
  proof (cases "n \<le> length a")
    case True
    with a(3) [of n] show ?thesis by (simp add: crashAfter_def)
  next
    case False
    with b(3) [of "n - length a"] show ?thesis by (simp add: crashAfter_def a(2))
  qed
  with a b show ?thesis unfolding through_def by (intro exI [of _ "a @ b"]) simp
qed

lemma through_mono: "through Q w w' \<Longrightarrow> (\<And>d. Q d \<Longrightarrow> Q' d) \<Longrightarrow> through Q' w w'"
  unfolding through_def by blast

lemma through_end: "through Q w w' \<Longrightarrow> Q (io_disk w')"
  unfolding through_def crashAfter_def by (metis order_refl take_all)

section \<open>The disk during a replacement\<close>

lemma execute_work [simp]:
  "execute (CreateFile tmp) d = workDisk d tmp \<lparr>content = '''', synced = False\<rparr>"
  "execute (WriteData (length (inodes d)) s) (workDisk d tmp nd) = workDisk d tmp \<lparr>content = content nd @ s, synced = False\<rparr>"
  "execute (SyncFile (length (inodes d))) (workDisk d tmp nd) = workDisk d tmp (nd\<lparr>synced := True\<rparr>)"
  by (simp_all add: workDisk_def setEntry_def fun_eq_iff)

declare execute.simps(1-3) [simp del]

lemma workDisk_simps [simp]:
  "entries (workDisk d tmp nd) p = (if p = tmp then Some (length (inodes d)) else entries d p)"
  "maybe (workDisk d tmp nd) p = (if p = tmp then Some (length (inodes d)) # maybe d tmp else maybe d p)"
  "inodes (workDisk d tmp nd) = inodes d @ [nd]"
  by (simp_all add: workDisk_def)

lemma setEntry_simps [simp]:
  "entries (setEntry p v d) q = (if q = p then v else entries d q)"
  "maybe (setEntry p v d) q = (if q = p then v # maybe d p else maybe d q)"
  "inodes (setEntry p v d) = inodes d"
  by (simp_all add: setEntry_def)

lemma tempName_neq [simp]: "tempName target s \<noteq> target" "target \<noteq> tempName target s"
  "tempName p s \<noteq> backupPath p" "tempName (backupPath p) s \<noteq> p"
  by (auto simp: tempName_def backupPath_def stateBackupSuffix_def prod_eq_iff dest: arg_cong [where f = length])

lemma foundOf_append: "(\<And>i. e = Some i \<Longrightarrow> i < length (inodes d)) \<Longrightarrow> inodes d' = inodes d @ xs \<Longrightarrow>
    foundOf d' e = foundOf d e"
  by (cases e) (simp_all add: foundOf_def nth_append)

lemma disk_wf_entry: "disk_wf d \<Longrightarrow> entries d p = Some i \<Longrightarrow> i < length (inodes d)"
  unfolding disk_wf_def by metis

lemma disk_wf_maybe: "disk_wf d \<Longrightarrow> Some i \<in> set (maybe d p) \<Longrightarrow> i < length (inodes d)"
  unfolding disk_wf_def by blast

lemma afterLoss_append:
  assumes "disk_wf d" "inodes d' = inodes d @ xs" "set (maybe d' p) \<subseteq> set (maybe d p)"
  shows "afterLoss d' p \<subseteq> afterLoss d p"
proof
  fix f assume "f \<in> afterLoss d' p"
  then obtain e where e: "e \<in> set (maybe d p)" "f = foundOf d' e" using assms(3) by (auto simp: afterLoss_def)
  moreover have "foundOf d' e = foundOf d e"
    using assms(1,2) e(1) by (intro foundOf_append) (auto dest: disk_wf_maybe)
  ultimately show "f \<in> afterLoss d p" by (auto simp: afterLoss_def)
qed

lemma visible_append:
  "disk_wf d \<Longrightarrow> inodes d' = inodes d @ xs \<Longrightarrow> entries d' p = entries d p \<Longrightarrow> visible d' p = visible d p"
  by (cases "entries d p") (auto simp: visible_def nth_append dest: disk_wf_entry)

text \<open>A disk that differs from \<open>d0\<close> in new inodes and in the entry of a temporary file only.\<close>

lemma replacing_aside:
  assumes "disk_wf d0" "inodes d = inodes d0 @ [nd]" "tmp \<in> range (tempName target)"
    "\<And>p. p \<noteq> tmp \<Longrightarrow> entries d p = entries d0 p \<and> maybe d p = maybe d0 p" "disk_wf d"
  shows "replacing target D d0 d"
proof -
  have "afterLoss d p \<subseteq> afterLoss d0 p \<and> visible d p = visible d0 p" if "p \<noteq> tmp" for p
    using assms that afterLoss_append [OF assms(1,2), of p] visible_append [OF assms(1,2), of p] by simp
  moreover from this [of target] have "afterLoss d target \<subseteq> afterLoss d0 target \<and> visible d target = visible d0 target"
    using assms(3) by auto
  ultimately show ?thesis using assms(3,5) unfolding replacing_def by (metis insertI1 le_supI2)
qed



lemma disk_wf_work: "disk_wf d \<Longrightarrow> disk_wf (workDisk d tmp nd)"
  unfolding disk_wf_def by (auto simp: less_SucI)

lemma disk_wf_setEntry: "disk_wf d \<Longrightarrow> \<forall>i. v = Some i \<longrightarrow> i < length (inodes d) \<Longrightarrow> disk_wf (setEntry p v d)"
  unfolding disk_wf_def by auto

lemma disk_wf_rename: "disk_wf d \<Longrightarrow> disk_wf (execute (RenameFile p q) d)"
  using disk_wf_entry [of d p] by (auto intro!: disk_wf_setEntry)

lemma disk_wf_syncDir: "disk_wf d \<Longrightarrow> disk_wf (execute (SyncDir dir) d)"
  unfolding disk_wf_def by auto metis

lemma replacing_work: "disk_wf d \<Longrightarrow> tmp \<in> range (tempName target) \<Longrightarrow> replacing target D d (workDisk d tmp nd)"
  by (rule replacing_aside [where tmp = tmp and nd = nd]) (simp_all add: disk_wf_work)

lemma replacing_removed:
  "disk_wf d \<Longrightarrow> tmp \<in> range (tempName target) \<Longrightarrow>
     replacing target D d (execute (RemoveFile tmp) (workDisk d tmp nd))"
  by (rule replacing_aside [where tmp = tmp and nd = nd])
    (simp_all add: disk_wf_work disk_wf_setEntry)

lemma replacing_self: "disk_wf d \<Longrightarrow> replacing target D d d"
  by (auto simp: replacing_def)

text \<open>The rename makes the prepared file visible; it is synced, so a power failure cannot damage it.\<close>

definition installed :: "disk \<Rightarrow> path \<Rightarrow> path \<Rightarrow> string \<Rightarrow> disk" where
  "installed d tmp target data =
     execute (RenameFile tmp target) (workDisk d tmp \<lparr>content = data, synced = True\<rparr>)"

lemma installed_simps [simp]:
  "entries (installed d tmp target data) p =
     (if p = target then Some (length (inodes d)) else if p = tmp then None else entries d p)"
  "inodes (installed d tmp target data) = inodes d @ [\<lparr>content = data, synced = True\<rparr>]"
  "tmp \<noteq> target \<Longrightarrow> maybe (installed d tmp target data) p =
     (if p = target then Some (length (inodes d)) # maybe d p
      else if p = tmp then None # Some (length (inodes d)) # maybe d p else maybe d p)"
  by (auto simp: installed_def)

lemma replacing_installed:
  assumes "disk_wf d" "tmp \<in> range (tempName target)" "inodes d' = inodes (installed d tmp target data)"
    "entries d' = entries (installed d tmp target data)"
    "\<And>p. set (maybe d' p) \<subseteq> set (maybe (installed d tmp target data) p)" "disk_wf d'" "data \<in> D"
  shows "replacing target D d d' \<and> visible d' target = Some data"
proof -
  have neq: "tmp \<noteq> target" using assms(2) by auto
  have other: "afterLoss d' p \<subseteq> afterLoss d p \<and> visible d' p = visible d p" if "p \<noteq> tmp" "p \<noteq> target" for p
    using assms that neq afterLoss_append [OF assms(1), of d' _ p] visible_append [OF assms(1), of d' _ p]
    by (metis installed_simps)
  have "afterLoss d' target \<subseteq> insert (Holds data) (afterLoss d target)"
  proof
    fix f assume "f \<in> afterLoss d' target"
    then obtain e where e: "e \<in> insert (Some (length (inodes d))) (set (maybe d target))" "f = foundOf d' e"
      using assms(5) [of target] neq by (auto simp: afterLoss_def)
    show "f \<in> insert (Holds data) (afterLoss d target)"
    proof (cases "e = Some (length (inodes d))")
      case True
      then show ?thesis using e assms(3) by (simp add: foundOf_def)
    next
      case False
      then have "foundOf d' e = foundOf d e"
        using assms(1,3) e(1) by (intro foundOf_append) (auto dest: disk_wf_maybe)
      with False e show ?thesis by (auto simp: afterLoss_def)
    qed
  qed
  moreover have "visible d' target = Some data" using assms(3,4) by (simp add: visible_def)
  ultimately show ?thesis using other assms(2,6,7) unfolding replacing_def by blast
qed

section \<open>The steps of a replacement\<close>

lemma attempt_cases:
  assumes "attempt op w = (r, w')"
  obtains (failed) e where "r = Some e" "io_disk w' = io_disk w" "trace w' = trace w"
  | (skipped) "r = None" "op = None" "io_disk w' = io_disk w" "trace w' = trace w"
  | (performed) x where "r = None" "op = Some x" "w' = perform x (consume w)"
proof (cases "failure w")
  case None
  with assms that(2,3) show thesis by (cases op) (auto simp: attempt_def)
next
  case (Some e)
  with assms have "r = Some e" "w' = consume w" by (simp_all add: attempt_def)
  then show thesis using that(1) by simp
qed

lemma labelled_cases:
  assumes "labelled label op w = (r, w')"
  obtains (failed) e where "r = Some (label e)" "io_disk w' = io_disk w" "trace w' = trace w"
  | (skipped) "r = None" "op = None" "io_disk w' = io_disk w" "trace w' = trace w"
  | (performed) x where "r = None" "op = Some x" "w' = perform x (consume w)"
proof -
  obtain r0 where "attempt op w = (r0, w')" "r = map_option label r0"
    using assms by (auto simp: labelled_def split: prod.splits)
  then show thesis using that by (elim attempt_cases) auto
qed

lemma writeFile_work:
  assumes "writeFile (length (inodes d)) data w = (r, w')" "io_disk w = workDisk d tmp \<lparr>content = '''', synced = False\<rparr>"
    and Q: "\<And>nd. Q (workDisk d tmp nd)"
  shows "through Q w w' \<and> (\<exists>s. io_disk w' = workDisk d tmp \<lparr>content = s, synced = False\<rparr> \<and> (r = None \<longrightarrow> s = data))"
proof -
  have "\<exists>s. io_disk w' = workDisk d tmp \<lparr>content = s, synced = False\<rparr> \<and> (r = None \<longrightarrow> s = data)"
    using assms(1,2) by (auto simp: writeFile_def split: outcome.splits)
  moreover have "through Q w w'"
    using assms(1) by (auto simp: writeFile_def assms(2) Q intro!: through_same through_perform split: outcome.splits)
  ultimately show ?thesis by blast
qed

text \<open>Writing and flushing put the whole payload into the file, or report an error.\<close>

lemma payload_written:
  assumes "runSteps [writeStep (length (inodes d)) body, flushStep (length (inodes d)) body] w = (r, w')"
    "io_disk w = workDisk d tmp \<lparr>content = '''', synced = False\<rparr>" and Q: "\<And>nd. Q (workDisk d tmp nd)"
  shows "through Q w w' \<and> (\<exists>s. io_disk w' = workDisk d tmp \<lparr>content = s, synced = False\<rparr> \<and>
    (r = None \<longrightarrow> payloadBytes body = Inr s))"
proof (cases "payloadBytes body")
  case (Inl e)
  then show ?thesis using assms by (auto simp: writeStep_def intro!: through_same)
next
  case (Inr data)
  consider "data = []" | "data \<noteq> []" "length data \<le> bufferSize" | "bufferSize < length data"
    by fastforce
  then show ?thesis
  proof cases
    case 1
    then show ?thesis using assms Inr by (auto simp: writeStep_def flushStep_def bufferSize_def intro!: through_same)
  next
    case 2
    obtain r0 where r0: "writeFile (length (inodes d)) data w = (r0, w')" "r = None \<longleftrightarrow> r0 = None"
      using assms(1) Inr 2 by (auto simp: writeStep_def flushStep_def split: prod.splits option.splits)
    from writeFile_work [OF r0(1) assms(2), of Q, OF Q] r0(2) Inr show ?thesis by auto
  next
    case 3
    obtain r0 where r0: "writeFile (length (inodes d)) data w = (r0, w')" "r = None \<longleftrightarrow> r0 = None"
      using assms(1) Inr 3 by (auto simp: writeStep_def flushStep_def split: prod.splits option.splits)
    from writeFile_work [OF r0(1) assms(2), of Q, OF Q] r0(2) Inr show ?thesis by auto
  qed
qed

lemma runSteps_append:
  "runSteps (fs @ gs) w = (case runSteps fs w of (None, w') \<Rightarrow> runSteps gs w' | (Some e, w') \<Rightarrow> (Some e, w'))"
  by (induction fs arbitrary: w) (auto split: prod.splits option.splits)

lemma prepare_effect:
  assumes "prepare (length (inodes d)) body w = (r, w')"
    "io_disk w = workDisk d tmp \<lparr>content = '''', synced = False\<rparr>" and Q: "\<And>nd. Q (workDisk d tmp nd)"
  shows "through Q w w' \<and> (\<exists>nd. io_disk w' = workDisk d tmp nd \<and>
    (r = None \<longrightarrow> payloadBytes body = Inr (content nd) \<and> synced nd))"
proof -
  obtain r1 w1 where chmod: "labelled ChmodError None w = (r1, w1)" by force
  then have w1: "io_disk w1 = io_disk w" "trace w1 = trace w" by (elim labelled_cases; simp)+
  have t1: "through Q w w1" using w1 assms(2) Q by (intro through_same) simp_all
  show ?thesis
  proof (cases r1)
    case (Some e)
    then show ?thesis using assms chmod t1 w1 by (auto simp: prepare_def)
  next
    case None
    obtain r2 w2 where body: "runSteps [writeStep (length (inodes d)) body, flushStep (length (inodes d)) body] w1 = (r2, w2)"
      by force
    with payload_written [OF this, of tmp Q] w1 assms(2) Q obtain s where s: "through Q w1 w2"
      "io_disk w2 = workDisk d tmp \<lparr>content = s, synced = False\<rparr>" "r2 = None \<longrightarrow> payloadBytes body = Inr s"
      by auto
    have run: "(r, w') = (case r2 of None \<Rightarrow> labelled SyncError (Some (SyncFile (length (inodes d)))) w2 | Some e \<Rightarrow> (Some e, w2))"
      using assms(1) chmod None body
      by (auto simp: prepare_def runSteps_append [of "[_, _]" "[_]", simplified] split: prod.splits option.splits)
    have t2: "through Q w w2" using t1 s(1) by (rule through_trans)
    show ?thesis
    proof (cases r2)
      case (Some e)
      with run s t2 show ?thesis by auto
    next
      case None
      with run have sync: "labelled SyncError (Some (SyncFile (length (inodes d)))) w2 = (r, w')" by simp
      then show ?thesis
      proof (cases rule: labelled_cases)
        case (failed e)
        with s t2 Q show ?thesis using through_trans [OF t2 through_same, of w'] by auto
      next
        case (performed x)
        with s Q have "through Q w2 w'" by (auto intro!: through_perform)
        with performed s None t2 show ?thesis using through_trans [OF t2, of w'] by auto
      qed simp
    qed
  qed
qed

text \<open>
  Closing, renaming and syncing the directory: the target keeps its old value or gets the new
  one; without an error it has the new one for good.
\<close>

lemma install_effect:
  assumes "install tmp target w = (r, w')" "io_disk w = workDisk d tmp \<lparr>content = data, synced = True\<rparr>"
    and wf: "disk_wf d" and tmp: "tmp \<in> range (tempName target)" and D: "data \<in> D"
  shows "through (replacing target D d) w w' \<and>
    (io_disk w' = io_disk w \<and> r \<noteq> None \<or> io_disk w' = installed d tmp target data \<and> r \<noteq> None \<or>
     io_disk w' = execute (SyncDir (fst target)) (installed d tmp target data) \<and> r = None)"
proof -
  define Q where "Q = replacing target D d"
  have inst: "disk_wf (installed d tmp target data)"
    using disk_wf_work [OF wf] by (simp add: installed_def del: execute.simps add: disk_wf_rename)
  have Q: "Q (io_disk w)" "Q (installed d tmp target data)"
    "Q (execute (SyncDir (fst target)) (installed d tmp target data))"
    using replacing_work [OF wf tmp] replacing_installed [OF wf tmp refl refl _ inst D]
      replacing_installed [OF wf tmp _ _ _ disk_wf_syncDir [OF inst] D, of "fst target"] inst
    by (auto simp: Q_def assms(2) disk_wf_def)
  obtain r1 w1 where close: "labelled CloseError None w = (r1, w1)" by force
  then have w1: "io_disk w1 = io_disk w" "trace w1 = trace w" by (elim labelled_cases; simp)+
  have t1: "through Q w w1" using w1 Q by (intro through_same) simp_all
  obtain r2 w2 where ren: "labelled RenameError (Some (RenameFile tmp target)) w1 = (r2, w2)" by force
  obtain r3 w3 where sync: "labelled SyncDirError (Some (SyncDir (fst target))) w2 = (r3, w3)" by force
  consider "r1 \<noteq> None" "r = r1" "w' = w1" | "r1 = None" "r2 \<noteq> None" "r = r2" "w' = w2" | "r1 = None" "r2 = None" "r = r3" "w' = w3"
    using assms(1) close ren sync by (auto simp: install_def split: option.splits prod.splits)
  then have "through Q w w' \<and> (io_disk w' = io_disk w \<and> r \<noteq> None \<or> io_disk w' = installed d tmp target data \<and> r \<noteq> None \<or>
     io_disk w' = execute (SyncDir (fst target)) (installed d tmp target data) \<and> r = None)"
  proof cases
    case 1
    then show ?thesis using t1 w1 by simp
  next
    case 2
    from ren 2 w1 have "io_disk w2 = io_disk w" "trace w2 = trace w" by (elim labelled_cases; simp)+
    then show ?thesis using 2 Q by (auto intro!: through_same)
  next
    case 3
    from ren 3 have w2: "w2 = perform (RenameFile tmp target) (consume w1)" by (elim labelled_cases; simp)
    then have d2: "io_disk w2 = installed d tmp target data" using w1 assms(2) by (simp add: installed_def)
    then have t2: "through Q w w2"
      using through_trans [OF t1, of w2] through_perform [of Q w1 "RenameFile tmp target"] Q w1 w2 by simp
    from sync show ?thesis
    proof (cases rule: labelled_cases)
      case (failed e)
      then show ?thesis using 3 d2 t2 Q through_trans [OF t2 through_same, of w3] by simp
    next
      case (performed x)
      then show ?thesis using 3 d2 t2 Q through_trans [OF t2, of w3] through_perform [of Q w2 x] by simp
    qed simp
  qed
  then show ?thesis by (simp only: Q_def)
qed

lemma removeIfThere_cases:
  assumes "removeIfThere p w = (r, w')"
  obtains (gone) "r = None" "w' = w" "entries (io_disk w) p = None"
  | (failed) e where "r = Some e" "io_disk w' = io_disk w" "trace w' = trace w"
  | (removed) "r = None" "w' = perform (RemoveFile p) (consume w)" "entries (io_disk w) p \<noteq> None"
proof (cases "entries (io_disk w) p = None")
  case True
  with assms that(1) show thesis by (simp add: removeIfThere_def)
next
  case False
  with assms have "attempt (Some (RemoveFile p)) w = (r, w')" by (simp add: removeIfThere_def)
  then show thesis using that(2,3) False by (elim attempt_cases) auto
qed

definition payloads :: "payload \<Rightarrow> string set" where
  "payloads body = {data. payloadBytes body = Inr data}"

text \<open>Files with a temporary name left behind by the replacement.\<close>

definition tidy :: "path \<Rightarrow> disk \<Rightarrow> disk \<Rightarrow> bool" where
  "tidy target d0 d \<longleftrightarrow> (\<forall>s. entries d (tempName target s) \<noteq> None \<longrightarrow> entries d0 (tempName target s) \<noteq> None)"

lemma remove_effect:
  assumes "removeIfThere tmp w = (r, w')" "tmp \<in> range (tempName target)"
    and Q: "Q (io_disk w)" "entries (io_disk w) tmp \<noteq> None \<Longrightarrow> Q (execute (RemoveFile tmp) (io_disk w))"
    and other: "\<And>p. p \<noteq> tmp \<Longrightarrow> p \<noteq> target \<Longrightarrow> entries (io_disk w) p = entries d p"
  shows "through Q w w' \<and> (r = None \<longrightarrow> tidy target d (io_disk w'))"
  using assms(1)
proof (cases rule: removeIfThere_cases)
  case gone
  have "entries (io_disk w) (tempName target s) \<noteq> None \<longrightarrow> entries d (tempName target s) \<noteq> None" for s
    using other [of "tempName target s"] gone(3) by (cases "tempName target s = tmp") simp_all
  with gone Q show ?thesis by (auto simp: tidy_def intro: through_same)
next
  case (failed e)
  with Q show ?thesis by (auto intro: through_same)
next
  case removed
  have "entries (io_disk w') (tempName target s) \<noteq> None \<longrightarrow> entries d (tempName target s) \<noteq> None" for s
    using other [of "tempName target s"] removed(2) by (cases "tempName target s = tmp") simp_all
  with removed Q show ?thesis by (auto simp: tidy_def intro: through_perform)
qed

lemma createTemp_cases:
  assumes "createTemp target w = (r, w')"
  obtains (failed) e where "r = Inl e" "io_disk w' = io_disk w" "trace w' = trace w"
  | (created) tmp where "r = Inr (tmp, length (inodes (io_disk w)))" "tmp \<in> range (tempName target)"
      "entries (io_disk w) tmp = None" "w' = perform (CreateFile tmp) (consume w)"
proof (cases "find (\<lambda>s. entries (io_disk w) (tempName target s) = None) (suffixes w)")
  case None
  with assms have "r = Inl ''file exists''" "w' = w" by (simp_all add: createTemp_def)
  with that(1) show thesis by simp
next
  case (Some s)
  then have "entries (io_disk w) (tempName target s) = None" by (auto simp: find_Some_iff)
  with Some assms that(1) that(2) [of "tempName target s"] show thesis
    by (cases "failure w") (auto simp: createTemp_def)
qed


text \<open>The deferred function after a failure before the file was closed.\<close>

lemma abandoned_effect:
  assumes "io_disk w2 = workDisk d tmp nd" "labelled CloseError None w2 = (r3, w3)" "removeIfThere tmp w3 = (r4, w4)"
    and wf: "disk_wf d" and tmp: "tmp \<in> range (tempName target)"
  shows "through (replacing target D d) w2 w4 \<and> (r4 = None \<longrightarrow> tidy target d (io_disk w4))"
proof -
  define Q where "Q = replacing target D d"
  have Q: "Q (workDisk d tmp nd)" "Q (execute (RemoveFile tmp) (workDisk d tmp nd))"
    unfolding Q_def by (rule replacing_work [OF wf tmp], rule replacing_removed [OF wf tmp])
  from assms(2) have "io_disk w3 = io_disk w2" "trace w3 = trace w2" by (elim labelled_cases; simp)+
  then have "io_disk w3 = workDisk d tmp nd" "through Q w2 w3"
    using assms(1) Q by (simp_all add: through_same)
  moreover from this have "through Q w3 w4 \<and> (r4 = None \<longrightarrow> tidy target d (io_disk w4))"
    using Q by (intro remove_effect [OF assms(3) tmp]) simp_all
  ultimately show ?thesis unfolding Q_def using through_trans by blast
qed

text \<open>The rest of a replacement once the file is prepared.\<close>

lemma finished_effect:
  assumes w2: "io_disk w2 = workDisk d tmp \<lparr>content = data, synced = True\<rparr>"
    and inst: "install tmp target w2 = (r3, w3)" and rem: "removeIfThere tmp w3 = (r4, w4)"
    and wf: "disk_wf d" and tmp: "tmp \<in> range (tempName target)" and D: "data \<in> D"
  shows "through (replacing target D d) w2 w4 \<and> (r4 = None \<longrightarrow> tidy target d (io_disk w4)) \<and>
    (r3 = None \<longrightarrow> afterLoss (io_disk w4) target = {Holds data} \<and> visible (io_disk w4) target = Some data)"
proof -
  define Q where "Q = replacing target D d"
  have Qr: "Q (execute (RemoveFile tmp) (workDisk d tmp nd))" for nd
    unfolding Q_def by (rule replacing_removed [OF wf tmp])
  have neq: "tmp \<noteq> target" using tmp by auto
  have i: "through Q w2 w3" "io_disk w3 = workDisk d tmp \<lparr>content = data, synced = True\<rparr> \<and> r3 \<noteq> None \<or>
      io_disk w3 = installed d tmp target data \<and> r3 \<noteq> None \<or>
      io_disk w3 = execute (SyncDir (fst target)) (installed d tmp target data) \<and> r3 = None"
    using install_effect [OF inst w2 wf tmp D] w2 by (auto simp: Q_def)
  have gone: "w4 = w3" if "r3 = None" "io_disk w3 = execute (SyncDir (fst target)) (installed d tmp target data)"
    using rem that neq by (simp add: removeIfThere_def)
  have "through Q w3 w4 \<and> (r4 = None \<longrightarrow> tidy target d (io_disk w4))"
    using i(2) neq Qr through_end [OF i(1)] by (intro remove_effect [OF rem tmp]) auto
  moreover have "afterLoss (io_disk w3) target = {Holds data}" "visible (io_disk w3) target = Some data" if "r3 = None"
    using i(2) that by (auto simp: afterLoss_def foundOf_def visible_def)
  ultimately show ?thesis
    using through_trans [OF i(1), of w4] gone i(2) unfolding Q_def by auto
qed

text \<open>
  The outcome of a replacement, whatever fails: at every crash point the target has one of its old
  values or the new one, all other files are as they were. Without an error the target has
  the new value for good; unless removing fails, no temporary file is left.
\<close>

definition replaced :: "path \<Rightarrow> payload \<Rightarrow> disk \<Rightarrow> replace_error list \<Rightarrow> disk \<Rightarrow> bool" where
  "replaced target body d errs d' \<longleftrightarrow>
     (errs = [] \<longrightarrow> (\<exists>data. payloadBytes body = Inr data \<and> afterLoss d' target = {Holds data} \<and>
        visible d' target = Some data)) \<and>
     ((\<forall>e. RemoveError e \<notin> set errs) \<longrightarrow> tidy target d d')"

lemma atomicReplace_effect:
  assumes run: "atomicReplace target body w = (errs, w')" and wf: "disk_wf (io_disk w)"
  shows "through (replacing target (payloads body) (io_disk w)) w w' \<and> replaced target body (io_disk w) errs (io_disk w')"
proof -
  define d where "d = io_disk w"
  define Q where "Q = replacing target (payloads body) d"
  have wf: "disk_wf d" and Qd: "Q d" using wf replacing_self by (simp_all add: Q_def d_def)
  obtain r1 w1 where create: "createTemp target w = (r1, w1)" by force
  then have "through Q w w' \<and> replaced target body d errs (io_disk w')"
  proof (cases rule: createTemp_cases)
    case (failed e)
    with run create have "errs = [CreateError e]" "w' = w1" by (simp_all add: atomicReplace_def)
    with failed Qd show ?thesis by (simp add: through_same d_def tidy_def replaced_def)
  next
    case (created tmp)
    have Qw: "Q (workDisk d tmp nd)" for nd using replacing_work [OF wf created(2)] by (simp add: Q_def)
    have w1: "io_disk w1 = workDisk d tmp \<lparr>content = '''', synced = False\<rparr>" using created by (simp add: d_def)
    have t1: "through Q w w1"
      using through_perform [of Q w "CreateFile tmp"] created(4) Qd Qw by (simp add: d_def)
    obtain r2 w2 where prep: "prepare (length (inodes d)) body w1 = (r2, w2)" by force
    from prepare_effect [OF this w1, of Q] Qw obtain nd where w2: "through Q w1 w2" "io_disk w2 = workDisk d tmp nd"
      "r2 = None \<longrightarrow> payloadBytes body = Inr (content nd) \<and> synced nd" by blast
    have t2: "through Q w w2" using t1 w2(1) by (rule through_trans)
    obtain r3 w3 where close: "labelled CloseError None w2 = (r3, w3)" by force
    obtain s3 v3 where inst: "install tmp target w2 = (s3, v3)" by force
    obtain r4 w4 where rem: "removeIfThere tmp (if r2 = None then v3 else w3) = (r4, w4)" by force
    have res: "w' = w4" "errs = (case r2 of None \<Rightarrow> case_option [] (\<lambda>e. [e]) s3 | Some e \<Rightarrow> e # case_option [] (\<lambda>e. [e]) r3) @
        (case r4 of None \<Rightarrow> [] | Some r \<Rightarrow> [RemoveError r])"
      using run create created(1) prep close inst rem by (auto simp: atomicReplace_def d_def split: option.splits)
    show ?thesis
    proof (cases r2)
      case (Some e)
      with abandoned_effect [OF w2(2) close _ wf created(2), of r4 w4 "payloads body"] rem
      have "through Q w2 w4" "r4 = None \<longrightarrow> tidy target d (io_disk w4)" by (auto simp: Q_def)
      with Some res through_trans [OF t2, of w4] show ?thesis by (auto simp: replaced_def split: option.splits)
    next
      case None
      then have nd: "nd = \<lparr>content = content nd, synced = True\<rparr>" "payloadBytes body = Inr (content nd)"
        using w2(3) by simp_all
      from finished_effect [of w2 d tmp "content nd" target s3 v3 r4 w4 "payloads body"]
      have "through Q w2 w4" "r4 = None \<longrightarrow> tidy target d (io_disk w4)"
        "s3 = None \<longrightarrow> afterLoss (io_disk w4) target = {Holds (content nd)} \<and> visible (io_disk w4) target = Some (content nd)"
        using rem None nd w2(2) inst wf created(2) by (simp_all add: Q_def payloads_def)
      with None nd(2) res through_trans [OF t2, of w4] show ?thesis by (auto simp: replaced_def split: option.splits)
    qed
  qed
  then show ?thesis by (simp only: Q_def d_def)
qed


section \<open>A whole save\<close>

definition valid :: "json_codec \<Rightarrow> string \<Rightarrow> bool" where
  "valid codec text \<longleftrightarrow> (case decodeState codec text of Inl _ \<Rightarrow> False | Inr _ \<Rightarrow> True)"

lemma valid_iff: "valid codec s \<longleftrightarrow> (\<exists>st info. decodeState codec s = Inr (st, info))"
  by (cases "decodeState codec s") (auto simp: valid_def)

definition encodings :: "json_codec \<Rightarrow> savedState \<Rightarrow> string set" where
  "encodings codec state = {text. encodeDocument codec (documentOf state) = Inr text}"

text \<open>
  What a save may do: the state file keeps a value it could have before or gets the new one, the
  backup keeps its value or gets the current state if that is valid.
\<close>

definition saving :: "json_codec \<Rightarrow> path \<Rightarrow> savedState \<Rightarrow> disk \<Rightarrow> disk \<Rightarrow> bool" where
  "saving codec p state d0 d \<longleftrightarrow> disk_wf d \<and>
     afterLoss d p \<subseteq> Holds ` encodings codec state \<union> afterLoss d0 p \<and>
     afterLoss d (backupPath p) \<subseteq> Holds ` {c. visible d0 p = Some c \<and> valid codec c} \<union> afterLoss d0 (backupPath p) \<and>
     visible d p \<in> insert (visible d0 p) (Some ` encodings codec state) \<and>
     visible d (backupPath p) \<in> insert (visible d0 (backupPath p)) (Some ` {c. visible d0 p = Some c \<and> valid codec c})"

lemma backupPath_neq [simp]: "backupPath p \<noteq> p" "p \<noteq> backupPath p"
  by (auto simp: backupPath_def stateBackupSuffix_def prod_eq_iff)

lemma not_temp [simp]: "p \<notin> range (tempName p)" "p \<notin> range (tempName (backupPath p))" "backupPath p \<notin> range (tempName p)"
proof -
  show "p \<notin> range (tempName p)" by (metis imageE tempName_neq(1))
  show "p \<notin> range (tempName (backupPath p))" by (metis imageE tempName_neq(4))
  show "backupPath p \<notin> range (tempName p)" by (metis imageE tempName_neq(3))
qed

lemma afterLoss_nonempty: "disk_wf d \<Longrightarrow> afterLoss d p \<noteq> {}"
  unfolding disk_wf_def afterLoss_def by (metis empty_iff empty_set image_is_empty)

lemma through_wf: "through (replacing target D d) w w' \<Longrightarrow> disk_wf (io_disk w')"
  using through_end [of "replacing target D d" w w'] by (simp add: replacing_def)

lemma replacing_other:
  "replacing target D d0 d \<Longrightarrow> p \<notin> range (tempName target) \<Longrightarrow> p \<noteq> target \<Longrightarrow>
     afterLoss d p \<subseteq> afterLoss d0 p \<and> visible d p = visible d0 p"
  unfolding replacing_def by blast

lemma replacing_target:
  "replacing target D d0 d \<Longrightarrow> disk_wf d \<and> afterLoss d target \<subseteq> Holds ` D \<union> afterLoss d0 target \<and>
     visible d target \<in> insert (visible d0 target) (Some ` D)"
  unfolding replacing_def by blast

text \<open>The second half of a save, on a disk on which the first half has done no harm.\<close>

lemma replaceState_effect:
  assumes run: "replaceState codec p (documentOf state) w = (err, w')" and w: "saving codec p state d0 (io_disk w)"
    and same: "visible (io_disk w) p = visible d0 p" "afterLoss (io_disk w) p \<subseteq> afterLoss d0 p"
  shows "through (saving codec p state d0) w w' \<and>
    (err = None \<longrightarrow> (\<exists>text\<in>encodings codec state. afterLoss (io_disk w') p = {Holds text} \<and> visible (io_disk w') p = Some text) \<and>
       visible (io_disk w') (backupPath p) = visible (io_disk w) (backupPath p) \<and>
       afterLoss (io_disk w') (backupPath p) \<subseteq> afterLoss (io_disk w) (backupPath p))"
proof -
  define body where "body = Encoded (encodeDocument codec (documentOf state))"
  obtain errs where rep: "atomicReplace p body w = (errs, w')" "err = None \<longleftrightarrow> errs = []"
    using run by (auto simp: replaceState_def body_def split: prod.splits if_splits)
  have D: "payloads body = encodings codec state" by (simp add: payloads_def encodings_def body_def)
  have wf: "disk_wf (io_disk w)" using w by (simp add: saving_def)
  note eff = atomicReplace_effect [OF rep(1) wf, unfolded D]
  have "saving codec p state d0 d" if "replacing p (encodings codec state) (io_disk w) d" for d
  proof -
    have "afterLoss d (backupPath p) \<subseteq> afterLoss (io_disk w) (backupPath p)"
      "visible d (backupPath p) = visible (io_disk w) (backupPath p)"
      using replacing_other [OF that, of "backupPath p"] by simp_all
    with replacing_target [OF that] w same show ?thesis unfolding saving_def by auto
  qed
  then have "through (saving codec p state d0) w w'" using eff by (blast intro: through_mono)
  moreover have "visible (io_disk w') (backupPath p) = visible (io_disk w) (backupPath p)"
    "afterLoss (io_disk w') (backupPath p) \<subseteq> afterLoss (io_disk w) (backupPath p)"
    using replacing_other [OF through_end [OF conjunct1 [OF eff]], of "backupPath p"] by simp_all
  moreover have "\<exists>text\<in>encodings codec state. afterLoss (io_disk w') p = {Holds text} \<and> visible (io_disk w') p = Some text"
    if "errs = []" using eff that D by (auto simp: replaced_def payloads_def)
  ultimately show ?thesis using rep(2) by blast
qed

lemma saving_self: "disk_wf d \<Longrightarrow> saving codec p state d d"
  by (auto simp: saving_def)

lemma readFile_cases:
  assumes "readFile p w = (r, w')"
  obtains (missing) "r = Inl NotExist" "w' = w" "visible (io_disk w) p = None"
  | (failed) e where "r = Inl (ReadFailed e)" "w' = consume w"
  | (data) c where "r = Inr c" "w' = consume w" "visible (io_disk w) p = Some c"
proof (cases "entries (io_disk w) p")
  case None
  with assms that(1) show thesis by (simp add: readFile_def visible_def)
next
  case (Some i)
  with assms that(2,3) show thesis by (cases "failure w") (auto simp: readFile_def visible_def)
qed

lemma through_consume: "through Q (consume w) w' \<Longrightarrow> through Q w w'"
  by (simp add: through_def)

text \<open>What a save without an error has achieved.\<close>

definition save_done :: "json_codec \<Rightarrow> path \<Rightarrow> savedState \<Rightarrow> disk \<Rightarrow> disk \<Rightarrow> bool" where
  "save_done codec p state d d' \<longleftrightarrow>
     (\<exists>text\<in>encodings codec state. afterLoss d' p = {Holds text} \<and> visible d' p = Some text) \<and>
     (\<forall>c. visible d p = Some c \<and> valid codec c \<longrightarrow>
        afterLoss d' (backupPath p) = {Holds c} \<and> visible d' (backupPath p) = Some c)"

text \<open>The case of a current state that is valid: it goes to the backup first.\<close>

lemma save_over_valid:
  assumes c: "visible (io_disk w) p = Some c" "valid codec c" and wf: "disk_wf (io_disk w)"
    and bak: "atomicReplace (backupPath p) (RawBytes c) w = (errs, w2)"
  shows "through (saving codec p state (io_disk w)) w w2"
    and "errs = [] \<Longrightarrow> replaceState codec p (documentOf state) w2 = (err, w') \<Longrightarrow>
      through (saving codec p state (io_disk w)) w w' \<and> (err = None \<longrightarrow> save_done codec p state (io_disk w) (io_disk w'))"
proof -
  define Q where "Q = saving codec p state (io_disk w)"
  note eff = atomicReplace_effect [OF bak wf]
  have Qr: "Q x" if "replacing (backupPath p) (payloads (RawBytes c)) (io_disk w) x" for x
    using replacing_other [OF that, of p] replacing_target [OF that] c by (auto simp: Q_def saving_def payloads_def)
  then have t: "through Q w w2" using eff by (blast intro: through_mono)
  then show "through (saving codec p state (io_disk w)) w w2" by (simp only: Q_def)
  assume ok: "errs = []" and rep: "replaceState codec p (documentOf state) w2 = (err, w')"
  have w2: "visible (io_disk w2) p = visible (io_disk w) p" "afterLoss (io_disk w2) p \<subseteq> afterLoss (io_disk w) p"
    using replacing_other [OF through_end [OF conjunct1 [OF eff]], of p] by simp_all
  note fin = replaceState_effect [OF rep through_end [OF t, unfolded Q_def] w2]
  have b: "afterLoss (io_disk w2) (backupPath p) = {Holds c}" "visible (io_disk w2) (backupPath p) = Some c"
    using eff ok by (auto simp: replaced_def)
  have "disk_wf (io_disk w')" using through_end [OF conjunct1 [OF fin]] by (simp add: saving_def)
  then have "err = None \<longrightarrow> afterLoss (io_disk w') (backupPath p) = {Holds c}"
    using fin b afterLoss_nonempty [of "io_disk w'" "backupPath p"] by (metis subset_singletonD)
  with fin b c show "through (saving codec p state (io_disk w)) w w' \<and> (err = None \<longrightarrow> save_done codec p state (io_disk w) (io_disk w'))"
    using through_trans [OF t [unfolded Q_def] conjunct1 [OF fin]] by (auto simp: save_done_def)
qed

lemma save_effect:
  assumes run: "writeStateAtomic codec p (Some state) w = (err, w')" and wf: "disk_wf (io_disk w)"
  shows "through (saving codec p state (io_disk w)) w w' \<and> (err = None \<longrightarrow> save_done codec p state (io_disk w) (io_disk w'))"
proof -
  define d where "d = io_disk w"
  have self: "saving codec p state d d" using saving_self [OF wf] by (simp add: d_def)
  have plain: "through (saving codec p state d) v w' \<and> (err = None \<longrightarrow> save_done codec p state d (io_disk w'))"
    if "replaceState codec p (documentOf state) v = (err, w')" "io_disk v = d"
      "\<And>c. visible d p = Some c \<Longrightarrow> \<not> valid codec c" for v
    using replaceState_effect [OF that(1), of d] self that(2,3) by (auto simp: save_done_def)
  obtain r w1 where rd: "readFile p w = (r, w1)" by force
  then show ?thesis unfolding d_def [symmetric]
  proof (cases rule: readFile_cases)
    case missing
    then have "replaceState codec p (documentOf state) w = (err, w')" using run rd by (simp add: writeStateAtomic_def)
    from plain [OF this] missing show "through (saving codec p state d) w w' \<and> (err = None \<longrightarrow> save_done codec p state d (io_disk w'))"
      by (simp add: d_def)
  next
    case (failed e)
    then show "through (saving codec p state d) w w' \<and> (err = None \<longrightarrow> save_done codec p state d (io_disk w'))"
      using run rd self by (auto simp: writeStateAtomic_def d_def intro!: through_same)
  next
    case (data c)
    obtain errs w2 where bak: "atomicReplace (backupPath p) (RawBytes c) w1 = (errs, w2)" by force
    have w1: "visible (io_disk w1) p = Some c" "disk_wf (io_disk w1)" "io_disk w1 = d"
      using data wf by (simp_all add: d_def)
    have "through (saving codec p state d) w1 w' \<and> (err = None \<longrightarrow> save_done codec p state d (io_disk w'))"
    proof (cases "valid codec c")
      case False
      then have "replaceState codec p (documentOf state) w1 = (err, w')"
        using run rd data by (auto simp: writeStateAtomic_def valid_def split: sum.splits)
      from plain [OF this] data False show ?thesis by (simp add: d_def)
    next
      case True
      have "if errs = [] then replaceState codec p (documentOf state) w2 = (err, w') else err \<noteq> None \<and> w' = w2"
        using run rd data True bak by (auto simp: writeStateAtomic_def valid_def split: sum.splits)
      with save_over_valid [OF w1(1) True w1(2) bak] show ?thesis unfolding w1(3) by (cases "errs = []") auto
    qed
    then show "through (saving codec p state d) w w' \<and> (err = None \<longrightarrow> save_done codec p state d (io_disk w'))"
      using data(2) through_consume by blast
  qed
qed

section \<open>Loading what a power failure leaves\<close>

definition recovers :: "json_codec \<Rightarrow> path \<Rightarrow> found \<Rightarrow> found \<Rightarrow> savedState set \<Rightarrow> bool" where
  "recovers codec p a b S \<longleftrightarrow> a \<noteq> Garbage \<and> b \<noteq> Garbage \<and>
     (\<exists>s info. loadStateWithReader codec p (readerOf ((\<lambda>_. Missing)(p := a, backupPath p := b))) = Inr (s, info) \<and> s \<in> S)"

text \<open>Whatever a power failure leaves of this disk, loading succeeds with a state of \<open>S\<close>.\<close>

definition safeIn :: "json_codec \<Rightarrow> path \<Rightarrow> disk \<Rightarrow> savedState set \<Rightarrow> bool" where
  "safeIn codec p d S \<longleftrightarrow> (\<forall>a\<in>afterLoss d p. \<forall>b\<in>afterLoss d (backupPath p). recovers codec p a b S)"

lemma recovers_primary:
  "decodeState codec text = Inr (s, info) \<Longrightarrow> b \<noteq> Garbage \<Longrightarrow> recovers codec p (Holds text) b S \<longleftrightarrow> s \<in> S"
  by (simp add: recovers_def loadStateWithReader_def readStateCandidate_def)

lemma recovers_backup:
  assumes "\<not> (\<exists>text. a = Holds text \<and> valid codec text)" "a \<noteq> Garbage" "decodeState codec text = Inr (s, info)"
  shows "recovers codec p a (Holds text) S \<longleftrightarrow> s \<in> S"
proof -
  have "\<exists>e. readStateCandidate codec p (readerOf ((\<lambda>_. Missing)(p := a, backupPath p := Holds text))) = Inl e"
    using assms(1,2) by (cases a) (auto simp: readStateCandidate_def valid_def split: sum.splits)
  then obtain e where "readStateCandidate codec p (readerOf ((\<lambda>_. Missing)(p := a, backupPath p := Holds text))) = Inl e" ..
  moreover have "readStateCandidate codec (backupPath p) (readerOf ((\<lambda>_. Missing)(p := a, backupPath p := Holds text))) =
      Inr (s, info)"
    using assms(3) by (simp add: readStateCandidate_def)
  ultimately show ?thesis using assms(2) by (simp add: recovers_def loadStateWithReader_def)
qed

lemma recovers_mono: "recovers codec p a b S \<Longrightarrow> S \<subseteq> T \<Longrightarrow> recovers codec p a b T"
  unfolding recovers_def by blast

lemma visible_afterLoss: "disk_wf d \<Longrightarrow> visible d p = Some c \<Longrightarrow> Holds c \<in> afterLoss d p \<or> Garbage \<in> afterLoss d p"
proof -
  assume "disk_wf d" "visible d p = Some c"
  then obtain i where i: "entries d p = Some i" "content (inodes d ! i) = c" by (auto simp: visible_def)
  have "entries d p \<in> set (maybe d p)" using \<open>disk_wf d\<close> unfolding disk_wf_def by blast
  then have "foundOf d (Some i) \<in> afterLoss d p" using i by (simp add: afterLoss_def)
  with i(2) show ?thesis by (auto simp: foundOf_def split: if_splits)
qed

text \<open>A disk changed by a save as \<open>saving\<close> allows is as safe as before, with the new state added.\<close>

lemma saving_safe:
  assumes safe: "safeIn codec p d S" and wf: "disk_wf d" and d': "saving codec p state d d'"
    and new: "\<And>text. text \<in> encodings codec state \<Longrightarrow> \<exists>info. decodeState codec text = Inr (new, info)"
  shows "safeIn codec p d' (insert new S)"
  unfolding safeIn_def
proof (intro ballI)
  fix a b assume "a \<in> afterLoss d' p" "b \<in> afterLoss d' (backupPath p)"
  then have a: "a \<in> Holds ` encodings codec state \<or> a \<in> afterLoss d p"
    and b: "(\<exists>c. b = Holds c \<and> visible d p = Some c \<and> valid codec c) \<or> b \<in> afterLoss d (backupPath p)"
    using d' by (auto simp: saving_def)
  have old: "recovers codec p x y S" if "x \<in> afterLoss d p" "y \<in> afterLoss d (backupPath p)" for x y
    using safe that by (simp add: safeIn_def)
  obtain a0 b0 where ab0: "a0 \<in> afterLoss d p" "b0 \<in> afterLoss d (backupPath p)"
    using afterLoss_nonempty [OF wf] by blast
  have noG: "Garbage \<notin> afterLoss d p" "Garbage \<notin> afterLoss d (backupPath p)"
    using old ab0 unfolding recovers_def by blast+
  have bG: "b \<noteq> Garbage" using b noG by auto
  show "recovers codec p a b (insert new S)"
  proof (cases "a \<in> Holds ` encodings codec state")
    case True
    then obtain t where "a = Holds t" "t \<in> encodings codec state" by blast
    with new [of t] recovers_primary [of codec t new _ b p "insert new S"] bG show ?thesis by auto
  next
    case False
    with a have a: "a \<in> afterLoss d p" by simp
    show ?thesis
    proof (cases "b \<in> afterLoss d (backupPath p)")
      case True
      with old [OF a] show ?thesis by (blast intro: recovers_mono)
    next
      case False
      with b obtain c where c: "b = Holds c" "visible d p = Some c" "valid codec c" by blast
      then obtain s info where s: "decodeState codec c = Inr (s, info)" by (auto simp: valid_iff)
      have "Holds c \<in> afterLoss d p" using visible_afterLoss [OF wf c(2)] noG by simp
      with old [OF this ab0(2)] recovers_primary [OF s, of b0] ab0(2) noG have sS: "s \<in> S" by metis
      show ?thesis
      proof (cases "\<exists>text. a = Holds text \<and> valid codec text")
        case True
        then obtain t s' info' where t: "a = Holds t" "decodeState codec t = Inr (s', info')"
          by (auto simp: valid_iff)
        then have "s' \<in> S" using old [OF a ab0(2)] recovers_primary [OF t(2), of b0] ab0(2) noG by metis
        then show ?thesis using recovers_primary [OF t(2) bG] t(1) by simp
      next
        case False
        then show ?thesis using recovers_backup [OF False _ s, of p "insert new S"] a noG sS c(1) by auto
      qed
    qed
  qed
qed


lemma through_trace:
  assumes "through Q w w'" "trace w = []"
  shows "Q (crashAfter n (io_disk w) (trace w'))"
  using assms by (auto simp: through_def)

definition startIO :: "disk \<Rightarrow> outcome list \<Rightarrow> string list \<Rightarrow> io" where
  "startIO d sc ss = \<lparr>io_disk = d, trace = [], script = sc, suffixes = ss\<rparr>"

lemma startIO_simps [simp]: "io_disk (startIO d sc ss) = d" "trace (startIO d sc ss) = []"
  by (simp_all add: startIO_def)

section \<open>What is left of temporary files\<close>

definition removeFailed :: "save_error \<Rightarrow> bool" where
  "removeFailed err =
     (case err of
        BackupFailed es \<Rightarrow> \<exists>e\<in>set es. (case e of RemoveError _ \<Rightarrow> True | _ \<Rightarrow> False)
      | ReplaceFailed es \<Rightarrow> \<exists>e\<in>set es. (case e of RemoveError _ \<Rightarrow> True | _ \<Rightarrow> False)
      | _ \<Rightarrow> False)"

lemma no_remove_error:
  "\<not> (\<exists>e\<in>set es. (case e of RemoveError _ \<Rightarrow> True | _ \<Rightarrow> False)) \<Longrightarrow> RemoveError x \<notin> set es"
  by force

lemma tempNames_apart: "tempName (backupPath p) s \<notin> range (tempName p)"
  by (auto simp: tempName_def backupPath_def stateBackupSuffix_def)

lemma tempNames_apart': "tempName p s \<notin> range (tempName (backupPath p))"
  by (auto simp: tempName_def backupPath_def stateBackupSuffix_def)

lemma entries_visible: "entries d p = None \<longleftrightarrow> visible d p = None"
  by (simp add: visible_def)

lemma tidy_refl: "tidy target d d"
  by (simp add: tidy_def)

text \<open>A replacement of one file leaves no temporary file of the other.\<close>

lemma tidy_other:
  "replacing p D d d' \<Longrightarrow> tidy (backupPath p) d0 d \<Longrightarrow> tidy (backupPath p) d0 d'"
  "replacing (backupPath p) D d d' \<Longrightarrow> tidy p d0 d \<Longrightarrow> tidy p d0 d'"
  using replacing_other [of p D d d' "tempName (backupPath p) _"] replacing_other [of "backupPath p" D d d' "tempName p _"]
    tempNames_apart [of p] tempNames_apart' [of p]
  by (simp_all add: tidy_def entries_visible)

definition tidyBoth :: "path \<Rightarrow> disk \<Rightarrow> disk \<Rightarrow> bool" where
  "tidyBoth p d d' \<longleftrightarrow> tidy p d d' \<and> tidy (backupPath p) d d'"

lemma replaceState_tidy:
  assumes run: "replaceState codec p document w = (err, w')" and wf: "disk_wf (io_disk w)"
    and tidy: "tidyBoth p d0 (io_disk w)" and err: "\<forall>e. err = Some e \<longrightarrow> \<not> removeFailed e"
  shows "tidyBoth p d0 (io_disk w')"
proof -
  obtain errs where rep: "atomicReplace p (Encoded (encodeDocument codec document)) w = (errs, w')"
      "err = (if errs = [] then None else Some (ReplaceFailed errs))"
    using run by (auto simp: replaceState_def split: prod.splits)
  have "\<forall>x. RemoveError x \<notin> set errs"
    using rep(2) err by (cases "errs = []") (auto simp: removeFailed_def intro: no_remove_error)
  with atomicReplace_effect [OF rep(1) wf] have eff: "tidy p (io_disk w) (io_disk w')"
    "replacing p (payloads (Encoded (encodeDocument codec document))) (io_disk w) (io_disk w')"
    by (auto simp: replaced_def dest: through_end)
  then show ?thesis using tidy tidy_other(1) [OF eff(2), of d0] by (auto simp: tidyBoth_def tidy_def)
qed

text \<open>The ways a save of a state goes.\<close>

lemma save_cases:
  assumes "writeStateAtomic codec p (Some state) w = (err, w')"
  obtains (plain) w1 where "replaceState codec p (documentOf state) w1 = (err, w')" "io_disk w1 = io_disk w"
  | (unreadable) e where "io_disk w' = io_disk w" "err = Some (ReadBefore e)"
  | (backup) c w1 errs where "atomicReplace (backupPath p) (RawBytes c) w1 = (errs, w')" "errs \<noteq> []"
      "err = Some (BackupFailed errs)" "io_disk w1 = io_disk w"
  | (both) c w1 w2 where "atomicReplace (backupPath p) (RawBytes c) w1 = ([], w2)"
      "replaceState codec p (documentOf state) w2 = (err, w')" "io_disk w1 = io_disk w"
proof -
  obtain r w1 where rd: "readFile p w = (r, w1)" by force
  then have w1: "io_disk w1 = io_disk w" by (cases rule: readFile_cases) simp_all
  show thesis
  proof (cases r)
    case (Inl e)
    with assms rd that(1) [of w1] that(2) [of e] w1 show thesis
      by (cases "e = NotExist") (auto simp: writeStateAtomic_def)
  next
    case (Inr c)
    obtain errs w2 where bak: "atomicReplace (backupPath p) (RawBytes c) w1 = (errs, w2)" by force
    show thesis
    proof (cases "decodeState codec c")
      case (Inl e)
      with assms rd Inr that(1) [of w1] w1 show thesis by (simp add: writeStateAtomic_def)
    next
      case ok: (Inr x)
      show thesis
      proof (cases "errs = []")
        case True
        with assms rd Inr ok bak that(4) [of c w1 w2] w1 show thesis by (simp add: writeStateAtomic_def)
      next
        case False
        with assms rd Inr ok bak that(3) [of c w1 errs] w1 show thesis by (auto simp: writeStateAtomic_def)
      qed
    qed
  qed
qed

lemma save_tidy:
  assumes run: "writeStateAtomic codec p (Some state) w = (err, w')" and wf: "disk_wf (io_disk w)"
    and err: "\<forall>e. err = Some e \<longrightarrow> \<not> removeFailed e"
  shows "tidyBoth p (io_disk w) (io_disk w')"
proof -
  have self: "tidyBoth p (io_disk w) (io_disk w)" by (simp add: tidyBoth_def tidy_refl)
  have bak: "tidyBoth p (io_disk w) (io_disk w2) \<and> disk_wf (io_disk w2)"
    if a: "atomicReplace (backupPath p) (RawBytes c) w1 = (errs, w2)" "io_disk w1 = io_disk w" and "\<forall>x. RemoveError x \<notin> set errs"
    for c w1 errs w2
  proof -
    from atomicReplace_effect [OF a(1)] a(2) wf that(3) have "tidy (backupPath p) (io_disk w) (io_disk w2)"
      "replacing (backupPath p) (payloads (RawBytes c)) (io_disk w) (io_disk w2)"
      by (auto simp: replaced_def dest: through_end)
    then show ?thesis using tidy_other(2) [OF _ tidy_refl] replacing_target by (auto simp: tidyBoth_def)
  qed
  from run show ?thesis
  proof (cases rule: save_cases)
    case (plain w1)
    then show ?thesis using replaceState_tidy [OF plain(1) _ _ err] wf self by simp
  next
    case (unreadable e)
    then show ?thesis using self by simp
  next
    case (backup c w1 errs)
    have "\<forall>x. RemoveError x \<notin> set errs" using err backup(3) by (auto simp: removeFailed_def intro: no_remove_error)
    then show ?thesis using bak [OF backup(1,4)] by simp
  next
    case (both c w1 w2)
    then show ?thesis using bak [OF both(1,3)] replaceState_tidy [OF both(2) _ _ err] by simp
  qed
qed

text \<open>A save that fails before the replacement of the state file does not touch it.\<close>

lemma save_untouched:
  assumes run: "writeStateAtomic codec p (Some state) w = (Some err, w')" and wf: "disk_wf (io_disk w)"
    and err: "\<forall>es. err \<noteq> ReplaceFailed es"
  shows "visible (io_disk w') p = visible (io_disk w) p"
  using run
proof (cases rule: save_cases)
  case (backup c w1 errs)
  with atomicReplace_effect [OF backup(1)] wf have "replacing (backupPath p) (payloads (RawBytes c)) (io_disk w) (io_disk w')"
    by (auto dest: through_end)
  from replacing_other [OF this, of p] show ?thesis by simp
qed (use err in \<open>auto simp: replaceState_def split: prod.splits if_splits\<close>)

section \<open>Properties of the state file\<close>

text \<open>A disk with a state file, and a codec that knows two documents.\<close>

definition sample_path :: path where "sample_path = (''/var'', ''state.json'')"

definition sample_disk :: disk where
  "sample_disk =
     \<lparr>inodes = [\<lparr>content = ''old'', synced = True\<rparr>], entries = (\<lambda>_. None)(sample_path := Some 0),
      maybe = (\<lambda>_. [None])(sample_path := [Some 0])\<rparr>"

definition sample_state :: "int list \<Rightarrow> savedState" where
  "sample_state bs = \<lparr>Alarms = None, Blocks = Map [(''osmosis'', bs)], NodesDown = mkmap\<rparr>"

definition sample_codec :: json_codec where
  "sample_codec =
     \<lparr>decodeDocument = (\<lambda>s. if s = ''new'' then Inr (Some (documentOf (sample_state [3])), '''')
                            else if s = ''old'' then Inr (Some (documentOf (sample_state [0])), '''')
                            else Inl ''unexpected character''),
      decodeTrailing = (\<lambda>s. Eof), encodeDocument = (\<lambda>doc. Inr ''new'')\<rparr>"

lemma trimSpaceLeft_samples [simp]: "trimSpaceLeft ''new'' = ''new''" "trimSpaceLeft ''old'' = ''old''"
  by (subst trimSpaceLeft.simps, simp add: spaceRunes_def HasPrefix_def)+

lemma sample_decodes:
  "\<exists>info. decodeState sample_codec ''new'' = Inr (sample_state [3], info)"
  "\<exists>info. decodeState sample_codec ''old'' = Inr (sample_state [0], info)"
  by (simp_all add: decodeState_def sample_codec_def documentOf_def sample_state_def currentStateVersion_def)

lemma sample_disk_wf: "disk_wf sample_disk"
  by (simp add: disk_wf_def sample_disk_def)

lemma sample_safe: "safeIn sample_codec sample_path sample_disk {sample_state [0]}"
proof -
  have "afterLoss sample_disk sample_path = {Holds ''old''}" "afterLoss sample_disk (backupPath sample_path) = {Missing}"
    by (simp_all add: afterLoss_def foundOf_def sample_disk_def)
  moreover obtain info where "decodeState sample_codec ''old'' = Inr (sample_state [0], info)" using sample_decodes(2) by blast
  ultimately show ?thesis by (simp add: safeIn_def recovers_primary)
qed

text \<open>C6: Saving survives a power failure. If, whatever a power failure leaves of the disk, loading gives
  a state of \<open>S\<close>, then this still holds at every point of a save, failures of the file
  system included, with the new state as a further possibility; and after a save without an
  error loading gives the new state.\<close>

theorem save_survives_power_loss:
  assumes "disk_wf d" "safeIn codec p d S"
    and "\<forall>s. encodeDocument codec (documentOf state) = Inr s \<longrightarrow> (\<exists>info. decodeState codec s = Inr (new, info))"
    and "writeStateAtomic codec p (Some state) (startIO d sc ss) = (err, w')"
  shows "safeIn codec p (crashAfter n d (trace w')) (insert new S) \<and>
    (err = None \<longrightarrow> safeIn codec p (io_disk w') {new})"
proof -
  have new: "\<exists>info. decodeState codec s = Inr (new, info)" if "s \<in> encodings codec state" for s
    using assms(3) that by (simp add: encodings_def)
  from save_effect [OF assms(4)] assms(1)
  have eff: "through (saving codec p state d) (startIO d sc ss) w'" "err = None \<longrightarrow> save_done codec p state d (io_disk w')"
    by simp_all
  have crash: "safeIn codec p (crashAfter m d (trace w')) (insert new S)" for m
    using saving_safe [OF assms(2,1) _ new] through_trace [OF eff(1), of m] by simp
  have fin: "safeIn codec p (io_disk w') (insert new S)"
    using saving_safe [OF assms(2,1) through_end [OF eff(1)] new] .
  have "safeIn codec p (io_disk w') {new}" if "err = None"
  proof -
    from eff(2) that have "save_done codec p state d (io_disk w')" by simp
    then obtain s where s: "s \<in> encodings codec state" "afterLoss (io_disk w') p = {Holds s}" by (auto simp: save_done_def)
    obtain info where info: "decodeState codec s = Inr (new, info)" using new [OF s(1)] by blast
    have "b \<noteq> Garbage" if "b \<in> afterLoss (io_disk w') (backupPath p)" for b
      using fin s(2) that by (auto simp: safeIn_def recovers_def)
    then show ?thesis using s(2) recovers_primary [OF info] by (simp add: safeIn_def)
  qed
  with crash show ?thesis by blast
qed

theorem save_survives_power_loss_witness:
  "\<forall>n. safeIn sample_codec sample_path
      (crashAfter n sample_disk (trace (snd (writeStateAtomic sample_codec sample_path (Some (sample_state [3]))
        (startIO sample_disk [Done, Done, Done, Short 1 ''no space left''] [''1'', ''2''])))))
      {sample_state [0], sample_state [3]}"
proof
  fix n
  let ?r = "writeStateAtomic sample_codec sample_path (Some (sample_state [3]))
        (startIO sample_disk [Done, Done, Done, Short 1 ''no space left''] [''1'', ''2''])"
  have "\<forall>s. encodeDocument sample_codec (documentOf (sample_state [3])) = Inr s \<longrightarrow>
      (\<exists>info. decodeState sample_codec s = Inr (sample_state [3], info))"
    using sample_decodes(1) by (simp add: sample_codec_def)
  from save_survives_power_loss [OF sample_disk_wf sample_safe this, of _ _ "fst ?r" "snd ?r" n]
  show "safeIn sample_codec sample_path (crashAfter n sample_disk (trace (snd ?r))) {sample_state [0], sample_state [3]}"
    by (simp add: insert_commute)
qed

text \<open>A save that fails leaves the state file with its content or with the new one, the backup with its
  content or with the current state if that is valid, and no temporary file unless removing
  it failed. If it fails before the replacement of the state file itself, the file is untouched.\<close>

theorem failed_save_harmless:
  assumes "disk_wf (io_disk w)" "writeStateAtomic codec p (Some state) w = (Some err, w')"
  shows "visible (io_disk w') p \<in> insert (visible (io_disk w) p) (Some ` encodings codec state) \<and>
    visible (io_disk w') (backupPath p) \<in> insert (visible (io_disk w) (backupPath p))
      (Some ` {c. visible (io_disk w) p = Some c \<and> valid codec c}) \<and>
    ((\<forall>es. err \<noteq> ReplaceFailed es) \<longrightarrow> visible (io_disk w') p = visible (io_disk w) p) \<and>
    (\<not> removeFailed err \<longrightarrow> tidyBoth p (io_disk w) (io_disk w'))"
proof -
  have "saving codec p state (io_disk w) (io_disk w')"
    using save_effect [OF assms(2,1)] through_end by blast
  then show ?thesis
    using save_untouched [OF assms(2,1)] save_tidy [OF assms(2,1)] unfolding saving_def by auto
qed

theorem failed_save_harmless_witness:
  "visible (io_disk (snd (writeStateAtomic sample_codec sample_path (Some (sample_state [3]))
     (startIO sample_disk [Done, Fails ''read-only file system''] [''1''])))) sample_path = Some ''old''"
proof -
  let ?w = "startIO sample_disk [Done, Fails ''read-only file system''] [''1'']"
  have "fst (writeStateAtomic sample_codec sample_path (Some (sample_state [3])) ?w) =
      Some (BackupFailed [CreateError ''read-only file system''])"
    using sample_decodes(2)
    by (auto simp: writeStateAtomic_def readFile_def startIO_def sample_disk_def failure_def outcomeOf_def consume_def
        atomicReplace_def createTemp_def tempName_def backupPath_def stateBackupSuffix_def sample_path_def)
  then obtain w' where "writeStateAtomic sample_codec sample_path (Some (sample_state [3])) ?w =
      (Some (BackupFailed [CreateError ''read-only file system'']), w')" by (metis prod.collapse)
  with failed_save_harmless [OF _ this] sample_disk_wf show ?thesis by (simp add: visible_def sample_disk_def)
qed

definition diskReader :: "disk \<Rightarrow> path \<Rightarrow> state_error + string" where
  "diskReader d q = (case visible d q of None \<Rightarrow> Inl NotExist | Some c \<Rightarrow> Inr c)"

lemma saved_state_loads:
  assumes "disk_wf (io_disk w)" "writeStateAtomic codec p (Some state) w = (None, w')"
    and "codec_faithful codec (documentOf state)"
    and "Alarms state \<noteq> None \<or> Blocks state \<noteq> NilMap \<or> NodesDown state \<noteq> NilMap"
  shows "\<exists>s info. loadStateWithReader codec p (diskReader (io_disk w')) = Inr (s, info) \<and>
    same_document (documentOf state) (documentOf s) \<and>
    info = \<lparr>Source = Some p, Version = currentStateVersion, Legacy = False, RecoveredFromBackup = False\<rparr>"
proof -
  obtain s doc rest where enc: "encodeDocument codec (documentOf state) = Inr s" "trimSpaceLeft s \<noteq> []"
    "decodeDocument codec s = Inr (Some doc, rest)" "decodeTrailing codec rest = Eof" "same_document (documentOf state) doc"
    using assms(3) unfolding codec_faithful_def by blast
  have vis: "visible (io_disk w') p = Some s"
    using save_effect [OF assms(2,1)] enc(1) by (auto simp: save_done_def encodings_def)
  have v: "doc_Version doc = currentStateVersion" using enc(5) by (simp add: same_document_def documentOf_def)
  have "doc_Alarms doc \<noteq> None \<or> doc_Blocks doc \<noteq> NilMap \<or> doc_NodesDown doc \<noteq> NilMap"
    using enc(5) assms(4)
    by (auto simp: same_document_def documentOf_def same_map_def same_nested_def split: option.splits)
  then have "decodeState codec s = Inr (\<lparr>Alarms = doc_Alarms doc, Blocks = doc_Blocks doc, NodesDown = doc_NodesDown doc\<rparr>,
      emptyLoadInfo\<lparr>Version := currentStateVersion, Legacy := False\<rparr>)"
    using enc v by (auto simp: decodeState_def currentStateVersion_def)
  moreover have "documentOf \<lparr>Alarms = doc_Alarms doc, Blocks = doc_Blocks doc, NodesDown = doc_NodesDown doc\<rparr> = doc"
    using v by (simp add: documentOf_def)
  ultimately show ?thesis
    using vis enc(5) by (simp add: loadStateWithReader_def readStateCandidate_def diskReader_def emptyLoadInfo_def)
qed

text \<open>What was saved is loaded: after a save without an error, and with a codec that reads back the
  document it wrote, loading gives the same state from the state file itself, at the
  current version and without recourse to the backup.\<close>

theorem save_load_roundtrip:
  assumes "disk_wf (io_disk w)" "writeStateAtomic codec p (Some state) w = (None, w')"
    and "codec_faithful codec (documentOf state)"
    and "Alarms state \<noteq> None \<or> Blocks state \<noteq> NilMap \<or> NodesDown state \<noteq> NilMap"
  shows "\<exists>s info. loadStateWithReader codec p (diskReader (io_disk w')) = Inr (s, info) \<and>
    same_document (documentOf state) (documentOf s) \<and>
    info = \<lparr>Source = Some p, Version = currentStateVersion, Legacy = False, RecoveredFromBackup = False\<rparr>"
  using assms by (rule saved_state_loads)

text \<open>Without failures a replacement has no error, and the next one starts as this one.\<close>

lemma faultless:
  assumes "script v = []" "suffixes v = [s]" "entries (io_disk v) (tempName target s) = None" "payloadBytes body = Inr data"
  shows "fst (atomicReplace target body v) = [] \<and> script (snd (atomicReplace target body v)) = [] \<and>
    suffixes (snd (atomicReplace target body v)) = [s]"
proof -
  have "failure x = None \<and> outcomeOf x = Done" if "script x = []" for x using that by (simp add: failure_def outcomeOf_def)
  with assms show ?thesis
    by (simp add: atomicReplace_def createTemp_def prepare_def install_def labelled_def attempt_def writeStep_def flushStep_def
        writeFile_def removeIfThere_def consume_def perform_def)
qed

lemma sample_save_succeeds:
  "fst (writeStateAtomic sample_codec sample_path (Some (sample_state [3])) (startIO sample_disk [] [''1''])) = None"
proof -
  let ?w = "startIO sample_disk [] [''1'']"
  obtain info where old: "decodeState sample_codec ''old'' = Inr (sample_state [0], info)" using sample_decodes(2) by blast
  have rd: "readFile sample_path ?w = (Inr ''old'', ?w)"
    by (simp add: readFile_def startIO_def sample_disk_def failure_def outcomeOf_def consume_def)
  obtain w2 where w2: "atomicReplace (backupPath sample_path) (RawBytes ''old'') ?w = ([], w2)" "script w2 = []" "suffixes w2 = [''1'']"
    using faultless [of ?w "''1''" "backupPath sample_path" "RawBytes ''old''"]
    by (cases "atomicReplace (backupPath sample_path) (RawBytes ''old'') ?w")
      (auto simp: startIO_def sample_disk_def tempName_def sample_path_def)
  have "replacing (backupPath sample_path) (payloads (RawBytes ''old'')) sample_disk (io_disk w2)"
    using atomicReplace_effect [OF w2(1)] sample_disk_wf by (auto dest: through_end)
  from replacing_other [OF this, of "tempName sample_path ''1''"]
  have "entries (io_disk w2) (tempName sample_path ''1'') = None"
    using tempNames_apart' [of sample_path "''1''"]
    by (simp add: entries_visible) (simp add: visible_def sample_disk_def)
  with faultless [OF w2(2,3), of sample_path "Encoded (Inr ''new'')" "''new''"] old rd w2(1) show ?thesis
    by (auto simp: writeStateAtomic_def replaceState_def sample_codec_def split: prod.splits)
qed

theorem save_load_roundtrip_witness:
  "\<exists>s info. loadStateWithReader sample_codec sample_path (diskReader (io_disk (snd (writeStateAtomic sample_codec sample_path
     (Some (sample_state [3])) (startIO sample_disk [] [''1'']))))) = Inr (s, info) \<and> m_lookup (Blocks s) ''osmosis'' = Some [3]"
proof -
  let ?r = "writeStateAtomic sample_codec sample_path (Some (sample_state [3])) (startIO sample_disk [] [''1''])"
  have "same_document doc doc" for doc
    by (simp add: same_document_def same_map_def same_nested_def same_alarms_def split: option.splits)
  then have "codec_faithful sample_codec (documentOf (sample_state [3]))"
    by (simp add: codec_faithful_def sample_codec_def)
  with save_load_roundtrip [of "startIO sample_disk [] [''1'']" sample_codec sample_path "sample_state [3]" "snd ?r"]
    sample_save_succeeds sample_disk_wf
  obtain s info where "loadStateWithReader sample_codec sample_path (diskReader (io_disk (snd ?r))) = Inr (s, info)"
    "same_document (documentOf (sample_state [3])) (documentOf s)" by (auto simp: prod_eq_iff sample_state_def)
  moreover from this(2) have "m_lookup (Blocks s) = m_lookup (Map [(''osmosis'', [3])])"
    by (simp add: same_document_def same_map_def documentOf_def sample_state_def)
  then have "m_lookup (Blocks s) ''osmosis'' = Some [3]" by (simp add: m_lookup_def)
  ultimately show ?thesis by blast
qed

text \<open>A state file is accepted exactly when it is not blank and holds a single JSON document, of version 0
  or 1, with at least one of its fields; only version 0 counts as legacy.\<close>

theorem decode_state_exact:
  "decodeState codec data = Inr (s, info) \<longleftrightarrow>
     trimSpaceLeft data \<noteq> [] \<and>
     (\<exists>doc rest. decodeDocument codec data = Inr (Some doc, rest) \<and> decodeTrailing codec rest = Eof \<and>
        doc_Version doc \<in> {0, 1} \<and>
        (doc_Alarms doc \<noteq> None \<or> doc_Blocks doc \<noteq> NilMap \<or> doc_NodesDown doc \<noteq> NilMap) \<and>
        s = \<lparr>Alarms = doc_Alarms doc, Blocks = doc_Blocks doc, NodesDown = doc_NodesDown doc\<rparr> \<and>
        info = \<lparr>Source = None, Version = doc_Version doc, Legacy = (doc_Version doc = 0), RecoveredFromBackup = False\<rparr>)"
  by (auto simp: decodeState_def currentStateVersion_def emptyLoadInfo_def split: sum.splits option.splits trailing.splits if_splits)

text \<open>C34: Loading never forgets: it starts empty only if neither file exists; a state that it returns was
  read from the state file, or from the backup if the state file holds no valid state, and
  this is reported; it fails exactly when a file exists and neither holds a valid state.\<close>

theorem load_never_forgets:
  "case loadStateWithReader codec p rd of
     Inr (s, info) \<Rightarrow>
       (case Source info of
          None \<Rightarrow> rd p = Inl NotExist \<and> rd (backupPath p) = Inl NotExist \<and> s = emptySavedState
        | Some q \<Rightarrow> (\<exists>data i. rd q = Inr data \<and> decodeState codec data = Inr (s, i)) \<and>
            (if RecoveredFromBackup info then q = backupPath p \<and> (\<forall>data. rd p = Inr data \<longrightarrow> \<not> valid codec data) else q = p))
   | Inl e \<Rightarrow> (\<forall>q\<in>{p, backupPath p}. \<forall>data. rd q = Inr data \<longrightarrow> \<not> valid codec data) \<and>
       (\<exists>q\<in>{p, backupPath p}. rd q \<noteq> Inl NotExist)"
proof -
  have not_missing: "decodeState codec data \<noteq> Inl NotExist" for data
    by (auto simp: decodeState_def split: sum.splits option.splits trailing.splits)
  have fresh: "Source info = None \<and> \<not> RecoveredFromBackup info" if "decodeState codec data = Inr (s, info)" for data s info
    using that by (auto simp: decodeState_def emptyLoadInfo_def split: sum.splits option.splits trailing.splits if_splits)
  show ?thesis
  proof (cases "readStateCandidate codec p rd")
    case (Inr x)
    then obtain s i data where "x = (s, i)" "rd p = Inr data" "decodeState codec data = Inr (s, i)"
      by (cases x) (auto simp: readStateCandidate_def split: sum.splits)
    with Inr fresh [of data s i] show ?thesis by (simp add: loadStateWithReader_def)
  next
    case primary: (Inl e)
    then have bad: "\<forall>data. rd p = Inr data \<longrightarrow> \<not> valid codec data" "e = NotExist \<longleftrightarrow> rd p = Inl NotExist"
      using not_missing by (auto simp: readStateCandidate_def valid_def split: sum.splits)
    show ?thesis
    proof (cases "readStateCandidate codec (backupPath p) rd")
      case (Inr x)
      then obtain s i data where "x = (s, i)" "rd (backupPath p) = Inr data" "decodeState codec data = Inr (s, i)"
        by (cases x) (auto simp: readStateCandidate_def split: sum.splits)
      with primary Inr bad(1) show ?thesis by (simp add: loadStateWithReader_def)
    next
      case (Inl e')
      then have "\<forall>data. rd (backupPath p) = Inr data \<longrightarrow> \<not> valid codec data" "e' = NotExist \<longleftrightarrow> rd (backupPath p) = Inl NotExist"
        using not_missing by (auto simp: readStateCandidate_def valid_def split: sum.splits)
      with primary Inl bad show ?thesis by (auto simp: loadStateWithReader_def emptyLoadInfo_def)
    qed
  qed
qed

theorem load_never_forgets_witness:
  "\<exists>s info. loadStateWithReader sample_codec sample_path (\<lambda>q. if q = sample_path then Inr ''torn'' else Inr ''old'') = Inr (s, info) \<and>
     RecoveredFromBackup info \<and> Source info = Some (backupPath sample_path)"
proof -
  let ?rd = "\<lambda>q. if q = sample_path then Inr ''torn'' else Inr ''old'' :: state_error + string"
  have other: "backupPath sample_path \<noteq> sample_path" by (simp add: backupPath_def sample_path_def stateBackupSuffix_def)
  have torn: "\<not> valid sample_codec ''torn''" by (simp add: valid_def decodeState_def sample_codec_def)
  have old: "valid sample_codec ''old''" using sample_decodes(2) by (auto simp: valid_def)
  show ?thesis
  proof (cases "loadStateWithReader sample_codec sample_path ?rd")
    case (Inl e)
    then show ?thesis using load_never_forgets [where codec = sample_codec and p = sample_path and rd = ?rd] other old by simp
  next
    case (Inr r)
    obtain s info where r: "r = (s, info)" by (cases r)
    then show ?thesis using load_never_forgets [where codec = sample_codec and p = sample_path and rd = ?rd] Inr torn
      by (cases "Source info") (auto simp: valid_def split: if_splits)
  qed
qed

end
