(* ===== verification/Vulncheck.thy ===== *)
theory Vulncheck
  imports Cli StateFile "HOL-Library.Char_ord" "HOL-Library.List_Lexorder"
begin

text \<open>
  The review tool \<open>src/scripts/check-govulncheck.go\<close>, which compares the findings of a vulnerability scan with a reviewed
  list. Sets are maps to the empty struct. Reading the files and decoding the JSON of the report are arguments: a file is its bytes or an
  error of \<open>os.Open\<close>, a report the decoded events in order and the decoding error that ended them, if any. What is
  printed is not modelled.

  Shown: the tool succeeds exactly when the reachable findings are exactly the reviewed ones.
\<close>

section \<open>The reviewed list\<close>

text \<open>The size of the buffer of \<open>bufio.Scanner\<close>: a line of so many bytes does not fit.\<close>

definition maxLine :: nat where "maxLine = 65536"

type_synonym idset = "(string, unit) gmap"

definition members :: "idset \<Rightarrow> string set" where
  "members s = dom (m_lookup s)"

text \<open>\<open>bufio.ScanLines\<close>: the text up to the line feed, without a carriage return before it.\<close>

definition dropCR :: "string \<Rightarrow> string" where
  "dropCR s = (if s \<noteq> [] \<and> last s = CHR 0x0D then butlast s else s)"

function scanLines :: "string \<Rightarrow> string list" where
  "scanLines [] = []"
| "scanLines (c # s) = takeWhile (\<lambda>x. x \<noteq> CHR 0x0A) (c # s) # scanLines (drop 1 (dropWhile (\<lambda>x. x \<noteq> CHR 0x0A) (c # s)))"
  by pat_completeness auto
termination
proof (relation "measure length")
  show "(drop 1 (dropWhile (\<lambda>x. x \<noteq> CHR 0x0A) (c # s)), c # s) \<in> measure length" for c s
    using length_dropWhile_le [of "\<lambda>x. x \<noteq> CHR 0x0A" s] by auto
qed simp

text \<open>\<open>strings.TrimSpace\<close>: the white space of \<open>unicode.IsSpace\<close> is dropped on both sides.\<close>

function trimSpaceRight :: "string \<Rightarrow> string" where
  "trimSpaceRight s =
     (case find (HasSuffix s) spaceRunes of
        None \<Rightarrow> s
      | Some r \<Rightarrow> trimSpaceRight (take (length s - length r) s))"
  by pat_completeness auto
termination
proof (relation "measure length")
  fix s r assume "find (HasSuffix s) spaceRunes = Some r"
  then have "r \<in> set spaceRunes" "HasSuffix s r" by (auto simp: find_Some_iff)
  moreover from this have "r \<noteq> []" by (auto simp: spaceRunes_def)
  ultimately show "(take (length s - length r) s, s) \<in> measure length" by (auto simp: HasSuffix_iff)
qed simp

declare trimSpaceRight.simps [simp del]

definition lineEntry :: "string \<Rightarrow> string" where
  "lineEntry line = trimSpaceRight (trimSpaceLeft (takeWhile (\<lambda>c. c \<noteq> CHR ''#'') (dropCR line)))"

text \<open>The scanner stops with an error at a line that does not fit its buffer.\<close>

fun scanEntries :: "string list \<Rightarrow> idset \<Rightarrow> idset \<times> bool" where
  "scanEntries [] allowed = (allowed, True)"
| "scanEntries (l # ls) allowed =
     (if maxLine \<le> length l then (allowed, False)
      else scanEntries ls (if lineEntry l \<noteq> '''' then m_ins (lineEntry l) () allowed else allowed))"

definition loadAllowlist :: "string + string \<Rightarrow> string + idset" where
  "loadAllowlist listFile =
     (case listFile of
        Inl e \<Rightarrow> Inl e
      | Inr listText \<Rightarrow> (case scanEntries (scanLines listText) mkmap of
          (allowed, ok) \<Rightarrow> if ok then Inr allowed else Inl ''bufio.Scanner: token too long''))"

section \<open>The report\<close>

record finding =
  OSV :: string
  Trace :: "string list"

record event =
  Finding :: "finding option"

text \<open>The reachable finding of an event.\<close>

definition reachable :: "event \<Rightarrow> string option" where
  "reachable item =
     (case Finding item of
        None \<Rightarrow> None
      | Some f \<Rightarrow> if OSV f = '''' then None else if list_ex (\<lambda>function. function \<noteq> '''') (Trace f) then Some (OSV f) else None)"

fun symbolFindings :: "event list \<Rightarrow> string option \<Rightarrow> idset \<Rightarrow> string + idset" where
  "symbolFindings [] decodeError found =
     (case decodeError of None \<Rightarrow> Inr found | Some e \<Rightarrow> Inl (''decode govulncheck JSON: '' @ e))"
| "symbolFindings (item # items) decodeError found =
     symbolFindings items decodeError (case reachable item of None \<Rightarrow> found | Some osv \<Rightarrow> m_ins osv () found)"

section \<open>The comparison\<close>

definition difference :: "idset \<Rightarrow> idset \<Rightarrow> string list" where
  "difference left right = sort (filter (\<lambda>i. \<not> m_has right i) (m_keys left))"

definition checkMain ::
  "(string \<Rightarrow> string + string) \<Rightarrow> (string \<Rightarrow> string + event list \<times> string option) \<Rightarrow> string list \<Rightarrow> int" where
  "checkMain openFile openReport args =
     (case parseFlags [(''allow'', StringFlag)] args of
        Inl e \<Rightarrow> (if e = ErrHelp then 0 else 2)
      | Inr (sets, rest) \<Rightarrow>
          if length rest \<noteq> 1 then 2
          else (case loadAllowlist (openFile (lastSetting ''allow'' ''security/govulncheck-allowlist.txt'' sets)) of
                  Inl e \<Rightarrow> 1
                | Inr allowed \<Rightarrow>
                    (case openReport (hd rest) of
                       Inl e \<Rightarrow> 1
                     | Inr (items, decodeError) \<Rightarrow>
                         (case symbolFindings items decodeError mkmap of
                            Inl e \<Rightarrow> 1
                          | Inr found \<Rightarrow>
                              (let unexpected = difference found allowed; missing = difference allowed found
                               in if 0 < length unexpected \<or> 0 < length missing then 1 else 0)))))"

section \<open>Lemmas\<close>

lemma members_simps [simp]: "members mkmap = {}" "members (m_ins k v m) = insert k (members m)"
  by (auto simp: members_def gmap_simps split: if_splits)

lemma members_has: "m_has s i \<longleftrightarrow> i \<in> members s"
  by (auto simp: members_def m_has_def)

lemma members_keys: "set (m_keys s) = members s"
  using m_has_iff_keys [of s] by (auto simp: members_has)

lemma scanEntries_spec:
  "scanEntries ls allowed = (s, ok) \<Longrightarrow>
     (ok \<longleftrightarrow> (\<forall>l\<in>set ls. length l < maxLine)) \<and> (ok \<longrightarrow> members s = members allowed \<union> (lineEntry ` set ls - {''''}))"
proof (induction ls arbitrary: allowed)
  case (Cons l ls)
  show ?case
  proof (cases "maxLine \<le> length l")
    case False
    define next_allowed where "next_allowed = (if lineEntry l \<noteq> '''' then m_ins (lineEntry l) () allowed else allowed)"
    have "scanEntries ls next_allowed = (s, ok)" using Cons.prems False by (simp add: next_allowed_def)
    then have "(ok \<longleftrightarrow> (\<forall>l\<in>set ls. length l < maxLine)) \<and>
        (ok \<longrightarrow> members s = members next_allowed \<union> (lineEntry ` set ls - {''''}))" using Cons.IH by blast
    then show ?thesis using False by (auto simp: next_allowed_def)
  qed (use Cons.prems in auto)
qed auto

lemma loadAllowlist_spec:
  "case loadAllowlist listFile of
     Inl e \<Rightarrow> \<forall>listText. listFile = Inr listText \<longrightarrow> \<not> list_all (\<lambda>l. length l < 65536) (scanLines listText)
   | Inr s \<Rightarrow> \<exists>listText. listFile = Inr listText \<and> list_all (\<lambda>l. length l < 65536) (scanLines listText) \<and>
       members s = lineEntry ` set (scanLines listText) - {''''}"
proof (cases listFile)
  case (Inr listText)
  obtain s ok where s: "scanEntries (scanLines listText) mkmap = (s, ok)" by force
  from scanEntries_spec [OF s] show ?thesis by (cases ok) (simp_all add: loadAllowlist_def Inr s list_all_iff maxLine_def)
qed (simp add: loadAllowlist_def)

lemma symbolFindings_spec:
  "case symbolFindings items decodeError found of
      Inl e \<Rightarrow> decodeError \<noteq> None
    | Inr s \<Rightarrow> decodeError = None \<and> members s = members found \<union> {i. Some i \<in> reachable ` set items}"
proof (induction items arbitrary: found)
  case (Cons item items)
  let ?found = "case reachable item of None \<Rightarrow> found | Some osv \<Rightarrow> m_ins osv () found"
  have "members ?found \<union> {i. Some i \<in> reachable ` set items} = members found \<union> {i. Some i \<in> reachable ` set (item # items)}"
    by (cases "reachable item") auto
  then show ?case using Cons.IH [of ?found] by (simp split: sum.splits)
qed (simp split: option.split)

lemma difference_spec: "set (difference l r) = members l - members r" "sorted (difference l r)"
  "m_wf l \<Longrightarrow> distinct (difference l r)"
  by (auto simp: difference_def members_keys members_has m_wf_def)

lemma differences_empty: "difference l r = [] \<and> difference r l = [] \<longleftrightarrow> members l = members r"
proof -
  have "difference l r = [] \<longleftrightarrow> members l - members r = {}" for l r
    using difference_spec(1) [of l r] by (metis set_empty)
  then show ?thesis by blast
qed

section \<open>Properties\<close>

text \<open>C39: A command line that parses makes the tool exit with 0 exactly when it names one report, the list and the report
  could be read to their end, and the identifiers of the findings with a named function in their trace are exactly the entries of the
  list: what remains of its lines without comments and surrounding white space. A new finding and one that is gone both fail.\<close>

theorem vulncheck_exact:
  assumes "parseFlags [(''allow'', StringFlag)] args = Inr (sets, rest)"
  shows "checkMain openFile openReport args = 0 \<longleftrightarrow>
    (\<exists>report listText items. rest = [report] \<and>
       openFile (lastSetting ''allow'' ''security/govulncheck-allowlist.txt'' sets) = Inr listText \<and>
       list_all (\<lambda>l. length l < 65536) (scanLines listText) \<and> openReport report = Inr (items, None) \<and>
       {i. Some i \<in> reachable ` set items} = lineEntry ` set (scanLines listText) - {''''})"
proof (cases "length rest = 1")
  case True
  then obtain report where rest: "rest = [report]" by (cases rest) auto
  define listFile where "listFile = openFile (lastSetting ''allow'' ''security/govulncheck-allowlist.txt'' sets)"
  note main = checkMain_def [of openFile openReport args] assms rest listFile_def
  show ?thesis
  proof (cases "loadAllowlist listFile")
    case (Inl e)
    then show ?thesis using loadAllowlist_spec [of listFile] by (auto simp: main)
  next
    case (Inr allowed)
    then obtain listText where listText: "listFile = Inr listText" "list_all (\<lambda>l. length l < 65536) (scanLines listText)"
        "members allowed = lineEntry ` set (scanLines listText) - {''''}"
      using loadAllowlist_spec [of listFile] by auto
    show ?thesis
    proof (cases "openReport report")
      case (Inl e)
      then show ?thesis using Inr by (simp add: main)
    next
      case r: (Inr r)
      obtain items err where ri: "r = (items, err)" by force
      show ?thesis
      proof (cases "symbolFindings items err mkmap")
        case (Inl e)
        then have "err \<noteq> None" using symbolFindings_spec [where items = items and decodeError = err and found = mkmap] by simp
        then show ?thesis using Inr r ri Inl by (simp add: main)
      next
        case f: (Inr found)
        then have "err = None" "members found = {i. Some i \<in> reachable ` set items}"
          using symbolFindings_spec [where items = items and decodeError = err and found = mkmap] by simp_all
        moreover have "checkMain openFile openReport args = 0 \<longleftrightarrow> difference found allowed = [] \<and> difference allowed found = []"
          using Inr r ri f by (simp add: main Let_def)
        ultimately show ?thesis using listText r ri rest differences_empty [of found allowed] by (simp add: listFile_def)
      qed
    qed
  qed
next
  case False
  then show ?thesis using assms by (auto simp: checkMain_def)
qed

theorem vulncheck_exact_witness:
  "checkMain (\<lambda>_. Inr ''# reviewed'') (\<lambda>_. Inr ([\<lparr>Finding = Some \<lparr>OSV = ''GO-1'', Trace = ['''', ''f'']\<rparr>\<rparr>], None)) [''report.json''] \<noteq> 0"
proof -
  have args: "parseFlags [(''allow'', StringFlag)] [''report.json''] = Inr ([], [''report.json''])" by (simp add: isFlag_def)
  have "lineEntry ''# reviewed'' = ''''"
    by (simp add: lineEntry_def dropCR_def trimSpaceLeft.simps trimSpaceRight.simps spaceRunes_def HasPrefix_def HasSuffix_def)
  then show ?thesis unfolding vulncheck_exact [OF args] by (simp add: reachable_def)
qed

end
