(* ===== verification/Alerts.thy ===== *)
theory Alerts
  imports ChainState
begin

text \<open>
  The alarms of \<open>src/seer/alert.go\<close> that live in the chain object: \<open>Config.alert\<close>, the
  stalled-chain alarm (\<open>checkStalledAlert\<close>, \<open>recordFinalBlock\<close>) and the slashing-window
  alarm (\<open>checkPercentageAlert\<close>).

  The switch each check runs under \<open>alertStateMux\<close> is a function of its own
  (\<open>stalledSwitch\<close>, \<open>percentageSwitch\<close>) that returns the event it decides on; both
  are interpreted as latches. The checks then publish the event through \<open>alert\<close>, which
  appends to the notification queue and updates the dashboard's alarms. \<open>None\<close> is a panic: an
  unknown chain is a nil dereference, as in the source.
\<close>

section \<open>Publishing an alert\<close>

definition mkAlert ::
  "Config \<Rightarrow> ChainConfig \<Rightarrow> string \<Rightarrow> string \<Rightarrow> string \<Rightarrow> bool \<Rightarrow> string option \<Rightarrow> alertMsg" where
  "mkAlert c ch chainName msg sev res uid =
     \<lparr>pd = (pd_Enabled (Pagerduty c) \<and> pd_Enabled (al_Pagerduty (Alerts ch))),
      disc = (di_Enabled (Discord c) \<and> di_Enabled (al_Discord (Alerts ch))),
      tg = (tg_Enabled (Telegram c) \<and> tg_Enabled (al_Telegram (Alerts ch))),
      slk = (slk_Enabled (Slack c) \<and> slk_Enabled (al_Slack (Alerts ch))),
      severity = sev, resolved = res, chain = chainName, message = msg,
      uniqueId = (case uid of None \<Rightarrow> ValAddress ch | Some i \<Rightarrow> i),
      key = pd_ApiKey (al_Pagerduty (Alerts ch)),
      tgChannel = tg_Channel (al_Telegram (Alerts ch)),
      tgKey = tg_ApiKey (al_Telegram (Alerts ch)),
      tgMentions = Join (tg_Mentions (al_Telegram (Alerts ch))) '' '',
      discHook = di_Webhook (al_Discord (Alerts ch)),
      discMentions = Join (di_Mentions (al_Discord (Alerts ch))) '' '',
      slkHook = slk_Webhook (al_Slack (Alerts ch)),
      slkMentions = ''''\<rparr>"

definition alert ::
  "time \<Rightarrow> string \<Rightarrow> string \<Rightarrow> string \<Rightarrow> bool \<Rightarrow> string option \<Rightarrow> Config \<Rightarrow> Config option" where
  "alert now chainName msg sev res uid c =
     (if \<not> accepting c then Some c
      else case chainAt c chainName of
        None \<Rightarrow> None
      | Some ch \<Rightarrow>
          do { al \<leftarrow> recordDashboardAlarm now chainName msg res (alarms c);
               Some (c\<lparr>alertChan := alertChan c @ [mkAlert c ch chainName msg sev res uid],
                       alarms := al\<rparr>) })"

section \<open>The stalled-chain alarm\<close>

definition stalledMessage :: "ChainConfig \<Rightarrow> string" where
  "stalledMessage cc =
     ''stalled: have not seen a new block on '' @ ChainId cc @ '' in '' @
     itoa (Stalled (Alerts cc)) @ '' minutes''"

definition stalledSwitch :: "time \<Rightarrow> ChainConfig \<Rightarrow> alarm_event list \<times> ChainConfig" where
  "stalledSwitch now cc =
     (if StalledAlerts (Alerts cc) \<and> \<not> lastBlockAlarm cc \<and> \<not> IsZero (lastBlockTime cc) \<and>
         Before (lastBlockTime cc) (Add now (wrap64 (- Stalled (Alerts cc) * Minute)))
      then ([Raise], cc\<lparr>lastBlockAlarm := True\<rparr>)
      else if StalledAlerts (Alerts cc) \<and> lastBlockAlarm cc \<and> stalledResolutionPending cc
      then ([Clear], cc\<lparr>lastBlockAlarm := False, stalledResolutionPending := False\<rparr>)
      else ([], cc))"

definition checkStalledAlert :: "time \<Rightarrow> string \<Rightarrow> Config \<Rightarrow> Config option" where
  "checkStalledAlert now k td =
     (case chainAt td k of
        None \<Rightarrow> None
      | Some cc0 \<Rightarrow>
          (case stalledSwitch now cc0 of
             ([], cc) \<Rightarrow> Some (putChain k cc td)
           | (e # _, cc) \<Rightarrow>
               let res = (e = Clear);
                   valcons = (case fst (validatorInfoSnapshot cc) of None \<Rightarrow> '''' | Some vi \<Rightarrow> Valcons vi)
               in do { td1 \<leftarrow> alert now (name cc) (stalledMessage cc)
                         (if res then ''info'' else ''critical'') res (Some valcons)
                         (putChain k cc td);
                       Some (if res then td1\<lparr>alarms := clearNoBlocks (name cc) (alarms td1)\<rparr>
                             else td1) }))"

definition recordFinalBlock :: "time \<Rightarrow> ChainConfig \<Rightarrow> time \<times> ChainConfig" where
  "recordFinalBlock now cc =
     (let cc1 = cc\<lparr>lastBlockTime := now\<rparr>
      in (lastBlockTime cc,
          if lastBlockAlarm cc1 then cc1\<lparr>stalledResolutionPending := True\<rparr> else cc1))"

definition lastFinalBlockTime :: "ChainConfig \<Rightarrow> time" where
  "lastFinalBlockTime cc = lastBlockTime cc"

section \<open>The slashing-window alarm\<close>

definition percentMissed :: "ValInfo \<Rightarrow> float64" where
  "percentMissed vi = f64_div (f64_mul 100 (f64_of_int (Missed vi))) (f64_of_int (Window vi))"

definition percentageSwitch :: "ValInfo option \<Rightarrow> ChainConfig \<Rightarrow> alarm_event list \<times> ChainConfig" where
  "percentageSwitch info cc =
     (case info of
        None \<Rightarrow> ([], cc)
      | Some vi \<Rightarrow>
          if \<not> PercentageAlerts (Alerts cc) \<or> Window vi = 0 then ([], cc)
          else if \<not> percentageAlarm cc \<and> f64_of_int (al_Window (Alerts cc)) < percentMissed vi
          then ([Raise], cc\<lparr>percentageAlarm := True\<rparr>)
          else if percentageAlarm cc \<and> percentMissed vi < f64_of_int (al_Window (Alerts cc))
          then ([Clear], cc\<lparr>percentageAlarm := False\<rparr>)
          else ([], cc))"

definition percentageMessage :: "ValInfo \<Rightarrow> ChainConfig \<Rightarrow> string" where
  "percentageMessage vi cc =
     Moniker vi @ '' has missed > '' @ itoa (al_Window (Alerts cc)) @
     ''% of the slashing window's blocks on '' @ ChainId cc"

definition refreshActiveAlerts :: "string \<Rightarrow> Config \<Rightarrow> Config option" where
  "refreshActiveAlerts k td =
     (case chainAt td k of
        None \<Rightarrow> None
      | Some cc \<Rightarrow> Some (putChain k (cc\<lparr>activeAlerts := getCount (name cc) (alarms td)\<rparr>) td))"

definition checkPercentageAlert :: "time \<Rightarrow> string \<Rightarrow> Config \<Rightarrow> Config option" where
  "checkPercentageAlert now k td =
     (case chainAt td k of
        None \<Rightarrow> None
      | Some cc0 \<Rightarrow>
          (case (fst (validatorInfoSnapshot cc0), percentageSwitch (fst (validatorInfoSnapshot cc0)) cc0) of
             (Some vi, e # _, cc) \<Rightarrow>
               do { td1 \<leftarrow> alert now (name cc) (percentageMessage vi cc)
                      (if e = Clear then ''info'' else PercentagePriority (Alerts cc)) (e = Clear)
                      (Some (Valcons vi @ ''percent'')) (putChain k cc td);
                    refreshActiveAlerts k td1 }
           | (_, _, cc) \<Rightarrow> Some (putChain k cc td)))"

section \<open>Lemmas on alerts\<close>

lemma td_wf_queue [simp]: "td_wf (c\<lparr>alertChan := q\<rparr>) = td_wf c"
  by (simp add: td_wf_def)

lemma td_wf_alarms: "td_wf c \<Longrightarrow> cache_wf al \<Longrightarrow> td_wf (c\<lparr>alarms := al\<rparr>)"
  by (simp add: td_wf_def)

lemma alert_effect:
  assumes wf: "td_wf c" and acc: "accepting c" and ch: "chainAt c k = Some ch"
  obtains al where
    "alert now k msg sev res uid c =
       Some (c\<lparr>alertChan := alertChan c @ [mkAlert c ch k msg sev res uid], alarms := al\<rparr>)"
    "recordDashboardAlarm now k msg res (alarms c) = Some al" "cache_wf al"
proof -
  have cw: "cache_wf (alarms c)" using wf by (simp add: td_wf_def)
  then obtain al where al: "recordDashboardAlarm now k msg res (alarms c) = Some al"
    by (auto simp: cache_wf_def elim: record_made)
  with cw have "cache_wf al" by (rule cache_wf_record)
  with al that acc ch show ?thesis by (simp add: alert_def)
qed

text \<open>Whatever the shutdown state, an alert on a known chain does not panic.\<close>

lemma alert_total:
  assumes wf: "td_wf c" and ch: "chainAt c k \<noteq> None"
  obtains q al where "alert now k msg sev res uid c = Some (c\<lparr>alertChan := alertChan c @ q, alarms := al\<rparr>)"
    "cache_wf al" "td_wf (c\<lparr>alertChan := alertChan c @ q, alarms := al\<rparr>)"
proof (cases "accepting c")
  case True
  from ch obtain cc where "chainAt c k = Some cc" by auto
  then obtain al where
    "alert now k msg sev res uid c =
       Some (c\<lparr>alertChan := alertChan c @ [mkAlert c cc k msg sev res uid], alarms := al\<rparr>)" "cache_wf al"
    using alert_effect [OF wf True] by metis
  with wf that show ?thesis by (simp add: td_wf_def)
next
  case False
  have "cache_wf (alarms c)" using wf by (simp add: td_wf_def)
  with False wf that [where q = "[]" and al = "alarms c"] show ?thesis by (simp add: alert_def)
qed

lemma alert_stopped: "\<not> accepting c \<Longrightarrow> alert now k msg sev res uid c = Some c"
  by (simp add: alert_def)

section \<open>The stalled-chain alarm is a latch\<close>

text \<open>What reaches the alarm: the checks of the watch loop and the final blocks.\<close>

datatype stalled_input = StalledCheck time | FinalBlock time

fun stalled_act :: "stalled_input \<Rightarrow> ChainConfig \<Rightarrow> alarm_event list \<times> ChainConfig" where
  "stalled_act (StalledCheck now) cc = stalledSwitch now cc"
| "stalled_act (FinalBlock now) cc = ([], snd (recordFinalBlock now cc))"

interpretation stalled: latch stalled_act lastBlockAlarm
proof unfold_locales
  fix i cc
  show "fst (stalled_act i cc) = [] \<or> fst (stalled_act i cc) = [Raise] \<or> fst (stalled_act i cc) = [Clear]"
    by (cases i) (simp_all add: stalledSwitch_def)
  show "fst (stalled_act i cc) = [] \<Longrightarrow> lastBlockAlarm (snd (stalled_act i cc)) = lastBlockAlarm cc"
    by (cases i) (simp_all add: stalledSwitch_def recordFinalBlock_def Let_def split: if_splits)
  show "fst (stalled_act i cc) = [Raise] \<Longrightarrow> \<not> lastBlockAlarm cc \<and> lastBlockAlarm (snd (stalled_act i cc))"
    by (cases i) (simp_all add: stalledSwitch_def split: if_splits)
  show "fst (stalled_act i cc) = [Clear] \<Longrightarrow> \<not> lastBlockAlarm (snd (stalled_act i cc))"
    by (cases i) (simp_all add: stalledSwitch_def split: if_splits)
  show "fst (stalled_act i cc) = [Clear] \<Longrightarrow> lastBlockAlarm cc"
    by (cases i) (simp_all add: stalledSwitch_def split: if_splits)
qed

text \<open>A resolution is pending only while the alarm is on.\<close>

lemma pending_invariant:
  "(stalledResolutionPending cc \<longrightarrow> lastBlockAlarm cc) \<Longrightarrow>
     stalledResolutionPending (snd (stalled_act i cc)) \<longrightarrow> lastBlockAlarm (snd (stalled_act i cc))"
  by (cases i) (auto simp: stalledSwitch_def recordFinalBlock_def Let_def)

lemma stalledSwitch_keeps [simp]:
  "name (snd (stalledSwitch now cc)) = name cc" "Alerts (snd (stalledSwitch now cc)) = Alerts cc"
  "ChainId (snd (stalledSwitch now cc)) = ChainId cc" "valInfo (snd (stalledSwitch now cc)) = valInfo cc"
  "lastBlockTime (snd (stalledSwitch now cc)) = lastBlockTime cc"
  by (simp_all add: stalledSwitch_def)

lemma stalledMessage_prefix: "HasPrefix (stalledMessage cc) stalledPrefix"
  by (simp add: HasPrefix_def stalledMessage_def stalledPrefix_def)

text \<open>For a threshold whose nanoseconds fit into 64 bits the test is the elapsed time.\<close>

lemma stalled_threshold:
  assumes "0 \<le> Stalled (Alerts cc)" "Stalled (Alerts cc) * Minute < 2 ^ 63"
  shows "fst (stalledSwitch now cc) = [Raise] \<longleftrightarrow>
    StalledAlerts (Alerts cc) \<and> \<not> lastBlockAlarm cc \<and> lastBlockTime cc \<noteq> 0 \<and>
    Stalled (Alerts cc) * Minute < now - lastBlockTime cc"
proof -
  have "0 \<le> Stalled (Alerts cc) * Minute" using assms by (simp add: time_simps)
  with assms have "wrap64 (- Stalled (Alerts cc) * Minute) = - (Stalled (Alerts cc) * Minute)"
    by (simp add: wrap64_id)
  then show ?thesis
    by (auto simp: stalledSwitch_def IsZero_def Before_def Add_def)
qed

section \<open>The slashing-window alarm is a latch\<close>

interpretation percentage: latch percentageSwitch percentageAlarm
  by unfold_locales (auto simp: percentageSwitch_def split: option.splits if_splits)

lemma percentageSwitch_keeps [simp]:
  "name (snd (percentageSwitch info cc)) = name cc"
  "Alerts (snd (percentageSwitch info cc)) = Alerts cc"
  "ChainId (snd (percentageSwitch info cc)) = ChainId cc"
  by (simp_all add: percentageSwitch_def split: option.splits)

text \<open>For windows below \<open>2 ^ 53 / 100\<close> the comparison is that of exact percentages.\<close>

lemma percentMissed_exact:
  assumes "0 \<le> Missed vi" "100 * Missed vi < 2 ^ 53" "0 < Window vi" "Window vi < 2 ^ 53"
    and "0 \<le> k" "k * Window vi + 1 < 2 ^ 53"
  shows "f64_of_int k < percentMissed vi \<longleftrightarrow> k * Window vi < 100 * Missed vi"
    and "percentMissed vi < f64_of_int k \<longleftrightarrow> 100 * Missed vi < k * Window vi"
proof -
  have "k * 1 \<le> k * Window vi" using assms by (intro mult_left_mono) auto
  then have k: "f64_of_int k = of_int k" using assms by (intro f64_of_int_exact) auto
  have "f64_mul 100 (f64_of_int (Missed vi)) = of_int (100 * Missed vi)"
    using assms f64_round_int [of "100 * Missed vi"] by (simp add: f64_mul_def f64_of_int_exact)
  moreover have "f64_of_int (Window vi) = of_int (Window vi)"
    using assms by (intro f64_of_int_exact) auto
  ultimately have p: "percentMissed vi = f64_round (of_int (100 * Missed vi) / of_int (Window vi))"
    by (simp only: percentMissed_def f64_div_def)
  show "f64_of_int k < percentMissed vi \<longleftrightarrow> k * Window vi < 100 * Missed vi"
    unfolding p k by (rule f64_div_compare [OF assms(3,5,6)])
  show "percentMissed vi < f64_of_int k \<longleftrightarrow> 100 * Missed vi < k * Window vi"
    unfolding p k by (rule f64_div_compare [OF assms(3,5,6)])
qed

section \<open>Properties\<close>

text \<open>A chain and a process, for the witnesses.\<close>

definition sample_alerts :: AlertConfig where
  "sample_alerts =
     \<lparr>Stalled = 10, StalledAlerts = True, ConsecutiveMissed = 5, ConsecutivePriority = ''critical'',
      ConsecutiveAlerts = True, al_Window = 10, PercentagePriority = ''warning'', PercentageAlerts = True,
      AlertIfInactive = True, AlertIfNoServers = True, PagerdutyAlerts = False, DiscordAlerts = False,
      TelegramAlerts = False, al_Pagerduty = \<lparr>pd_Enabled = True, pd_ApiKey = ''k'', pd_DefaultSeverity = ''alert''\<rparr>,
      al_Discord = \<lparr>di_Enabled = False, di_Webhook = '''', di_Mentions = []\<rparr>,
      al_Telegram = \<lparr>tg_Enabled = False, tg_ApiKey = '''', tg_Channel = '''', tg_Mentions = []\<rparr>,
      al_Slack = \<lparr>slk_Enabled = True, slk_Webhook = ''https://hook'', slk_Mentions = [''@ops'']\<rparr>\<rparr>"

definition sample_chain :: ChainConfig where
  "sample_chain =
     \<lparr>name = ''osmosis'', wsclient = None, client = None, noNodes = False,
      valInfo = Some (emptyValInfo\<lparr>Moniker := ''val'', Missed := 11, Window := 100, Bonded := True\<rparr>),
      lastValInfo = None, blocksResults = [], lastError = '''', lastBlockTime = UnixZero,
      lastBlockAlarm = False, stalledResolutionPending = False, percentageAlarm = False,
      lastBlockNum = 0, activeAlerts = 0, statTotalSigns = 0, statTotalProps = 0, statTotalMiss = 0,
      statPrevoteMiss = 0, statPrecommitMiss = 0, statConsecutiveMiss = 0, ChainId = ''osmosis-1'',
      ValAddress = ''osmovaloper1abc'', ValconsOverride = '''', ExtraInfo = '''',
      Alerts = sample_alerts, PublicFallback = False,
      Nodes = [\<lparr>Url = ''http://a'', AlertIfDown = True, down = False, wasDown = False, syncing = False,
        lastMsg = '''', downSince = 0\<rparr>]\<rparr>"

definition sample_td :: Config where
  "sample_td =
     \<lparr>alertChan = [], updateChan = [], statsChan = [], statsLeft = None, alarms = newAlarmCache,
      accepting = True, EnableDash = True, Listen = ''8888'', HideLogs = False, NodeDownMin = 3,
      NodeDownSeverity = ''critical'', Prom = True, PrometheusListenPort = 28686,
      Pagerduty = \<lparr>pd_Enabled = True, pd_ApiKey = ''k'', pd_DefaultSeverity = ''alert''\<rparr>,
      Discord = \<lparr>di_Enabled = False, di_Webhook = '''', di_Mentions = []\<rparr>,
      Telegram = \<lparr>tg_Enabled = False, tg_ApiKey = '''', tg_Channel = '''', tg_Mentions = []\<rparr>,
      Slack = \<lparr>slk_Enabled = True, slk_Webhook = ''https://hook'', slk_Mentions = []\<rparr>,
      Healthcheck = \<lparr>hc_Enabled = False, PingURL = '''', PingRate = 0\<rparr>,
      Chains = Map [(''osmosis'', sample_chain)]\<rparr>"

lemma sample_td_wf [simp]: "td_wf sample_td"
  by (simp add: td_wf_def sample_td_def sample_chain_def m_wf_def m_keys_def m_lookup_def cache_wf_new)

lemma sample_td_chain [simp]: "chainAt sample_td ''osmosis'' = Some sample_chain"
  "alertChan sample_td = []" "accepting sample_td" "alarms sample_td = newAlarmCache"
  by (simp_all add: sample_td_def m_lookup_def)

text \<open>A stall check on a running process publishes exactly what its switch decided: one queued
  alert (raised or resolved) per event, the alarm shown on the dashboard when raised, and every
  stalled alarm of the chain gone from the dashboard when resolved. It does not panic and
  keeps the process well-formed.\<close>

theorem stalled_check_publishes:
  assumes wf: "td_wf td" and acc: "accepting td" and cc: "chainAt td k = Some cc"
  shows "\<exists>td'. checkStalledAlert now k td = Some td' \<and> td_wf td' \<and>
    chainAt td' k = Some (snd (stalledSwitch now cc)) \<and>
    map (\<lambda>a. (chain a, message a, resolved a)) (alertChan td') =
      map (\<lambda>a. (chain a, message a, resolved a)) (alertChan td) @
      map (\<lambda>e. (k, stalledMessage cc, e = Clear)) (fst (stalledSwitch now cc)) \<and>
    (fst (stalledSwitch now cc) = [Raise] \<longrightarrow>
       on_dashboard (alarms td') k (stalledMessage cc) = Some now) \<and>
    (fst (stalledSwitch now cc) = [Clear] \<longrightarrow>
       (\<forall>m. HasPrefix m stalledPrefix \<longrightarrow> on_dashboard (alarms td') k m = None))"
proof -
  define cc' where "cc' = snd (stalledSwitch now cc)"
  define td0 where "td0 = putChain k cc' td"
  have nm: "name cc' = k" "stalledMessage cc' = stalledMessage cc"
    using td_wf_name [OF wf cc] by (simp_all add: cc'_def stalledMessage_def)
  have td0: "td_wf td0" "accepting td0" "chainAt td0 k = Some cc'" "alertChan td0 = alertChan td"
    using wf acc nm by (simp_all add: td0_def td_wf_putChain)
  have pair: "stalledSwitch now cc = (fst (stalledSwitch now cc), cc')" by (simp add: cc'_def)
  consider (quiet) "fst (stalledSwitch now cc) = []" | (raise) "fst (stalledSwitch now cc) = [Raise]"
    | (clear) "fst (stalledSwitch now cc) = [Clear]"
    using stalled.raise_or_clear [of "StalledCheck now" cc] by auto
  then show ?thesis
  proof cases
    case quiet
    with pair cc td0 show ?thesis by (simp add: checkStalledAlert_def flip: td0_def)
  next
    case raise
    obtain al where "alert now k (stalledMessage cc) ''critical'' False
        (Some (case valInfo cc' of None \<Rightarrow> '''' | Some vi \<Rightarrow> Valcons vi)) td0 =
        Some (td0\<lparr>alertChan := alertChan td0 @ [mkAlert td0 cc' k (stalledMessage cc) ''critical'' False
          (Some (case valInfo cc' of None \<Rightarrow> '''' | Some vi \<Rightarrow> Valcons vi))], alarms := al\<rparr>)"
      "recordDashboardAlarm now k (stalledMessage cc) False (alarms td0) = Some al" "cache_wf al"
      by (rule alert_effect [OF td0(1-3)])
    with raise pair cc nm td0 show ?thesis
      by (simp add: checkStalledAlert_def mkAlert_def validatorInfoSnapshot_def monitoringSnapshot_def
          record_dashboard td_wf_alarms flip: td0_def)
  next
    case clear
    obtain al where "alert now k (stalledMessage cc) ''info'' True
        (Some (case valInfo cc' of None \<Rightarrow> '''' | Some vi \<Rightarrow> Valcons vi)) td0 =
        Some (td0\<lparr>alertChan := alertChan td0 @ [mkAlert td0 cc' k (stalledMessage cc) ''info'' True
          (Some (case valInfo cc' of None \<Rightarrow> '''' | Some vi \<Rightarrow> Valcons vi))], alarms := al\<rparr>)"
      "cache_wf al"
      by (rule alert_effect [OF td0(1-3)])
    with clear pair cc nm td0 show ?thesis
      by (simp add: checkStalledAlert_def mkAlert_def validatorInfoSnapshot_def monitoringSnapshot_def
          clearNoBlocks_dashboard cache_wf_clearNoBlocks td_wf_alarms flip: td0_def)
  qed
qed

theorem stalled_check_publishes_witness:
  "\<exists>td'. checkStalledAlert (UnixZero + 11 * Minute) ''osmosis'' sample_td = Some td' \<and>
     map (\<lambda>a. (chain a, message a, resolved a)) (alertChan td') =
       [(''osmosis'', stalledMessage sample_chain, False)]"
proof -
  have "fst (stalledSwitch (UnixZero + 11 * Minute) sample_chain) = [Raise]"
    by (simp add: stalled_threshold sample_chain_def sample_alerts_def time_simps)
  with stalled_check_publishes [of sample_td "''osmosis''" sample_chain "UnixZero + 11 * Minute"]
  show ?thesis by auto
qed

text \<open>C11: Over every interleaving of stall checks and final blocks, the stalled alarm's events
  alternate, starting with a raise; a check raises exactly when no block was seen for more than
  the configured minutes; and once raised, the first check after a new block resolves it.\<close>

theorem stalled_alarm_cycle:
  assumes "\<not> lastBlockAlarm cc" "\<not> stalledResolutionPending cc" "StalledAlerts (Alerts cc)"
    and "0 \<le> Stalled (Alerts cc)" "Stalled (Alerts cc) * Minute < 2 ^ 63"
  defines "after is \<equiv> run_state stalled_act is cc"
  shows "alternates False (run_events stalled_act is cc) \<and>
    (fst (stalled_act (StalledCheck now) (after is)) = [Raise] \<longleftrightarrow>
       \<not> lastBlockAlarm (after is) \<and> lastBlockTime (after is) \<noteq> 0 \<and>
       Stalled (Alerts cc) * Minute < now - lastBlockTime (after is)) \<and>
    (lastBlockAlarm (after is) \<longrightarrow>
       run_events stalled_act [FinalBlock t, StalledCheck now] (after is) = [Clear])"
proof -
  have al: "Alerts (after is) = Alerts cc" for "is"
    unfolding after_def
  proof (induction "is" arbitrary: cc)
    case (Cons i "is")
    then show ?case
      by (cases i) (simp_all add: recordFinalBlock_def Let_def)
  qed simp
  have "alternates False (run_events stalled_act is cc)"
    using stalled.run_latch [of cc "is"] assms(1) by simp
  moreover have "run_events stalled_act [FinalBlock t, StalledCheck now] (after is) = [Clear]"
    if "lastBlockAlarm (after is)"
    using that assms(3) al [of "is"]
    by (simp add: recordFinalBlock_def stalledSwitch_def Let_def)
  moreover note stalled_threshold [of "after is" now] al [of "is"] assms(3-5)
  ultimately show ?thesis by simp
qed

theorem stalled_alarm_cycle_witness:
  "run_events stalled_act
     [StalledCheck (UnixZero + 11 * Minute), FinalBlock (UnixZero + 12 * Minute), StalledCheck (UnixZero + 13 * Minute)]
     sample_chain = [Raise, Clear]"
proof -
  have s: "\<not> lastBlockAlarm sample_chain" "\<not> stalledResolutionPending sample_chain"
    "StalledAlerts (Alerts sample_chain)" "0 \<le> Stalled (Alerts sample_chain)"
    "Stalled (Alerts sample_chain) * Minute < 2 ^ 63"
    by (simp_all add: sample_chain_def sample_alerts_def time_simps)
  have r: "stalledSwitch (UnixZero + 11 * Minute) sample_chain = ([Raise], sample_chain\<lparr>lastBlockAlarm := True\<rparr>)"
    by (simp add: stalledSwitch_def sample_chain_def sample_alerts_def time_simps wrap64_def)
  show ?thesis
    using stalled_alarm_cycle [OF s, of "[StalledCheck (UnixZero + 11 * Minute)]"
        "UnixZero + 13 * Minute" "UnixZero + 12 * Minute"]
    by (simp add: r)
qed

text \<open>C26: The slashing-window alarm, over every sequence of validator refreshes, alternates between
  raise and resolve; and for windows of realistic size the float64 comparison is exact: it raises
  when strictly more, and resolves when strictly less, than the configured percentage is missed.\<close>

theorem percentage_alarm_exact:
  assumes "\<not> percentageAlarm cc" "PercentageAlerts (Alerts cc)"
    and "0 \<le> Missed vi" "100 * Missed vi < 2 ^ 53" "0 < Window vi" "Window vi < 2 ^ 53"
    and "0 \<le> al_Window (Alerts cc)" "al_Window (Alerts cc) * Window vi + 1 < 2 ^ 53"
  shows "alternates False (run_events percentageSwitch infos cc) \<and>
    fst (percentageSwitch (Some vi) cc) =
      (if al_Window (Alerts cc) * Window vi < 100 * Missed vi then [Raise] else []) \<and>
    fst (percentageSwitch (Some vi) (cc\<lparr>percentageAlarm := True\<rparr>)) =
      (if 100 * Missed vi < al_Window (Alerts cc) * Window vi then [Clear] else [])"
  using percentage.run_latch [of cc infos] percentMissed_exact [OF assms(3-8)] assms(1,2,5)
  by (simp add: percentageSwitch_def)

theorem percentage_alarm_exact_witness:
  "fst (percentageSwitch (valInfo sample_chain) sample_chain) = [Raise]"
  using percentage_alarm_exact [of sample_chain "the (valInfo sample_chain)" "[]"]
  by (simp add: sample_chain_def sample_alerts_def emptyValInfo_def)

end
