(* ===== verification/Blocks.thy ===== *)
theory Blocks
  imports Alerts
begin

text \<open>
  Block and vote events: \<open>src/seer/rpc_contract.go\<close> (classification, consensus addresses),
  the wire formats of \<open>cometbft_adapter.go\<close> and the event loops of \<open>ws.go\<close>.

  JSON decoding is the boundary: a reply arrives as the wire structure \<open>json.Unmarshal\<close> filled
  in, or as its failure. \<open>statusStep\<close> is one round of the goroutine of \<open>WsRun\<close> that
  consumes status updates; \<open>handleBlocksStep\<close> and \<open>handleVotesStep\<close> are rounds of the loops that
  produce them.

  The lemmas: addresses and heights survive their encodings, the result recorded for a block
  is the highest status seen for it, and the counters count what they are named for.
\<close>

section \<open>Addresses\<close>

definition hexDigit :: "nat \<Rightarrow> char" where
  "hexDigit n = (if n < 10 then char_of (48 + n) else char_of (87 + n))"

fun EncodeToString :: "byte list \<Rightarrow> string" where
  "EncodeToString [] = ''''"
| "EncodeToString (b # bs) = hexDigit (unat b div 16) # hexDigit (unat b mod 16) # EncodeToString bs"

definition upperChar :: "char \<Rightarrow> char" where
  "upperChar c = (if 97 \<le> (of_char c :: nat) \<and> (of_char c :: nat) \<le> 122 then char_of (of_char c - 32 :: nat) else c)"

definition lowerChar :: "char \<Rightarrow> char" where
  "lowerChar c = (if 65 \<le> (of_char c :: nat) \<and> (of_char c :: nat) \<le> 90 then char_of (of_char c + 32 :: nat) else c)"

text \<open>\<open>strings.ToUpper\<close> and \<open>ToLower\<close>, on the ASCII letters; hexadecimal text has no others.\<close>

definition ToUpper :: "string \<Rightarrow> string" where "ToUpper = map upperChar"
definition ToLower :: "string \<Rightarrow> string" where "ToLower = map lowerChar"

definition fromHexChar :: "char \<Rightarrow> nat option" where
  "fromHexChar c =
     (let n = of_char c
      in if 48 \<le> n \<and> n \<le> 57 then Some (n - 48)
         else if 97 \<le> n \<and> n \<le> 102 then Some (n - 87)
         else if 65 \<le> n \<and> n \<le> 70 then Some (n - 55)
         else None)"

text \<open>\<open>hex.DecodeString\<close> with its error ignored: the bytes decoded before the first bad pair.\<close>

fun DecodeString :: "string \<Rightarrow> byte list" where
  "DecodeString (c # d # s) =
     (case (fromHexChar c, fromHexChar d) of
        (Some x, Some y) \<Rightarrow> of_nat (16 * x + y) # DecodeString s
      | _ \<Rightarrow> [])"
| "DecodeString _ = []"

definition normalizeConsensusAddress :: "byte list \<Rightarrow> string" where
  "normalizeConsensusAddress address = ToUpper (EncodeToString address)"

definition ToBytes :: "string \<Rightarrow> byte list" where
  "ToBytes address = DecodeString (ToLower address)"

section \<open>Numbers on the wire\<close>

text \<open>
  \<open>strconv.ParseUint\<close> in base 10 with 64 bits: the digits are read from the left, and an
  overflow ends the parse at once, before later characters are looked at.
\<close>

datatype parse_result = Parsed nat | SyntaxError | RangeError

fun parseDigits :: "string \<Rightarrow> nat \<Rightarrow> parse_result" where
  "parseDigits [] n = Parsed n"
| "parseDigits (c # s) n =
     (let d = of_char c
      in if 48 \<le> d \<and> d \<le> 57
         then if 2 ^ 64 \<le> 10 * n + (d - 48) then RangeError else parseDigits s (10 * n + (d - 48))
         else SyntaxError)"

definition ParseUint :: "string \<Rightarrow> parse_result" where
  "ParseUint s = (if s = [] then SyntaxError else parseDigits s 0)"

text \<open>\<open>strconv.ParseInt\<close> with its error ignored.\<close>

definition ParseInt :: "string \<Rightarrow> int" where
  "ParseInt s =
     (if s = [] then 0
      else let neg = (hd s = CHR ''-''); t = (if hd s = CHR ''+'' \<or> neg then tl s else s)
           in case ParseUint t of
                SyntaxError \<Rightarrow> 0
              | RangeError \<Rightarrow> if neg then - (2 ^ 63) else 2 ^ 63 - 1
              | Parsed un \<Rightarrow>
                  if \<not> neg \<and> 2 ^ 63 \<le> un then 2 ^ 63 - 1
                  else if neg \<and> 2 ^ 63 < un then - (2 ^ 63)
                  else if neg then - int un else int un)"

text \<open>\<open>stringInt64.val\<close>.\<close>

definition val :: "string \<Rightarrow> int" where
  "val v = ParseInt v"

section \<open>Events\<close>

record blockEvent =
  be_Height :: int
  be_ProposerAddress :: string
  be_ValidatorAddresses :: "string list"

record cometBFTBlockWire =
  bw_height :: string
  bw_proposer_address :: string
  bw_signatures :: "string list"

definition decodeBlockEvent :: "cometBFTBlockWire option \<Rightarrow> blockEvent option" where
  "decodeBlockEvent payload =
     (case payload of
        None \<Rightarrow> None
      | Some wire \<Rightarrow>
          Some \<lparr>be_Height = val (bw_height wire), be_ProposerAddress = bw_proposer_address wire,
                be_ValidatorAddresses = fold (\<lambda>s acc. acc @ [s]) (bw_signatures wire) []\<rparr>)"

definition voteTypePrevote :: int where "voteTypePrevote = 1"
definition voteTypePrecommit :: int where "voteTypePrecommit = 2"
definition voteTypeProposal :: int where "voteTypeProposal = 32"

record voteEvent =
  ve_Type :: int
  ve_Height :: int
  ve_ValidatorAddress :: string

record cometBFTVoteWire =
  vw_type :: int
  vw_height :: string
  vw_validator_address :: string

definition decodeVoteEvent :: "cometBFTVoteWire option \<Rightarrow> voteEvent option" where
  "decodeVoteEvent payload =
     (case payload of
        None \<Rightarrow> None
      | Some wire \<Rightarrow>
          Some \<lparr>ve_Type = vw_type wire, ve_Height = val (vw_height wire),
                ve_ValidatorAddress = vw_validator_address wire\<rparr>)"

section \<open>Classification\<close>

definition Statusmissed :: int where "Statusmissed = 0"
definition StatusPrevote :: int where "StatusPrevote = 1"
definition StatusPrecommit :: int where "StatusPrecommit = 2"
definition StatusSigned :: int where "StatusSigned = 3"
definition StatusProposed :: int where "StatusProposed = 4"

record StatusUpdate =
  Height :: int
  Status :: int
  Final :: bool

fun signedBy :: "string \<Rightarrow> string list \<Rightarrow> bool" where
  "signedBy addr [] = False"
| "signedBy addr (signer # signers) = (if signer = addr then True else signedBy addr signers)"

definition classifyBlockEvent :: "blockEvent \<Rightarrow> string \<Rightarrow> StatusUpdate" where
  "classifyBlockEvent event addr =
     (let update = \<lparr>Height = be_Height event, Status = Statusmissed, Final = True\<rparr>
      in if be_ProposerAddress event = addr then update\<lparr>Status := StatusProposed\<rparr>
         else if signedBy addr (be_ValidatorAddresses event) then update\<lparr>Status := StatusSigned\<rparr>
         else update)"

definition classifyVoteEvent :: "voteEvent \<Rightarrow> string \<Rightarrow> StatusUpdate option" where
  "classifyVoteEvent event addr =
     (if ve_ValidatorAddress event \<noteq> addr then None
      else let update = \<lparr>Height = ve_Height event, Status = Statusmissed, Final = False\<rparr>
           in Some (if ve_Type event = voteTypePrevote then update\<lparr>Status := StatusPrevote\<rparr>
                    else if ve_Type event = voteTypePrecommit then update\<lparr>Status := StatusPrecommit\<rparr>
                    else if ve_Type event = voteTypeProposal then update\<lparr>Status := StatusProposed\<rparr>
                    else update))"

section \<open>Consuming status updates\<close>

text \<open>\<open>x++\<close> on a float64 counter.\<close>

definition inc :: "float64 \<Rightarrow> float64" where
  "inc x = f64_add x 1"

definition countResult :: "int \<Rightarrow> ChainConfig \<Rightarrow> ChainConfig" where
  "countResult signState cc =
     (if signState = Statusmissed
      then cc\<lparr>statTotalMiss := inc (statTotalMiss cc), statConsecutiveMiss := inc (statConsecutiveMiss cc)\<rparr>
      else if signState = StatusPrecommit
      then cc\<lparr>statPrecommitMiss := inc (statPrecommitMiss cc), statTotalMiss := inc (statTotalMiss cc),
              statConsecutiveMiss := inc (statConsecutiveMiss cc)\<rparr>
      else if signState = StatusPrevote
      then cc\<lparr>statPrevoteMiss := inc (statPrevoteMiss cc), statTotalMiss := inc (statTotalMiss cc),
              statConsecutiveMiss := inc (statConsecutiveMiss cc)\<rparr>
      else if signState = StatusSigned
      then cc\<lparr>statTotalSigns := inc (statTotalSigns cc), statConsecutiveMiss := 0\<rparr>
      else if signState = StatusProposed
      then cc\<lparr>statTotalProps := inc (statTotalProps cc), statTotalSigns := inc (statTotalSigns cc),
              statConsecutiveMiss := 0\<rparr>
      else cc)"

definition crossMark :: string where
  "crossMark = [CHR 0xE2, CHR 0x9D, CHR 0x8C]"

definition missWarning :: "ValInfo \<Rightarrow> int \<Rightarrow> ChainConfig \<Rightarrow> string" where
  "missWarning vi h cc =
     crossMark @ '' warning      '' @ Moniker vi @ '' missed block '' @ itoa h @ '' on '' @ ChainId cc"

text \<open>The number of healthy nodes and the text appended for the others.\<close>

fun nodeSummary :: "bool \<Rightarrow> NodeConfig list \<Rightarrow> nat \<times> string \<Rightarrow> nat \<times> string" where
  "nodeSummary hideLogs [] acc = acc"
| "nodeSummary hideLogs (node # nodes) (healthy, info) =
     nodeSummary hideLogs nodes
       (if \<not> ns_down (nodeState node) then (healthy + 1, info)
        else if \<not> hideLogs then (healthy, info @ newline @ '' - '' @ ns_lastMsg (nodeState node))
        else (healthy, info))"

definition signingUpdates :: "nat \<Rightarrow> ChainConfig \<Rightarrow> promUpdate list" where
  "signingUpdates healthyNodes cc =
     [mkUpdate metricSigned (statTotalSigns cc) '''' cc,
      mkUpdate metricProposed (statTotalProps cc) '''' cc,
      mkUpdate metricMissed (statTotalMiss cc) '''' cc,
      mkUpdate metricPrevote (statPrevoteMiss cc) '''' cc,
      mkUpdate metricPrecommit (statPrecommitMiss cc) '''' cc,
      mkUpdate metricConsecutive (statConsecutiveMiss cc) '''' cc,
      mkUpdate metricUnealthyNodes (f64_of_int (int (length (Nodes cc)) - int healthyNodes)) '''' cc]"

definition chainStatus ::
  "ValInfo \<Rightarrow> ChainConfig \<Rightarrow> nat \<Rightarrow> int \<Rightarrow> string \<Rightarrow> int list \<Rightarrow> ChainStatus" where
  "chainStatus vi cc healthy h info bs =
     \<lparr>cs_MsgType = ''status'', cs_Name = name cc, cs_ChainId = ChainId cc, cs_Moniker = Moniker vi,
      cs_Bonded = Bonded vi, cs_Jailed = Jailed vi, cs_Tombstoned = Tombstoned vi,
      cs_Missed = Missed vi, cs_Window = Window vi, cs_Nodes = length (Nodes cc),
      cs_HealthyNodes = healthy, cs_ActiveAlerts = activeAlerts cc, cs_Height = h,
      cs_LastError = info, cs_Blocks = bs\<rparr>"

text \<open>
  The result of a final block on the chain object: history, last error and counters. The text
  \<open>stamp\<close> is the printed clock reading that goes into \<open>lastError\<close>.
\<close>

definition recordResult ::
  "string \<Rightarrow> ValInfo \<Rightarrow> int \<Rightarrow> int \<Rightarrow> string \<Rightarrow> ChainConfig \<Rightarrow> int list \<times> string \<times> ChainConfig" where
  "recordResult stamp vi signState h info0 cc0 =
     (let (bs, cc1) = recordBlockResult signState cc0;
          warned = (signState < StatusSigned \<and> Bonded vi);
          info1 = (if warned then info0 @ missWarning vi h cc1 @ newline else info0);
          cc2 = (if warned then cc1\<lparr>lastError := stamp @ '' '' @ info1\<rparr> else cc1)
      in (bs, info1, countResult signState cc2))"

text \<open>The highest status seen for the current block, while the validator is bonded.\<close>

definition raiseSignState :: "StatusUpdate \<Rightarrow> ValInfo \<Rightarrow> int \<Rightarrow> int" where
  "raiseSignState update vi signState =
     (if signState < Status update \<and> Bonded vi then Status update else signState)"

text \<open>
  A final update in two parts: the time of the block, then its result, the dashboard's status
  and the statistics. The flags tell whether the loop goes on.
\<close>

definition blockSeen :: "time \<Rightarrow> string \<Rightarrow> StatusUpdate \<Rightarrow> ChainConfig \<Rightarrow> Config \<Rightarrow> bool \<times> Config" where
  "blockSeen now k update cc td =
     (let (previous, cc1) = recordFinalBlock now (cc\<lparr>lastBlockNum := Height update\<rparr>);
          td1 = putChain k cc1 td
      in if Prom td1
         then emitStat (mkUpdate metricLastBlockSeconds (Seconds (Sub now previous)) '''' cc1) td1
         else (True, td1))"

definition validatorText :: "ValInfo \<Rightarrow> string" where
  "validatorText vi =
     (if Tombstoned vi then ''- validator is tombstoned'' @ newline
      else if Jailed vi then ''- validator is jailed'' @ newline else '''')"

definition publishResult ::
  "string \<Rightarrow> string \<Rightarrow> StatusUpdate \<Rightarrow> ValInfo \<Rightarrow> int \<Rightarrow> ChainConfig \<Rightarrow> Config \<Rightarrow> bool \<times> Config" where
  "publishResult stamp k update vi signState cc1 td2 =
     (let (bs, info1, cc2) = recordResult stamp vi signState (Height update)
            (getAlarms (HideLogs td2) (name cc1) (alarms td2)) cc1;
          (healthy, info2) = nodeSummary (HideLogs td2) (Nodes cc2) (0, info1);
          cc3 = cc2\<lparr>activeAlerts := getCount (name cc2) (alarms td2)\<rparr>;
          td3 = putChain k cc3 td2;
          td4 = (if EnableDash td3
                 then td3\<lparr>updateChan := updateChan td3 @
                        [chainStatus vi cc3 healthy (Height update) (info2 @ validatorText vi) bs]\<rparr>
                 else td3)
      in if Prom td4 then emitStats (signingUpdates healthy cc3) td4 else (True, td4))"

text \<open>One update: whether the loop goes on, the sign state and the process after it.\<close>

definition statusStep ::
  "time \<Rightarrow> string \<Rightarrow> string \<Rightarrow> StatusUpdate \<Rightarrow> int \<Rightarrow> Config \<Rightarrow> (bool \<times> int \<times> Config) option" where
  "statusStep now stamp k update signState0 td =
     do { cc \<leftarrow> chainAt td k;
          (case fst (validatorInfoSnapshot cc) of
             None \<Rightarrow> Some (True, signState0, td)
           | Some vi \<Rightarrow>
               let signState = raiseSignState update vi signState0
               in if \<not> Final update then Some (True, signState, td)
                  else (case blockSeen now k update cc td of
                          (ok, td2) \<Rightarrow>
                            if \<not> ok then Some (False, signState, td2)
                            else do { cc1 \<leftarrow> chainAt td2 k;
                                      (case publishResult stamp k update vi signState cc1 td2 of
                                         (go, td5) \<Rightarrow> Some (go, -1, td5)) })) }"

section \<open>The loops that produce updates\<close>

text \<open>A reply of the subscription, sorted by its type.\<close>

datatype ws_reply = NewBlockReply "cometBFTBlockWire option" | VoteReply "cometBFTVoteWire option" | OtherReply

definition replyOf ::
  "string \<Rightarrow> cometBFTBlockWire option \<Rightarrow> cometBFTVoteWire option \<Rightarrow> ws_reply" where
  "replyOf typ block vote =
     (if typ = ''tendermint/event/NewBlock'' then NewBlockReply block
      else if typ = ''tendermint/event/Vote'' then VoteReply vote else OtherReply)"

text \<open>\<open>handleBlocks\<close>: the live ticker and the blocks; an error ends the websocket client.\<close>

datatype blocks_input = LiveTick time | BlockArrived time "cometBFTBlockWire option"

datatype blocks_output = Idle | Quiet time | Update time StatusUpdate

definition handleBlocksStep :: "string \<Rightarrow> blocks_input \<Rightarrow> time \<Rightarrow> blocks_output" where
  "handleBlocksStep addr i lastBlock =
     (case i of
        LiveTick now \<Rightarrow> if Before lastBlock (Add now (- Minute)) then Idle else Quiet lastBlock
      | BlockArrived now wire \<Rightarrow>
          (case decodeBlockEvent wire of
             None \<Rightarrow> Quiet now
           | Some event \<Rightarrow> Update now (classifyBlockEvent event addr)))"

definition handleVotesStep :: "string \<Rightarrow> cometBFTVoteWire option \<Rightarrow> StatusUpdate option" where
  "handleVotesStep addr wire =
     (case decodeVoteEvent wire of None \<Rightarrow> None | Some event \<Rightarrow> classifyVoteEvent event addr)"

text \<open>The subscriptions the client writes.\<close>

definition QueryNewBlock :: string where "QueryNewBlock = ''tm.event='' @ [CHR 39] @ ''NewBlock'' @ [CHR 39]"
definition QueryVote :: string where "QueryVote = ''tm.event='' @ [CHR 39] @ ''Vote'' @ [CHR 39]"

section \<open>The websocket endpoint\<close>

fun TrimRight :: "string \<Rightarrow> char \<Rightarrow> string" where
  "TrimRight s c = rev (dropWhile (\<lambda>x. x = c) (rev s))"

definition websocketPath :: "string \<Rightarrow> string" where
  "websocketPath u0 =
     (let u = TrimRight u0 (CHR ''/'')
      in if HasSuffix u ''/websocket'' then u else u @ ''/websocket'')"

text \<open>\<open>Inl\<close> is the error; the flag tells that the endpoint is a unix socket.\<close>

definition normalizeScheme :: "bool \<Rightarrow> string \<Rightarrow> string + bool \<times> string" where
  "normalizeScheme allowInsecure scheme =
     (let r = (if scheme \<in> {''http'', ''tcp'', ''ws''} then Inr (False, ''ws'')
               else if scheme = ''unix'' then Inr (True, ''ws'')
               else if scheme \<in> {''https'', ''wss''} then Inr (False, ''wss'')
               else Inl (''protocol '' @ scheme @
                 '' is unknown, valid choices are http, https, tcp, unix, ws, and wss''))
      in case r of
           Inl e \<Rightarrow> Inl e
         | Inr (unix, s) \<Rightarrow>
             if s = ''ws'' \<and> \<not> allowInsecure
             then Inl ''allowInsecure must be true if protocol is not using TLS''
             else Inr (unix, s))"

section \<open>Lemmas on encodings\<close>

lemma hexDigit_back: "n < 16 \<Longrightarrow> fromHexChar (lowerChar (upperChar (hexDigit n))) = Some n"
proof -
  assume "n < 16"
  then have "n \<in> set [0..<16]" by simp
  then show ?thesis
    by (auto simp: upt_rec hexDigit_def upperChar_def lowerChar_def fromHexChar_def)
qed

lemma ToBytes_Encode: "ToBytes (ToUpper (EncodeToString bs)) = bs"
proof (induction bs)
  case Nil
  then show ?case by (simp add: ToBytes_def ToUpper_def ToLower_def)
next
  case (Cons b bs)
  have "unat b < 256" using unsigned_less [of b, where 'a = nat] by simp
  then have "unat b div 16 < 16" "unat b mod 16 < 16" by simp_all
  then have "ToBytes (ToUpper (EncodeToString (b # bs))) =
      of_nat (16 * (unat b div 16) + unat b mod 16) # ToBytes (ToUpper (EncodeToString bs))"
    by (simp add: ToBytes_def ToUpper_def ToLower_def hexDigit_back)
  with Cons show ?case by (simp only: mult_div_mod_eq of_nat_unat word_of_int_uint ucast_id)
qed

lemma digit_char: "d < 10 \<Longrightarrow> of_char (char_of (48 + d) :: char) = (48 + d :: nat)"
  by (simp add: of_char_of)

lemma parseDigits_digits10: "m < 2 ^ 64 \<Longrightarrow> parseDigits (digits10 m @ s) 0 = parseDigits s m"
proof (induction m arbitrary: s rule: digits10.induct)
  case (1 m)
  show ?case
  proof (cases "m < 10")
    case True
    with 1(2) show ?thesis by (subst digits10.simps) (simp add: digit_char del: char_of_def)
  next
    case False
    have step: "10 * (m div 10) + m mod 10 = m" by simp
    have le: "m mod 10 \<le> 9" using mod_less_divisor [of 10 m] by linarith
    have "parseDigits (digits10 (m div 10) @ char_of (48 + m mod 10) # s) 0 =
        parseDigits (char_of (48 + m mod 10) # s) (m div 10)"
      using 1 False by simp
    also have "\<dots> = parseDigits s m"
      using 1(2) digit_char [of "m mod 10"] le by (simp add: Let_def step)
    finally show ?thesis using False by (subst digits10.simps) simp
  qed
qed

lemma digits10_hd: "\<exists>c s. digits10 m = c # s \<and> c \<noteq> CHR ''-'' \<and> c \<noteq> CHR ''+''"
proof (induction m rule: digits10.induct)
  case (1 m)
  show ?case
  proof (cases "m < 10")
    case True
    have "of_char (CHR ''-'') = (45 :: nat)" "of_char (CHR ''+'') = (43 :: nat)" by simp_all
    then have "char_of (48 + m) \<noteq> CHR ''-''" "char_of (48 + m) \<noteq> CHR ''+''"
      using arg_cong [of "char_of (48 + m)" _ "of_char :: char \<Rightarrow> nat"] digit_char [OF True] by fastforce+
    with True show ?thesis by (subst digits10.simps) simp
  next
    case False
    with 1 show ?thesis by (subst digits10.simps) auto
  qed
qed

lemma ParseInt_itoa:
  assumes "- (2 ^ 63) \<le> i" "i < 2 ^ 63"
  shows "ParseInt (itoa i) = i"
proof (cases "i < 0")
  case True
  then have "nat (- i) \<le> 2 ^ 63" using assms by (simp add: nat_le_iff)
  then have "ParseUint (digits10 (nat (- i))) = Parsed (nat (- i))"
    using parseDigits_digits10 [of "nat (- i)" "[]"] digits10_hd [of "nat (- i)"]
    by (auto simp: ParseUint_def)
  with True \<open>nat (- i) \<le> 2 ^ 63\<close> show ?thesis by (simp add: ParseInt_def itoa_def)
next
  case False
  then have n: "nat i < 2 ^ 63" using assms by (simp add: nat_less_iff)
  then have "ParseUint (digits10 (nat i)) = Parsed (nat i)"
    using parseDigits_digits10 [of "nat i" "[]"] digits10_hd [of "nat i"]
    by (auto simp: ParseUint_def)
  moreover obtain c s where "digits10 (nat i) = c # s" "c \<noteq> CHR ''-''" "c \<noteq> CHR ''+''"
    using digits10_hd [of "nat i"] by blast
  ultimately show ?thesis using False n by (simp add: ParseInt_def itoa_def Let_def)
qed

text \<open>Whatever the text, the parsed height is a 64-bit integer.\<close>

lemma ParseInt_range: "- (2 ^ 63) \<le> ParseInt s \<and> ParseInt s < 2 ^ 63"
  by (auto simp: ParseInt_def Let_def split: parse_result.splits)

section \<open>Lemmas on classification\<close>

lemma signedBy_iff [simp]: "signedBy addr signers \<longleftrightarrow> addr \<in> set signers"
  by (induction signers) auto

lemma decode_signers: "fold (\<lambda>s acc. acc @ [s]) xs ys = ys @ xs"
  by (induction xs arbitrary: ys) simp_all

section \<open>Lemmas on status updates\<close>

text \<open>The sign state after the votes of a block: the highest status, or the start.\<close>

lemma raiseSignState_max:
  "Bonded vi \<Longrightarrow> fold (\<lambda>u s. raiseSignState u vi s) us s = fold max (map Status us) s"
  by (induction us arbitrary: s) (simp_all add: raiseSignState_def max_def)

lemma raiseSignState_unbonded: "\<not> Bonded vi \<Longrightarrow> raiseSignState u vi s = s"
  by (simp add: raiseSignState_def)

lemma countResult_frame [simp]:
  "blocksResults (countResult r cc) = blocksResults cc" "name (countResult r cc) = name cc"
  "lastBlockNum (countResult r cc) = lastBlockNum cc" "valInfo (countResult r cc) = valInfo cc"
  "Alerts (countResult r cc) = Alerts cc" "Nodes (countResult r cc) = Nodes cc"
  "ChainId (countResult r cc) = ChainId cc" "lastBlockTime (countResult r cc) = lastBlockTime cc"
  by (simp_all add: countResult_def)

lemma recordFinalBlock_frame [simp]:
  "blocksResults (snd (recordFinalBlock now cc)) = blocksResults cc"
  "name (snd (recordFinalBlock now cc)) = name cc"
  "lastBlockNum (snd (recordFinalBlock now cc)) = lastBlockNum cc"
  "valInfo (snd (recordFinalBlock now cc)) = valInfo cc"
  "lastBlockTime (snd (recordFinalBlock now cc)) = now"
  by (simp_all add: recordFinalBlock_def Let_def)

lemma recordResult_frame [simp]:
  "blocksResults (snd (snd (recordResult stamp vi r h info cc))) =
     blocksResults (snd (recordBlockResult r cc))"
  "name (snd (snd (recordResult stamp vi r h info cc))) = name cc"
  "lastBlockNum (snd (snd (recordResult stamp vi r h info cc))) = lastBlockNum cc"
  "valInfo (snd (snd (recordResult stamp vi r h info cc))) = valInfo cc"
  "lastBlockTime (snd (snd (recordResult stamp vi r h info cc))) = lastBlockTime cc"
  by (simp_all add: recordResult_def recordBlockResult_def Let_def split_def)

text \<open>Updates that are not final change nothing but the sign state.\<close>

lemma statusStep_vote:
  assumes "chainAt td k = Some cc" "valInfo cc = Some vi" "\<not> Final u"
  shows "statusStep now stamp k u s td = Some (True, raiseSignState u vi s, td)"
  using assms by (simp add: statusStep_def validatorInfoSnapshot_def monitoringSnapshot_def Let_def)

text \<open>A final update, while the exporter takes statistics.\<close>

lemma emitStat_open: "statsLeft td = None \<Longrightarrow> emitStat u td = (True, td\<lparr>statsChan := statsChan td @ [u]\<rparr>)"
  by (simp add: emitStat_def)

lemma emitStats_open:
  "statsLeft td = None \<Longrightarrow> emitStats us td = (True, td\<lparr>statsChan := statsChan td @ us\<rparr>)"
  by (induction us arbitrary: td) (simp_all add: emitStat_open)

text \<open>What neither part of a final update touches.\<close>

definition sameOutside :: "string \<Rightarrow> Config \<Rightarrow> Config \<Rightarrow> bool" where
  "sameOutside k td td' \<longleftrightarrow> (\<forall>k'. k' \<noteq> k \<longrightarrow> chainAt td' k' = chainAt td k') \<and>
     alertChan td' = alertChan td \<and> alarms td' = alarms td \<and> accepting td' = accepting td"

lemma blockSeen_effect:
  assumes "td_wf td" "chainAt td k = Some cc" "statsLeft td = None"
  shows "\<exists>td'. blockSeen now k u cc td = (True, td') \<and> td_wf td' \<and> statsLeft td' = None \<and>
    sameOutside k td td' \<and> chainAt td' k = Some (snd (recordFinalBlock now (cc\<lparr>lastBlockNum := Height u\<rparr>)))"
proof -
  define cc1 where "cc1 = snd (recordFinalBlock now (cc\<lparr>lastBlockNum := Height u\<rparr>))"
  have "name cc1 = k" using td_wf_name [OF assms(1,2)] by (simp add: cc1_def)
  then have wf: "td_wf (putChain k cc1 td)" by (rule td_wf_putChain [OF assms(1)])
  define td1 where "td1 = putChain k cc1 td"
  have wf: "td_wf td1" and left: "statsLeft td1 = None" and out: "sameOutside k td td1"
    and at: "chainAt td1 k = Some cc1"
    using wf assms(3) by (simp_all add: td1_def sameOutside_def)
  obtain us where eq: "blockSeen now k u cc td = (if Prom td1 then emitStat us td1 else (True, td1))"
    unfolding blockSeen_def split_def Let_def cc1_def [symmetric] td1_def [symmetric] by blast
  define td2 where "td2 = (if Prom td1 then td1\<lparr>statsChan := statsChan td1 @ [us]\<rparr> else td1)"
  have "blockSeen now k u cc td = (True, td2)"
    unfolding eq td2_def by (simp add: emitStat_open [OF left])
  moreover have "td_wf td2" "statsLeft td2 = None" "sameOutside k td td2" "chainAt td2 k = Some cc1"
    using wf left out at by (simp_all add: td2_def td_wf_def sameOutside_def)
  ultimately show ?thesis unfolding cc1_def by blast
qed

text \<open>The second part ends in a state that differs from a stored chain object by channels only.\<close>

lemma publishResult_eq:
  "\<exists>info n upd us. publishResult stamp k u vi r cc td =
     (let td4 = (putChain k ((snd (snd (recordResult stamp vi r (Height u) info cc)))\<lparr>activeAlerts := n\<rparr>)
                  td)\<lparr>updateChan := upd\<rparr>
      in if Prom td4 then emitStats us td4 else (True, td4))"
proof -
  define info where "info = getAlarms (HideLogs td) (name cc) (alarms td)"
  define res where "res = recordResult stamp vi r (Height u) info cc"
  define cc3 where "cc3 = (snd (snd res))\<lparr>activeAlerts := getCount (name (snd (snd res))) (alarms td)\<rparr>"
  define sm where "sm = nodeSummary (HideLogs td) (Nodes (snd (snd res))) (0, fst (snd res))"
  define td3 where "td3 = putChain k cc3 td"
  define upd where "upd = updateChan td3 @ (if EnableDash td
    then [chainStatus vi cc3 (fst sm) (Height u) (snd sm @ validatorText vi) (fst res)] else [])"
  have "(if EnableDash td3
      then td3\<lparr>updateChan := updateChan td3 @ [chainStatus vi cc3 (fst sm) (Height u) (snd sm @ validatorText vi) (fst res)]\<rparr>
      else td3) = td3\<lparr>updateChan := upd\<rparr>"
    by (simp add: upd_def td3_def)
  then have "publishResult stamp k u vi r cc td =
      (if Prom (td3\<lparr>updateChan := upd\<rparr>) then emitStats (signingUpdates (fst sm) cc3) (td3\<lparr>updateChan := upd\<rparr>)
       else (True, td3\<lparr>updateChan := upd\<rparr>))"
    unfolding publishResult_def split_def Let_def
    by (simp only: info_def [symmetric] res_def [symmetric] sm_def [symmetric] cc3_def [symmetric] td3_def [symmetric])
  then show ?thesis
    unfolding Let_def td3_def cc3_def res_def by blast
qed

lemma publishResult_effect:
  assumes "td_wf td" "chainAt td k = Some cc" "statsLeft td = None"
  shows "\<exists>td' info n. publishResult stamp k u vi r cc td = (True, td') \<and> td_wf td' \<and> statsLeft td' = None \<and>
    sameOutside k td td' \<and>
    chainAt td' k = Some ((snd (snd (recordResult stamp vi r (Height u) info cc)))\<lparr>activeAlerts := n\<rparr>)"
proof -
  obtain info n upd us where eq: "publishResult stamp k u vi r cc td =
     (let td4 = (putChain k ((snd (snd (recordResult stamp vi r (Height u) info cc)))\<lparr>activeAlerts := n\<rparr>)
                  td)\<lparr>updateChan := upd\<rparr>
      in if Prom td4 then emitStats us td4 else (True, td4))"
    using publishResult_eq by metis
  define cc3 where "cc3 = (snd (snd (recordResult stamp vi r (Height u) info cc)))\<lparr>activeAlerts := n\<rparr>"
  define td4 where "td4 = (putChain k cc3 td)\<lparr>updateChan := upd\<rparr>"
  have "name cc3 = k" using td_wf_name [OF assms(1,2)] by (simp add: cc3_def)
  then have wf: "td_wf td4"
    using td_wf_putChain [OF assms(1), of cc3 k] by (simp add: td4_def td_wf_def)
  have left: "statsLeft td4 = None" and out: "sameOutside k td td4" and at: "chainAt td4 k = Some cc3"
    using assms(3) by (simp_all add: td4_def sameOutside_def)
  define td5 where "td5 = (if Prom td4 then td4\<lparr>statsChan := statsChan td4 @ us\<rparr> else td4)"
  have "publishResult stamp k u vi r cc td = (True, td5)"
    unfolding eq cc3_def [symmetric] td4_def [symmetric] Let_def td5_def
    by (simp add: emitStats_open [OF left])
  moreover have "td_wf td5" "statsLeft td5 = None" "sameOutside k td td5" "chainAt td5 k = Some cc3"
    using wf left out at by (simp_all add: td5_def td_wf_def sameOutside_def)
  ultimately show ?thesis unfolding cc3_def by blast
qed

lemma statusStep_final:
  assumes td: "td_wf td" "chainAt td k = Some cc" "valInfo cc = Some vi" "Final u" "statsLeft td = None"
  shows "\<exists>td' info n. statusStep now stamp k u s td = Some (True, -1, td') \<and>
    td_wf td' \<and> statsLeft td' = None \<and> sameOutside k td td' \<and>
    chainAt td' k = Some ((snd (snd (recordResult stamp vi (raiseSignState u vi s) (Height u) info
      (snd (recordFinalBlock now (cc\<lparr>lastBlockNum := Height u\<rparr>))))))\<lparr>activeAlerts := n\<rparr>)"
proof -
  define cc1 where "cc1 = snd (recordFinalBlock now (cc\<lparr>lastBlockNum := Height u\<rparr>))"
  obtain td1 where 1: "blockSeen now k u cc td = (True, td1)" "td_wf td1" "statsLeft td1 = None"
    "sameOutside k td td1" "chainAt td1 k = Some cc1"
    using blockSeen_effect [OF td(1,2,5)] unfolding cc1_def by blast
  obtain td2 info n where 2: "publishResult stamp k u vi (raiseSignState u vi s) cc1 td1 = (True, td2)" "td_wf td2"
    "statsLeft td2 = None" "sameOutside k td1 td2"
    "chainAt td2 k = Some ((snd (snd (recordResult stamp vi (raiseSignState u vi s) (Height u) info cc1)))\<lparr>activeAlerts := n\<rparr>)"
    using publishResult_effect [OF 1(2,5,3)] by metis
  have "statusStep now stamp k u s td = Some (True, -1, td2)"
    using td 1 2 by (simp add: statusStep_def validatorInfoSnapshot_def monitoringSnapshot_def)
  moreover have "sameOutside k td td2" using 1(4) 2(4) by (simp add: sameOutside_def)
  ultimately show ?thesis using 2 unfolding cc1_def by blast
qed

section \<open>Counters\<close>

definition counters :: "ChainConfig \<Rightarrow> float64 list" where
  "counters cc = [statTotalSigns cc, statTotalProps cc, statTotalMiss cc, statPrevoteMiss cc,
     statPrecommitMiss cc, statConsecutiveMiss cc]"

lemma counters_countResult_cong: "counters cc = counters cc' \<Longrightarrow> counters (countResult r cc) = counters (countResult r cc')"
  by (simp add: counters_def countResult_def)

lemma counters_recordResult:
  "counters (snd (snd (recordResult stamp vi r h info cc))) = counters (countResult r cc)"
proof -
  have "snd (snd (recordResult stamp vi r h info cc)) =
      countResult r (if r < StatusSigned \<and> Bonded vi
        then (snd (recordBlockResult r cc))\<lparr>lastError := stamp @ '' '' @
          (info @ missWarning vi h (snd (recordBlockResult r cc)) @ newline)\<rparr>
        else snd (recordBlockResult r cc))"
    by (simp add: recordResult_def Let_def split_def)
  also have "counters \<dots> = counters (countResult r cc)"
    by (rule counters_countResult_cong) (simp add: counters_def recordBlockResult_def Let_def)
  finally show ?thesis .
qed

lemma counters_final:
  "counters ((snd (snd (recordResult stamp vi r h info (snd (recordFinalBlock now (cc\<lparr>lastBlockNum := n\<rparr>))))))
     \<lparr>activeAlerts := m\<rparr>) = counters (countResult r cc)"
proof -
  have "counters (x\<lparr>activeAlerts := m\<rparr>) = counters x" for x by (simp add: counters_def)
  moreover have "counters (countResult r (snd (recordFinalBlock now (cc\<lparr>lastBlockNum := n\<rparr>)))) =
      counters (countResult r cc)"
    by (rule counters_countResult_cong) (simp add: counters_def recordFinalBlock_def Let_def)
  ultimately show ?thesis by (simp only: counters_recordResult)
qed

lemma inc_of_nat: "Suc n < 2 ^ 53 \<Longrightarrow> inc (of_nat n) = of_nat (Suc n)"
  using f64_inc [of "int n"] by (simp add: inc_def)

definition missedResult :: "int \<Rightarrow> bool" where
  "missedResult r \<longleftrightarrow> r \<in> {Statusmissed, StatusPrevote, StatusPrecommit}"

text \<open>The misses at the end of a history, newest first; blocks seen while not bonded do not count.\<close>

fun trailingMisses :: "int list \<Rightarrow> nat" where
  "trailingMisses [] = 0"
| "trailingMisses (r # rs) =
     (if missedResult r then Suc (trailingMisses rs)
      else if r \<in> {StatusSigned, StatusProposed} then 0 else trailingMisses rs)"

lemma trailingMisses_le: "trailingMisses rs \<le> length rs"
  by (induction rs) auto

definition tally :: "int list \<Rightarrow> float64 list" where
  "tally rs =
     map of_nat [length (filter (\<lambda>r. r \<in> {StatusSigned, StatusProposed}) rs),
       length (filter (\<lambda>r. r = StatusProposed) rs), length (filter missedResult rs),
       length (filter (\<lambda>r. r = StatusPrevote) rs), length (filter (\<lambda>r. r = StatusPrecommit) rs),
       trailingMisses (rev rs)]"

lemma counters_tally:
  "counters cc = [0, 0, 0, 0, 0, 0] \<Longrightarrow> length rs < 2 ^ 53 \<Longrightarrow> counters (fold countResult rs cc) = tally rs"
proof (induction rs rule: rev_induct)
  case Nil
  then show ?case by (simp add: tally_def)
next
  case (snoc r rs)
  define cc' where "cc' = fold countResult rs cc"
  have IH: "counters cc' = tally rs" and len: "Suc (length rs) < 2 ^ 53"
    using snoc by (simp_all add: cc'_def)
  have inc: "inc (of_nat (length (filter P rs))) = of_nat (Suc (length (filter P rs)))" for P
    using len length_filter_le [of P rs] by (intro inc_of_nat) linarith
  have inc': "inc (of_nat (trailingMisses (rev rs))) = of_nat (Suc (trailingMisses (rev rs)))"
    using len trailingMisses_le [of "rev rs"] by (intro inc_of_nat) simp
  have "counters (countResult r cc') = tally (rs @ [r])"
    using IH inc inc'
    by (simp add: tally_def counters_def countResult_def missedResult_def Statusmissed_def StatusPrevote_def
        StatusPrecommit_def StatusSigned_def StatusProposed_def)
  then show ?case by (simp add: cc'_def)
qed

section \<open>Properties\<close>

text \<open>The loop over a list of updates, each with its clock reading.\<close>

fun statusRun ::
  "(time \<times> string \<times> StatusUpdate) list \<Rightarrow> string \<Rightarrow> int \<Rightarrow> Config \<Rightarrow> (bool \<times> int \<times> Config) option" where
  "statusRun [] k s td = Some (True, s, td)"
| "statusRun ((now, stamp, u) # us) k s td =
     do { (go, s', td') \<leftarrow> statusStep now stamp k u s td;
          if go then statusRun us k s' td' else Some (False, s', td') }"

lemma statusRun_votes:
  assumes "chainAt td k = Some cc" "valInfo cc = Some vi" "Bonded vi"
    and "\<forall>(now, stamp, u) \<in> set us. \<not> Final u"
  shows "statusRun (us @ rest) k s td = statusRun rest k (fold max (map (\<lambda>(now, stamp, u). Status u) us) s) td"
  using assms(4)
proof (induction us arbitrary: s)
  case (Cons x us)
  obtain now stamp u where x: "x = (now, stamp, u)" by (cases x)
  have "statusStep now stamp k u s td = Some (True, raiseSignState u vi s, td)"
    using Cons.prems x by (intro statusStep_vote [OF assms(1,2)]) auto
  moreover have "raiseSignState u vi s = max (Status u) s"
    using assms(3) by (simp add: raiseSignState_def max_def)
  ultimately show ?case using Cons by (simp add: x)
qed simp

text \<open>C10: The result recorded for a block of a bonded validator is the highest status among the
  votes seen for it and its final classification. The votes change nothing else; the final
  update puts the result in front of the history (whose length stays), stores the height and
  the time, counts the result, resets the sign state and touches no other chain, no alert and
  no alarm.\<close>

theorem block_result_highest:
  assumes td: "td_wf td" "chainAt td k = Some cc" "valInfo cc = Some vi" "Bonded vi" "statsLeft td = None"
    and votes: "\<forall>(t, stamp, u) \<in> set votes. \<not> Final u" and fin: "Final final"
  shows "\<exists>td' cc'. statusRun (votes @ [(now, stamp, final)]) k (-1) td = Some (True, -1, td') \<and>
    td_wf td' \<and> sameOutside k td td' \<and> chainAt td' k = Some cc' \<and>
    (let result = Max ({-1, Status final} \<union> (\<lambda>(t, stamp, u). Status u) ` set votes)
     in blocksResults cc' = take (historyLength cc) (result # blocksResults cc) \<and>
        counters cc' = counters (countResult result cc)) \<and>
    lastBlockNum cc' = Height final \<and> lastBlockTime cc' = now"
proof -
  define seen where "seen = fold max (map (\<lambda>(t, stamp, u). Status u) votes) (-1)"
  define result where "result = Max ({-1, Status final} \<union> (\<lambda>(t, stamp, u). Status u) ` set votes)"
  have "seen = Max (insert (-1) ((\<lambda>(t, stamp, u). Status u) ` set votes))"
    unfolding seen_def using Max.set_eq_fold [of "-1" "map (\<lambda>(t, stamp, u). Status u) votes"] by simp
  then have "max (Status final) seen = Max (insert (Status final) (insert (-1) ((\<lambda>(t, stamp, u). Status u) ` set votes)))"
    by simp
  also have "\<dots> = result" by (simp only: result_def insert_commute Un_insert_left Un_empty_left)
  finally have r: "raiseSignState final vi seen = result"
    using td(4) by (simp add: raiseSignState_def max_def split: if_splits)
  obtain td' info n where step: "statusStep now stamp k final seen td = Some (True, -1, td')"
    and td': "td_wf td'" "sameOutside k td td'"
    and at: "chainAt td' k = Some ((snd (snd (recordResult stamp vi result (Height final) info
      (snd (recordFinalBlock now (cc\<lparr>lastBlockNum := Height final\<rparr>))))))\<lparr>activeAlerts := n\<rparr>)"
    using statusStep_final [OF td(1,2,3) fin td(5)] r by metis
  have "statusRun (votes @ [(now, stamp, final)]) k (-1) td = Some (True, -1, td')"
    using statusRun_votes [OF td(2-4) votes] step by (simp add: seen_def)
  moreover have "blocksResults (snd (recordBlockResult result (snd (recordFinalBlock now (cc\<lparr>lastBlockNum := Height final\<rparr>))))) =
      take (historyLength cc) (result # blocksResults cc)"
    using blocks.push_view [of result "snd (recordFinalBlock now (cc\<lparr>lastBlockNum := Height final\<rparr>))"]
    by (simp add: historyLength_def)
  ultimately show ?thesis
    using td' at unfolding result_def [symmetric] Let_def by (simp add: counters_final)
qed

definition sample_vote :: StatusUpdate where
  "sample_vote = \<lparr>Height = 7, Status = StatusPrecommit, Final = False\<rparr>"

definition sample_final :: StatusUpdate where
  "sample_final = \<lparr>Height = 7, Status = Statusmissed, Final = True\<rparr>"

theorem block_result_highest_witness:
  "\<exists>td' cc'. statusRun [(UnixZero, ''t'', sample_vote), (UnixZero, ''t'', sample_final)] ''osmosis'' (-1) sample_td =
     Some (True, -1, td') \<and> chainAt td' ''osmosis'' = Some cc' \<and> blocksResults cc' = [StatusPrecommit]"
  using block_result_highest [of sample_td "''osmosis''" sample_chain "the (valInfo sample_chain)"
      "[(UnixZero, ''t'', sample_vote)]" sample_final UnixZero "''t''"]
  by (auto simp: sample_chain_def emptyValInfo_def sample_vote_def sample_final_def Statusmissed_def
      StatusPrecommit_def historyLength_def Let_def sample_td_def [THEN arg_cong [where f = statsLeft]])

text \<open>C15: Starting from zero, the float64 counters are exact for the first \<open>2 ^ 53\<close> blocks: signed, proposed,
  missed (with or without votes seen), missed after a prevote, missed after a precommit, and the
  misses since the last signed block.\<close>

theorem counters_exact:
  assumes "counters cc = [0, 0, 0, 0, 0, 0]" "length rs < 2 ^ 53"
  shows "counters (fold countResult rs cc) = tally rs \<and>
    int_of_f64 (statConsecutiveMiss (fold countResult rs cc)) = int (trailingMisses (rev rs))"
proof -
  have c: "counters (fold countResult rs cc) = tally rs" by (rule counters_tally [OF assms])
  then have "statConsecutiveMiss (fold countResult rs cc) = of_int (int (trailingMisses (rev rs)))"
    by (simp add: counters_def tally_def)
  then have "int_of_f64 (statConsecutiveMiss (fold countResult rs cc)) = int (trailingMisses (rev rs))"
    by (simp only: int_of_f64_of_int)
  with c show ?thesis by simp
qed

theorem counters_exact_witness:
  "int_of_f64 (statConsecutiveMiss (fold countResult [StatusSigned, Statusmissed, -1, StatusPrevote] sample_chain)) = 2"
  using counters_exact [of sample_chain "[StatusSigned, Statusmissed, -1, StatusPrevote]"]
  by (simp add: counters_def sample_chain_def missedResult_def Statusmissed_def StatusPrevote_def
      StatusPrecommit_def StatusSigned_def StatusProposed_def)

text \<open>Consensus addresses survive their textual form, so two validators have the same normalized
  address only if they have the same consensus address.\<close>

theorem address_roundtrip:
  "ToBytes (normalizeConsensusAddress bs) = bs \<and>
   (normalizeConsensusAddress bs = normalizeConsensusAddress cs \<longleftrightarrow> bs = cs)"
  unfolding normalizeConsensusAddress_def by (metis ToBytes_Encode)

text \<open>Heights travel as decimal strings: every 64-bit integer is read back as itself, and whatever
  text arrives, the height is a 64-bit integer.\<close>

theorem height_roundtrip:
  assumes "- (2 ^ 63) \<le> i" "i < 2 ^ 63"
  shows "val (itoa i) = i \<and> - (2 ^ 63) \<le> val s \<and> val s < 2 ^ 63"
  using ParseInt_itoa [OF assms] ParseInt_range [of s] by (simp add: val_def)

theorem height_roundtrip_witness: "val (itoa 21000000) = 21000000 \<and> val ''99999999999999999999x'' = 2 ^ 63 - 1"
proof
  show "val (itoa 21000000) = 21000000" using height_roundtrip [of 21000000 "[]"] by simp
  show "val ''99999999999999999999x'' = 2 ^ 63 - 1"
    by (simp add: val_def ParseInt_def ParseUint_def Let_def)
qed


end
