(* ===== verification/Rpc.thy ===== *)
theory Rpc
  imports Blocks
begin

text \<open>
  Endpoints and validator state: \<open>newRpc\<close> and \<open>monitorHealth\<close> of \<open>src/seer/rpc.go\<close>, \<open>GetValInfo\<close> of
  \<open>validator.go\<close>, and the tables of \<open>chain-details.go\<close>.

  What the network and the third-party clients answer is the record \<open>rpc_env\<close>: an error text or
  a value per query. A health round runs one probe per node concurrently; a probe only
  touches its own node and the chain's no-nodes flag, so the round is a fold of probes in
  any order.

  The lemmas: which endpoint \<open>newRpc\<close> selects and what it leaves behind when there is none,
  how a probe moves a node between healthy and down, and that a failed validator refresh
  changes nothing.
\<close>

section \<open>String helpers\<close>

text \<open>\<open>strings.Split\<close> for a non-empty separator.\<close>

fun indexOf :: "string \<Rightarrow> string \<Rightarrow> nat option" where
  "indexOf [] sep = (if sep = [] then Some 0 else None)"
| "indexOf (c # s) sep =
     (if HasPrefix (c # s) sep then Some 0
      else case indexOf s sep of None \<Rightarrow> None | Some i \<Rightarrow> Some (Suc i))"

function Split :: "string \<Rightarrow> string \<Rightarrow> string list" where
  "Split s sep =
     (if sep = [] then [s]
      else case indexOf s sep of
             None \<Rightarrow> [s]
           | Some i \<Rightarrow> take i s # Split (drop (i + length sep) s) sep)"
  by pat_completeness auto

lemma indexOf_bound: "indexOf s sep = Some i \<Longrightarrow> i + length sep \<le> length s"
proof (induction s arbitrary: i)
  case (Cons c s)
  then show ?case
    by (auto simp: HasPrefix_iff split: if_splits option.splits dest!: arg_cong [where f = length])
qed (simp split: if_splits)

termination Split
proof (relation "measure (length \<circ> fst)")
  fix s sep :: string and i
  assume "sep \<noteq> []" "indexOf s sep = Some i"
  with indexOf_bound [of s sep i] show "((drop (i + length sep) s, sep), s, sep) \<in> measure (length \<circ> fst)"
    by (cases sep) auto
qed simp

declare Split.simps [simp del]

text \<open>Padding of \<open>%-12s\<close>, which counts runes: the bytes that do not continue one.\<close>

definition runeCount :: "string \<Rightarrow> nat" where
  "runeCount s = length (filter (\<lambda>c. \<not> (128 \<le> (of_char c :: nat) \<and> (of_char c :: nat) < 192)) s)"

definition pad12 :: "string \<Rightarrow> string" where
  "pad12 s = s @ replicate (12 - runeCount s) (CHR '' '')"

section \<open>Registry tables\<close>

type_synonym paths = "(string, string) gmap"

definition altValopers :: paths where
  "altValopers = Map [(''ival'', ''ica'')]"

definition getAltPrefix :: "string \<Rightarrow> string \<times> bool" where
  "getAltPrefix oper =
     (let split = Split oper ''1''
      in if length split = 0 then ('''', False)
         else (m_get '''' altValopers (hd split), m_get '''' altValopers (hd split) \<noteq> ''''))"

definition cosmosPaths :: paths where
  "cosmosPaths =
     Map [
       (''Antora'', ''idep''), (''Oraichain'', ''oraichain''), (''agoric-3'', ''agoric''),
       (''akashnet-2'', ''akash''), (''arkh'', ''arkh''), (''axelar-dojo-1'', ''axelar''),
       (''bitcanna-1'', ''bitcanna''), (''bitsong-2b'', ''bitsong''), (''bostrom'', ''bostrom''),
       (''carbon-1'', ''carbon''), (''cerberus-chain-1'', ''cerberus''), (''cheqd-mainnet-1'', ''cheqd''),
       (''chihuahua-1'', ''chihuahua''), (''colosseum-1'', ''firmachain''), (''columbus-5'', ''terra''),
       (''comdex-1'', ''comdex''), (''core-1'', ''persistence''), (''cosmoshub-4'', ''cosmoshub''),
       (''crescent-1'', ''crescent''), (''cronosmainnet_25-1'', ''cronos''), (''crypto-org-chain-mainnet-1'', ''cryptoorgchain''),
       (''cudos-1'', ''cudos''), (''darchub'', ''konstellation''), (''desmos-mainnet'', ''desmos''),
       (''dig-1'', ''dig''), (''echelon_3000-3'', ''echelon''), (''emoney-3'', ''emoney''),
       (''evmos_9001-2'', ''evmos''), (''fetchhub-4'', ''fetchhub''), (''galaxy-1'', ''galaxy''),
       (''genesis_29-2'', ''genesisl1''), (''gravity-bridge-3'', ''gravitybridge''), (''impacthub-3'', ''impacthub''),
       (''injective-1'', ''injective''), (''iov-mainnet-ibc'', ''starname''), (''irishub-1'', ''irisnet''),
       (''juno-1'', ''juno''), (''kava_2222-10'', ''kava''), (''kichain-2'', ''kichain''),
       (''laozi-mainnet'', ''bandchain''), (''likecoin-mainnet-2'', ''likecoin''), (''logos_7002-1'', ''logos''),
       (''lum-network-1'', ''lumnetwork''), (''mainnet-3'', ''decentr''), (''mantle-1'', ''assetmantle''),
       (''meme-1'', ''meme''), (''microtick-1'', ''microtick''), (''morocco-1'', ''chronicnetwork''),
       (''mythos_7001-1'', ''mythos''), (''nomic-stakenet-2'', ''nomic''), (''octa'', ''octa''),
       (''odin-mainnet-freya'', ''odin''), (''osmosis-1'', ''osmosis''), (''panacea-3'', ''panacea''),
       (''phoenix-1'', ''terra2''), (''pio-mainnet-1'', ''provenance''), (''regen-1'', ''regen''),
       (''secret-4'', ''secretnetwork''), (''sentinelhub-2'', ''sentinel''), (''shentu-2.2'', ''shentu''),
       (''sifchain-1'', ''sifchain''), (''sommelier-3'', ''sommelier''), (''stargaze-1'', ''stargaze''),
       (''thorchain-mainnet-v1'', ''thorchain''), (''titan-1'', ''rizon''), (''umee-1'', ''umee''),
       (''vidulum-1'', ''vidulum'')]"

definition publicRpcUrl :: string where
  "publicRpcUrl = ''https://rpc.cosmos.directory:443/''"

text \<open>What the registry answered: an error text or the pairs of chain id and path.\<close>

definition refreshRegistry :: "string + (string \<times> string) list \<Rightarrow> paths \<Rightarrow> string option \<times> paths" where
  "refreshRegistry response ps =
     (case response of
        Inl e \<Rightarrow> (Some e, ps)
      | Inr chs \<Rightarrow>
          if length chs = 0 then (Some ''response had no chains'', ps)
          else (None, fold (\<lambda>(chainId, path) m. m_ins chainId path m) chs
                        (if ps = NilMap then mkmap else ps)))"

definition getRegistryUrl :: "string \<Rightarrow> paths \<Rightarrow> string \<times> bool" where
  "getRegistryUrl chainid ps = (publicRpcUrl @ m_get '''' ps chainid, m_get '''' ps chainid \<noteq> '''')"

text \<open>
  The first match of the pattern \<open>//([^/:]+)(:\d+)?\<close> in a page, as host and port text.
\<close>

definition isDigit :: "char \<Rightarrow> bool" where
  "isDigit c \<longleftrightarrow> 48 \<le> (of_char c :: nat) \<and> (of_char c :: nat) \<le> 57"

fun endpointMatch :: "string \<Rightarrow> (string \<times> string) option" where
  "endpointMatch [] = None"
| "endpointMatch (c # s) =
     (let host = takeWhile (\<lambda>x. x \<noteq> CHR ''/'' \<and> x \<noteq> CHR '':'') (drop 2 (c # s));
          rest = dropWhile (\<lambda>x. x \<noteq> CHR ''/'' \<and> x \<noteq> CHR '':'') (drop 2 (c # s))
      in if HasPrefix (c # s) ''//'' \<and> host \<noteq> []
         then Some (host,
                case rest of
                  [] \<Rightarrow> ''''
                | x # r \<Rightarrow> if x = CHR '':'' \<and> takeWhile isDigit r \<noteq> [] then x # takeWhile isDigit r else '''')
         else endpointMatch s)"

definition guessPublicEndpoint :: "string option \<Rightarrow> string \<Rightarrow> string" where
  "guessPublicEndpoint body u =
     (case body of
        None \<Rightarrow> u
      | Some b \<Rightarrow>
          (case endpointMatch b of
             None \<Rightarrow> u
           | Some (host, port) \<Rightarrow>
               if port \<noteq> '''' \<and> port \<noteq> '':443'' then ''http://'' @ host @ port
               else ''https://'' @ host @ '':443''))"

section \<open>Answers of the network\<close>

record rpcStatus =
  Network :: string
  CatchingUp :: bool

record validatorRecord =
  vr_ConsensusAddress :: "byte list"
  vr_Moniker :: string
  vr_Jailed :: bool
  vr_Bonded :: bool

record signingInfo =
  si_Tombstoned :: bool
  si_MissedBlocks :: int

record slashingParams =
  SignedBlocksWindow :: int

text \<open>
  Errors are texts on the left. \<open>encodeAddress\<close> is the bech32 codec, \<open>sliceCap\<close> the capacity the
  runtime gives a copy of so many bytes.
\<close>

record rpc_env =
  urlParse :: "string \<Rightarrow> string option"
  openRPCClient :: "string \<Rightarrow> string + rpcClient"
  statusOf :: "rpcClient \<Rightarrow> string + rpcStatus"
  validatorOf :: "rpcClient \<Rightarrow> string \<Rightarrow> string + validatorRecord"
  signingInfoOf :: "rpcClient \<Rightarrow> string \<Rightarrow> string + signingInfo"
  slashingParamsOf :: "rpcClient \<Rightarrow> string + slashingParams"
  encodeAddress :: "string \<Rightarrow> byte list \<Rightarrow> string + string"
  sliceCap :: "nat \<Rightarrow> nat"
  registryPaths :: paths
  fetchPage :: "string \<Rightarrow> string option"

section \<open>Selecting an endpoint\<close>

definition turtle :: string where
  "turtle = [CHR 0xF0, CHR 0x9F, CHR 0x90, CHR 0xA2]"

text \<open>An endpoint that works, or the message and whether it is syncing.\<close>

definition tryURL :: "rpc_env \<Rightarrow> ChainConfig \<Rightarrow> string \<Rightarrow> (string \<times> bool) + rpcClient" where
  "tryURL env cc endpointURL =
     (case urlParse env endpointURL of
        Some err \<Rightarrow>
          Inl (crossMark @ '' could not parse url '' @ name cc @ '': ('' @ endpointURL @ '') '' @ err, False)
      | None \<Rightarrow>
          (case openRPCClient env endpointURL of
             Inl err \<Rightarrow>
               Inl (crossMark @ '' could not connect client for '' @ name cc @ '': ('' @ endpointURL @ '') '' @ err, False)
           | Inr candidate \<Rightarrow>
               (case statusOf env candidate of
                  Inl err \<Rightarrow>
                    Inl (crossMark @ '' could not get status for '' @ name cc @ '': ('' @ endpointURL @ '') '' @ err, False)
                | Inr status \<Rightarrow>
                    if Network status \<noteq> ChainId cc
                    then Inl (''chain id '' @ Network status @ '' on '' @ endpointURL @
                           '' does not match, expected '' @ ChainId cc @ '', skipping'', False)
                    else if CatchingUp status
                    then Inl (turtle @ '' node is not synced, skipping '' @ endpointURL, True)
                    else Inr candidate)))"

definition markDown :: "time \<Rightarrow> string \<Rightarrow> bool \<Rightarrow> nodeRuntimeState \<Rightarrow> nodeRuntimeState" where
  "markDown now msg isSyncing s =
     (let s1 = (if \<not> ns_down s then s\<lparr>ns_down := True, ns_downSince := now\<rparr> else s)
      in s1\<lparr>ns_syncing := isSyncing, ns_lastMsg := msg\<rparr>)"

text \<open>The loop over the configured nodes: the client found, and the chain with the failures marked.\<close>

fun tryNodes ::
  "rpc_env \<Rightarrow> (nat \<Rightarrow> time) \<Rightarrow> bool \<Rightarrow> nat list \<Rightarrow> ChainConfig \<Rightarrow> rpcClient option \<times> ChainConfig" where
  "tryNodes env clock anyWorking [] cc = (None, cc)"
| "tryNodes env clock anyWorking (i # is) cc =
     (if anyWorking \<and> ns_down (nodeState (Nodes cc ! i)) then tryNodes env clock anyWorking is cc
      else case tryURL env cc (Url (Nodes cc ! i)) of
             Inl (msg, isSyncing) \<Rightarrow>
               tryNodes env clock anyWorking is (updateNodeAt i (markDown (clock i) msg isSyncing) cc)
           | Inr c \<Rightarrow> (Some c, cc))"

definition connectTo :: "rpcClient \<Rightarrow> ChainConfig \<Rightarrow> ChainConfig" where
  "connectTo c cc = setNoNodes False (setRPCClient c cc)"

definition publicFallback :: "rpc_env \<Rightarrow> ChainConfig \<Rightarrow> rpcClient option" where
  "publicFallback env cc =
     (if PublicFallback cc
      then (case getRegistryUrl (ChainId cc) (registryPaths env) of
              (registryURL, ok) \<Rightarrow>
                if ok then (case tryURL env cc (guessPublicEndpoint (fetchPage env (registryURL @ ''/'')) registryURL) of
                              Inr c \<Rightarrow> Some c
                            | Inl _ \<Rightarrow> None)
                else None)
      else None)"

definition noEndpointStatus :: "ChainConfig \<Rightarrow> ChainStatus" where
  "noEndpointStatus cc =
     chainStatus (case valInfo cc of None \<Rightarrow> emptyValInfo | Some vi \<Rightarrow> vi) cc 0 0 (lastError cc)
       (blockResultsSnapshot cc)"

definition noEndpoints :: "string \<Rightarrow> ChainConfig \<Rightarrow> Config \<Rightarrow> string \<times> Config" where
  "noEndpoints k cc1 td =
     (let cc2 = (setNoNodes True cc1)
            \<lparr>activeAlerts := getCount (name cc1) (alarms td),
             lastError := ''no usable RPC endpoints available for '' @ ChainId cc1\<rparr>;
          td1 = putChain k cc2 td
      in (''no usable endpoints available for '' @ ChainId cc2,
          if EnableDash td1 then td1\<lparr>updateChan := updateChan td1 @ [noEndpointStatus cc2]\<rparr> else td1))"

text \<open>The result: an error text, and the process.\<close>

definition newRpc :: "rpc_env \<Rightarrow> (nat \<Rightarrow> time) \<Rightarrow> string \<Rightarrow> Config \<Rightarrow> (string option \<times> Config) option" where
  "newRpc env clock k td =
     do { cc \<leftarrow> chainAt td k;
          let anyWorking = list_ex (\<lambda>n. \<not> ns_down (nodeState n)) (Nodes cc);
              (found, cc1) = tryNodes env clock anyWorking [0..<length (Nodes cc)] cc
          in (case found of
                Some c \<Rightarrow> Some (None, putChain k (connectTo c cc1) td)
              | None \<Rightarrow>
                  (case publicFallback env cc1 of
                     Some c \<Rightarrow> Some (None, putChain k (connectTo c cc1) td)
                   | None \<Rightarrow> (case noEndpoints k cc1 td of (e, td2) \<Rightarrow> Some (Some e, td2)))) }"

section \<open>Probing a node\<close>

datatype health = Unhealthy string bool | Healthy

definition probeResult :: "rpc_env \<Rightarrow> ChainConfig \<Rightarrow> NodeConfig \<Rightarrow> health" where
  "probeResult env cc node =
     (case openRPCClient env (Url node) of
        Inl err \<Rightarrow> Unhealthy err False
      | Inr c \<Rightarrow>
          (case statusOf env c of
             Inl err \<Rightarrow> Unhealthy ''down'' False
           | Inr status \<Rightarrow>
               if Network status \<noteq> ChainId cc then Unhealthy ''on the wrong network'' False
               else if CatchingUp status then Unhealthy ''not synced'' True
               else Healthy))"

definition markUnhealthy ::
  "time \<Rightarrow> string \<Rightarrow> NodeConfig \<Rightarrow> string \<Rightarrow> nodeRuntimeState \<Rightarrow> nodeRuntimeState" where
  "markUnhealthy now chainName node msg s =
     (let s1 = s\<lparr>ns_lastMsg := pad12 chainName @ '' node '' @ Url node @ '' is '' @ msg\<rparr>
      in if \<not> ns_down s1
         then let s2 = s1\<lparr>ns_down := True\<rparr>
              in if AlertIfDown node then s2\<lparr>ns_downSince := now\<rparr> else s2
         else s1)"

definition markHealthy :: "nodeRuntimeState \<Rightarrow> nodeRuntimeState" where
  "markHealthy s =
     (let s1 = (if ns_down s then s\<lparr>ns_lastMsg := '''', ns_wasDown := True\<rparr> else s)
      in s1\<lparr>ns_down := False, ns_syncing := False, ns_downSince := UnixZero\<rparr>)"

definition probeNode :: "rpc_env \<Rightarrow> time \<Rightarrow> string \<Rightarrow> nat \<Rightarrow> string \<Rightarrow> Config \<Rightarrow> Config option" where
  "probeNode env now chainName i k td =
     do { cc \<leftarrow> chainAt td k;
          let node = Nodes cc ! i
          in case probeResult env cc node of
               Unhealthy msg isSyncing \<Rightarrow>
                 let cc1 = updateNodeAt i (markUnhealthy now chainName node msg) cc;
                     td1 = putChain k cc1 td;
                     td2 = (if Prom td1 \<and> AlertIfDown node
                            then snd (emitStat (mkUpdate metricNodeDownSeconds
                                   (Seconds (Since now (downSince (Nodes cc1 ! i)))) (Url node) cc1) td1)
                            else td1)
                 in Some (if isSyncing
                          then putChain k (updateNodeAt i (\<lambda>s. s\<lparr>ns_syncing := True\<rparr>) cc1) td2 else td2)
             | Healthy \<Rightarrow>
                 let cc1 = setNoNodes False (updateNodeAt i markHealthy cc);
                     td1 = putChain k cc1 td
                 in Some (if Prom td1
                          then snd (emitStat (mkUpdate metricNodeDownSeconds 0 (Url node) cc1) td1)
                          else td1) }"

section \<open>Refreshing validator state\<close>

definition valconsOf :: "rpc_env \<Rightarrow> ChainConfig \<Rightarrow> byte list \<Rightarrow> (string + string) option" where
  "valconsOf env cc conspub =
     (if Contains (ValAddress cc) ''valcons'' then Some (Inr (ValAddress cc))
      else
        let split = Split (ValAddress cc) ''valoper'';
            pre = (if length split = 2 then Some (hd split @ ''valcons'')
                   else if snd (getAltPrefix (ValAddress cc)) then Some (fst (getAltPrefix (ValAddress cc)))
                   else None)
        in case pre of
             None \<Rightarrow>
               Some (Inl ([CHR 0xE2, CHR 0x9D, CHR 0x93] @
                 '' could not determine bech32 prefix from valoper address: '' @ ValAddress cc))
           | Some p \<Rightarrow>
               if sliceCap env (length conspub) < 20 then None
               else Some (encodeAddress env p
                      (take 20 (conspub @ replicate (sliceCap env (length conspub) - length conspub) 0))))"

text \<open>The refreshed state, or an error; nothing is published before the whole refresh succeeded.\<close>

definition fetchValInfo :: "rpc_env \<Rightarrow> bool \<Rightarrow> ChainConfig \<Rightarrow> (string + ValInfo) option" where
  "fetchValInfo env first cc =
     (case client cc of
        None \<Rightarrow> Some (Inl ''nil rpc client'')
      | Some c \<Rightarrow>
          let window0 = (case valInfo cc of None \<Rightarrow> 0 | Some cur \<Rightarrow> Window cur)
          in case validatorOf env c (ValAddress cc) of
               Inl err \<Rightarrow> Some (Inl err)
             | Inr vr \<Rightarrow>
                 (case valconsOf env cc (vr_ConsensusAddress vr) of
                    None \<Rightarrow> None
                  | Some (Inl err) \<Rightarrow> Some (Inl err)
                  | Some (Inr valcons) \<Rightarrow>
                      if first \<and> \<not> Contains (ValAddress cc) ''valcons'' \<and> length (ValAddress cc) < 20 then None
                      else (case signingInfoOf env c valcons of
                         Inl err \<Rightarrow> Some (Inl err)
                       | Inr si \<Rightarrow>
                           let info = \<lambda>w. \<lparr>Moniker = vr_Moniker vr, Bonded = vr_Bonded vr, Jailed = vr_Jailed vr,
                                 Tombstoned = si_Tombstoned si, Missed = si_MissedBlocks si, Window = w,
                                 Conspub = vr_ConsensusAddress vr, Valcons = valcons\<rparr>
                           in if window0 = 0
                              then (case slashingParamsOf env c of
                                      Inl err \<Rightarrow> Some (Inl err)
                                    | Inr params \<Rightarrow> Some (Inr (info (SignedBlocksWindow params))))
                              else Some (Inr (info window0)))))"

definition GetValInfo :: "rpc_env \<Rightarrow> bool \<Rightarrow> string \<Rightarrow> Config \<Rightarrow> (string option \<times> Config) option" where
  "GetValInfo env first k td =
     do { cc \<leftarrow> chainAt td k;
          (case fetchValInfo env first cc of
             None \<Rightarrow> None
           | Some (Inl err) \<Rightarrow> Some (Some err, td)
           | Some (Inr next) \<Rightarrow>
               let cc1 = publishValidatorInfo next (\<not> first) cc;
                   td1 = putChain k cc1 td;
                   emit = (\<lambda>u t. if Prom t then snd (emitStat u t) else t);
                   td2 = emit (mkUpdate metricWindowMissed (f64_of_int (Missed next)) '''' cc1) td1;
                   td3 = (if first
                          then emit (mkUpdate metricTotalNodes (f64_of_int (int (length (Nodes cc1)))) '''' cc1)
                                (emit (mkUpdate metricWindowSize (f64_of_int (Window next)) '''' cc1) td2)
                          else td2)
               in Some (None, td3)) }"

text \<open>A health round: the probes in some order, then a client if there is none, then the refresh.\<close>

fun probeAll :: "rpc_env \<Rightarrow> (nat \<Rightarrow> time) \<Rightarrow> string \<Rightarrow> nat list \<Rightarrow> string \<Rightarrow> Config \<Rightarrow> Config option" where
  "probeAll env clock chainName [] k td = Some td"
| "probeAll env clock chainName (i # is) k td =
     do { td1 \<leftarrow> probeNode env (clock i) chainName i k td;
          probeAll env clock chainName is k td1 }"

definition healthRound ::
  "rpc_env \<Rightarrow> (nat \<Rightarrow> time) \<Rightarrow> string \<Rightarrow> nat list \<Rightarrow> string \<Rightarrow> Config \<Rightarrow> Config option" where
  "healthRound env clock chainName order k td =
     do { td1 \<leftarrow> probeAll env clock chainName order k td;
          cc1 \<leftarrow> chainAt td1 k;
          td2 \<leftarrow> (if rpcClientSnapshot cc1 = None then map_option snd (newRpc env clock k td1) else Some td1);
          map_option snd (GetValInfo env False k td2) }"

section \<open>Lemmas on node updates\<close>

lemma tryURL_cong: "name cc' = name cc \<Longrightarrow> ChainId cc' = ChainId cc \<Longrightarrow> tryURL env cc' u = tryURL env cc u"
  by (simp add: tryURL_def split: option.splits sum.splits)

lemma updateNodeAt_simps [simp]:
  "name (updateNodeAt i f cc) = name cc" "ChainId (updateNodeAt i f cc) = ChainId cc"
  "client (updateNodeAt i f cc) = client cc" "noNodes (updateNodeAt i f cc) = noNodes cc"
  "valInfo (updateNodeAt i f cc) = valInfo cc" "lastValInfo (updateNodeAt i f cc) = lastValInfo cc"
  "length (Nodes (updateNodeAt i f cc)) = length (Nodes cc)"
  "PublicFallback (updateNodeAt i f cc) = PublicFallback cc"
  by (simp_all add: updateNodeAt_def)

definition nodeWith :: "(nodeRuntimeState \<Rightarrow> nodeRuntimeState) \<Rightarrow> NodeConfig \<Rightarrow> NodeConfig" where
  "nodeWith f node = snd (updateNodeState f node)"

lemma Nodes_updateNodeAt:
  "i < length (Nodes cc) \<Longrightarrow>
     Nodes (updateNodeAt i f cc) ! j = (if j = i then nodeWith f (Nodes cc ! i) else Nodes cc ! j)"
  by (simp add: updateNodeAt_def nodeWith_def)

lemma nodeWith_simps [simp]:
  "Url (nodeWith f node) = Url node" "AlertIfDown (nodeWith f node) = AlertIfDown node"
  "nodeState (nodeWith f node) = f (nodeState node)"
  by (simp_all add: nodeWith_def updateNodeState_def nodeState_def Let_def)

lemma nodeWith_fields:
  "down (nodeWith f node) = ns_down (f (nodeState node))"
  "wasDown (nodeWith f node) = ns_wasDown (f (nodeState node))"
  "syncing (nodeWith f node) = ns_syncing (f (nodeState node))"
  "lastMsg (nodeWith f node) = ns_lastMsg (f (nodeState node))"
  "downSince (nodeWith f node) = ns_downSince (f (nodeState node))"
  by (simp_all add: nodeWith_def updateNodeState_def Let_def)

lemma nodeState_fields [simp]:
  "ns_down (nodeState node) = down node" "ns_wasDown (nodeState node) = wasDown node"
  "ns_syncing (nodeState node) = syncing node" "ns_lastMsg (nodeState node) = lastMsg node"
  "ns_downSince (nodeState node) = downSince node"
  by (simp_all add: nodeState_def)

section \<open>Lemmas on endpoint selection\<close>

lemma tryNodes_frame:
  assumes "tryNodes env clock w is cc = (found, cc')"
  shows "name cc' = name cc \<and> ChainId cc' = ChainId cc \<and> client cc' = client cc \<and> noNodes cc' = noNodes cc \<and>
    length (Nodes cc') = length (Nodes cc) \<and> PublicFallback cc' = PublicFallback cc \<and>
    (\<forall>j. j \<notin> set is \<longrightarrow> set is \<subseteq> {..<length (Nodes cc)} \<longrightarrow> Nodes cc' ! j = Nodes cc ! j)"
  using assms
proof (induction "is" arbitrary: cc)
  case (Cons i "is")
  show ?case
  proof (cases "w \<and> down (Nodes cc ! i)")
    case True
    with Cons.prems have "tryNodes env clock w is cc = (found, cc')" by simp
    from Cons.IH [OF this] show ?thesis by auto
  next
    case False
    show ?thesis
    proof (cases "tryURL env cc (Url (Nodes cc ! i))")
      case (Inl f)
      obtain msg sy where f: "f = (msg, sy)" by force
      from Cons.prems False Inl f
      have "tryNodes env clock w is (updateNodeAt i (markDown (clock i) msg sy) cc) = (found, cc')" by simp
      from Cons.IH [OF this] show ?thesis by (auto simp: Nodes_updateNodeAt)
    next
      case (Inr c)
      with Cons.prems False show ?thesis by simp
    qed
  qed
qed simp

text \<open>A node is skipped when another one works and it is known to be down; else its check must fail.\<close>

definition rejects :: "rpc_env \<Rightarrow> bool \<Rightarrow> ChainConfig \<Rightarrow> nat \<Rightarrow> bool" where
  "rejects env w cc i \<longleftrightarrow> w \<and> down (Nodes cc ! i) \<or> (\<exists>e. tryURL env cc (Url (Nodes cc ! i)) = Inl e)"

text \<open>One step of the loop: either the first node is taken, or it ends up down and the rest is tried.\<close>

lemma tryNodes_step:
  assumes "i < length (Nodes cc)" "i \<notin> set is" "set is \<subseteq> {..<length (Nodes cc)}"
  obtains (taken) c where "\<not> rejects env w cc i" "tryURL env cc (Url (Nodes cc ! i)) = Inr c"
      "tryNodes env clock w (i # is) cc = (Some c, cc)"
  | (rejected) cc1 where "rejects env w cc i" "tryNodes env clock w (i # is) cc = tryNodes env clock w is cc1"
      "down (Nodes (snd (tryNodes env clock w is cc1)) ! i)" "length (Nodes cc1) = length (Nodes cc)"
      "\<And>j. j \<noteq> i \<Longrightarrow> Nodes cc1 ! j = Nodes cc ! j" "\<And>u. tryURL env cc1 u = tryURL env cc u"
proof (cases "w \<and> down (Nodes cc ! i)")
  case True
  obtain found cc' where r: "tryNodes env clock w is cc = (found, cc')" by force
  have "down (Nodes cc' ! i)" using tryNodes_frame [OF r] assms True by simp
  then show ?thesis using True r by (intro rejected [of cc]) (simp_all add: rejects_def)
next
  case False
  show ?thesis
  proof (cases "tryURL env cc (Url (Nodes cc ! i))")
    case (Inl f)
    obtain msg sy where f: "f = (msg, sy)" by force
    define cc1 where "cc1 = updateNodeAt i (markDown (clock i) msg sy) cc"
    obtain found cc' where r: "tryNodes env clock w is cc1 = (found, cc')" by force
    have "down (Nodes cc1 ! i)"
      using assms by (simp add: cc1_def Nodes_updateNodeAt nodeWith_fields markDown_def Let_def)
    then have "down (Nodes cc' ! i)" using tryNodes_frame [OF r] assms by (simp add: cc1_def)
    moreover have "rejects env w cc i" using Inl by (simp add: rejects_def)
    moreover have "tryNodes env clock w (i # is) cc = tryNodes env clock w is cc1"
      using False Inl f by (cases w) (simp_all add: cc1_def)
    moreover have "length (Nodes cc1) = length (Nodes cc)" by (simp add: cc1_def)
    moreover have "Nodes cc1 ! j = Nodes cc ! j" if "j \<noteq> i" for j
      using that assms(1) by (simp add: cc1_def Nodes_updateNodeAt)
    moreover have "tryURL env cc1 u = tryURL env cc u" for u
      by (rule tryURL_cong) (simp_all add: cc1_def)
    ultimately show ?thesis using r by (intro rejected [of cc1]) simp_all
  next
    case (Inr c)
    with False show ?thesis by (intro taken [of c]) (cases w; simp add: rejects_def)+
  qed
qed

lemma tryNodes_spec:
  assumes "set is \<subseteq> {..<length (Nodes cc)}" "distinct is"
  shows "case tryNodes env clock w is cc of
      (None, cc') \<Rightarrow> \<forall>j\<in>set is. rejects env w cc j \<and> down (Nodes cc' ! j)
    | (Some c, cc') \<Rightarrow>
        \<exists>pre i post. is = pre @ i # post \<and> \<not> rejects env w cc i \<and>
          tryURL env cc (Url (Nodes cc ! i)) = Inr c \<and>
          (\<forall>j\<in>set pre. rejects env w cc j \<and> down (Nodes cc' ! j))"
  using assms
proof (induction "is" arbitrary: cc)
  case (Cons i "is")
  then have i: "i < length (Nodes cc)" "i \<notin> set is" "set is \<subseteq> {..<length (Nodes cc)}" by auto
  show ?case
  proof (rule tryNodes_step [OF i, of env w clock])
    fix c
    assume "\<not> rejects env w cc i" "tryURL env cc (Url (Nodes cc ! i)) = Inr c"
      "tryNodes env clock w (i # is) cc = (Some c, cc)"
    then show ?thesis by (simp only: prod.case option.case) (intro exI [of _ "[]"], simp)
  next
    fix cc1
    assume rejected: "rejects env w cc i" "tryNodes env clock w (i # is) cc = tryNodes env clock w is cc1"
      "down (Nodes (snd (tryNodes env clock w is cc1)) ! i)" "length (Nodes cc1) = length (Nodes cc)"
      "\<And>j. j \<noteq> i \<Longrightarrow> Nodes cc1 ! j = Nodes cc ! j" "\<And>u. tryURL env cc1 u = tryURL env cc u"
    have rj: "rejects env w cc1 j = rejects env w cc j" if "j \<in> set is" for j
    proof -
      from that i(2) have "j \<noteq> i" by auto
      then show ?thesis by (simp add: rejects_def rejected(5,6))
    qed
    obtain found cc' where r: "tryNodes env clock w is cc1 = (found, cc')" by force
    have IH: "case tryNodes env clock w is cc1 of
      (None, cc') \<Rightarrow> \<forall>j\<in>set is. rejects env w cc1 j \<and> down (Nodes cc' ! j)
    | (Some c, cc') \<Rightarrow>
        \<exists>pre i post. is = pre @ i # post \<and> \<not> rejects env w cc1 i \<and>
          tryURL env cc1 (Url (Nodes cc1 ! i)) = Inr c \<and>
          (\<forall>j\<in>set pre. rejects env w cc1 j \<and> down (Nodes cc' ! j))"
      using Cons.IH [of cc1] i rejected(4) Cons.prems(2) by simp
    show ?thesis
    proof (cases found)
      case None
      with IH r rejected(1,2,3) rj show ?thesis by simp
    next
      case (Some c)
      with IH r obtain pre n post where p: "is = pre @ n # post" "\<not> rejects env w cc1 n"
        "tryURL env cc1 (Url (Nodes cc1 ! n)) = Inr c" "\<forall>j\<in>set pre. rejects env w cc1 j \<and> down (Nodes cc' ! j)"
        by auto
      then have "n \<noteq> i" using i(2) by auto
      with p rj rejected(1,2,3,5,6) r Some show ?thesis
        by (simp only: prod.case option.case snd_conv) (intro exI [of _ "i # pre"] exI [of _ n] exI [of _ post], simp)
    qed
  qed
qed simp

section \<open>Lemmas on probes\<close>

text \<open>The effect of a probe on its node, as a function of the node.\<close>

definition probedNode :: "rpc_env \<Rightarrow> time \<Rightarrow> string \<Rightarrow> ChainConfig \<Rightarrow> NodeConfig \<Rightarrow> NodeConfig" where
  "probedNode env now chainName cc node =
     (case probeResult env cc node of
        Healthy \<Rightarrow> nodeWith markHealthy node
      | Unhealthy msg isSyncing \<Rightarrow>
          let n1 = nodeWith (markUnhealthy now chainName node msg) node
          in if isSyncing then nodeWith (\<lambda>s. s\<lparr>ns_syncing := True\<rparr>) n1 else n1)"

lemma probeResult_cong:
  "ChainId cc' = ChainId cc \<Longrightarrow> Url n' = Url n \<Longrightarrow> probeResult env cc' n' = probeResult env cc n"
  by (simp add: probeResult_def split: sum.splits)

lemma probedNode_cong: "ChainId cc' = ChainId cc \<Longrightarrow> probedNode env now nm cc' n = probedNode env now nm cc n"
  by (simp add: probedNode_def probeResult_cong [of cc' cc n n])

lemma emitStat_snd: "\<exists>st l. snd (emitStat u td) = td\<lparr>statsChan := st, statsLeft := l\<rparr>"
proof -
  obtain ok td' where e: "emitStat u td = (ok, td')" by force
  from emitStat_frame [OF e] show ?thesis unfolding e snd_conv by blast
qed

lemma td_wf_stats [simp]: "td_wf (td\<lparr>statsChan := st, statsLeft := l\<rparr>) = td_wf td"
  "td_wf (td\<lparr>updateChan := u\<rparr>) = td_wf td"
  by (simp_all add: td_wf_def)

lemma maybe_stat: "\<exists>st l. (if b then snd (emitStat u td) else td) = td\<lparr>statsChan := st, statsLeft := l\<rparr>"
proof (cases b)
  case True
  then show ?thesis using emitStat_snd [of u td] by simp
next
  case False
  then show ?thesis by (intro exI [of _ "statsChan td"] exI [of _ "statsLeft td"]) simp
qed

lemma probeNode_effect:
  assumes wf: "td_wf td" and cc: "chainAt td k = Some cc" and i: "i < length (Nodes cc)"
  shows "\<exists>td' cc'. probeNode env now chainName i k td = Some td' \<and> td_wf td' \<and> chainAt td' k = Some cc' \<and>
    (\<forall>j. j \<noteq> k \<longrightarrow> chainAt td' j = chainAt td j) \<and> alertChan td' = alertChan td \<and> alarms td' = alarms td \<and>
    ChainId cc' = ChainId cc \<and> name cc' = k \<and> length (Nodes cc') = length (Nodes cc) \<and>
    Nodes cc' ! i = probedNode env now chainName cc (Nodes cc ! i) \<and>
    (\<forall>j. j \<noteq> i \<longrightarrow> Nodes cc' ! j = Nodes cc ! j) \<and>
    noNodes cc' = (noNodes cc \<and> probeResult env cc (Nodes cc ! i) \<noteq> Healthy) \<and>
    client cc' = client cc \<and> valInfo cc' = valInfo cc"
proof (cases "probeResult env cc (Nodes cc ! i)")
  case Healthy
  define cc1 where "cc1 = setNoNodes False (updateNodeAt i markHealthy cc)"
  have nm: "name cc1 = k" using td_wf_name [OF wf cc] by (simp add: cc1_def setNoNodes_def)
  obtain st l where "probeNode env now chainName i k td = Some ((putChain k cc1 td)\<lparr>statsChan := st, statsLeft := l\<rparr>)"
    using cc Healthy maybe_stat [of "Prom (putChain k cc1 td)" "mkUpdate metricNodeDownSeconds 0 (Url (Nodes cc ! i)) cc1" "putChain k cc1 td"]
    by (auto simp: probeNode_def Let_def simp flip: cc1_def)
  moreover have "td_wf ((putChain k cc1 td)\<lparr>statsChan := st, statsLeft := l\<rparr>)"
    using td_wf_putChain [OF wf nm] by simp
  moreover have "Nodes cc1 ! j = (if j = i then nodeWith markHealthy (Nodes cc ! i) else Nodes cc ! j)" for j
    using Nodes_updateNodeAt [OF i] by (simp add: cc1_def setNoNodes_def)
  ultimately show ?thesis
    using Healthy nm by (intro exI [of _ "(putChain k cc1 td)\<lparr>statsChan := st, statsLeft := l\<rparr>"] exI [of _ cc1])
      (simp add: probedNode_def, simp add: cc1_def setNoNodes_def)
next
  case (Unhealthy msg sy)
  define node where "node = Nodes cc ! i"
  define cc1 where "cc1 = updateNodeAt i (markUnhealthy now chainName node msg) cc"
  define cc2 where "cc2 = (if sy then updateNodeAt i (\<lambda>s. s\<lparr>ns_syncing := True\<rparr>) cc1 else cc1)"
  have nm: "name cc1 = k" "name cc2 = k" using td_wf_name [OF wf cc] by (simp_all add: cc1_def cc2_def)
  define td2 where "td2 = (if Prom (putChain k cc1 td) \<and> AlertIfDown node
      then snd (emitStat (mkUpdate metricNodeDownSeconds (Seconds (Since now (downSince (Nodes cc1 ! i)))) (Url node) cc1)
        (putChain k cc1 td)) else putChain k cc1 td)"
  obtain st l where td2: "td2 = (putChain k cc1 td)\<lparr>statsChan := st, statsLeft := l\<rparr>"
    unfolding td2_def using maybe_stat by metis
  have step: "probeNode env now chainName i k td = Some (if sy then putChain k cc2 td2 else td2)"
    using cc Unhealthy
    by (simp add: probeNode_def Let_def cc2_def td2_def flip: cc1_def node_def)
  note step
  moreover have "td_wf (if sy then putChain k cc2 td2 else td2)"
    using td_wf_putChain [OF wf nm(1)] nm(2) by (simp add: td2 td_wf_putChain)
  moreover have "chainAt (if sy then putChain k cc2 td2 else td2) j = (if j = k then Some cc2 else chainAt td j)" for j
    by (simp add: td2 cc2_def)
  moreover have "Nodes cc2 ! j = (if j = i then probedNode env now chainName cc (Nodes cc ! i) else Nodes cc ! j)" for j
    using i Unhealthy by (simp add: cc2_def cc1_def Nodes_updateNodeAt probedNode_def node_def Let_def)
  ultimately show ?thesis
    using Unhealthy nm by (intro exI [of _ "if sy then putChain k cc2 td2 else td2"] exI [of _ cc2])
      (simp, simp add: cc2_def cc1_def td2)
qed

lemma probeAll_effect:
  assumes "td_wf td" "chainAt td k = Some cc" "set is \<subseteq> {..<length (Nodes cc)}" "distinct is"
  shows "\<exists>td' cc'. probeAll env clock chainName is k td = Some td' \<and> td_wf td' \<and> chainAt td' k = Some cc' \<and>
    (\<forall>j. j \<noteq> k \<longrightarrow> chainAt td' j = chainAt td j) \<and> alertChan td' = alertChan td \<and> alarms td' = alarms td \<and>
    ChainId cc' = ChainId cc \<and> length (Nodes cc') = length (Nodes cc) \<and>
    (\<forall>i. Nodes cc' ! i = (if i \<in> set is then probedNode env (clock i) chainName cc (Nodes cc ! i) else Nodes cc ! i)) \<and>
    noNodes cc' = (noNodes cc \<and> (\<forall>i\<in>set is. probeResult env cc (Nodes cc ! i) \<noteq> Healthy))"
  using assms
proof (induction "is" arbitrary: td cc)
  case Nil
  then show ?case by (intro exI [of _ td] exI [of _ cc]) simp
next
  case (Cons i "is")
  obtain td1 cc1 where 1: "probeNode env (clock i) chainName i k td = Some td1" "td_wf td1" "chainAt td1 k = Some cc1"
    "\<forall>j. j \<noteq> k \<longrightarrow> chainAt td1 j = chainAt td j" "alertChan td1 = alertChan td" "alarms td1 = alarms td"
    "ChainId cc1 = ChainId cc" "length (Nodes cc1) = length (Nodes cc)"
    "Nodes cc1 ! i = probedNode env (clock i) chainName cc (Nodes cc ! i)"
    "\<forall>j. j \<noteq> i \<longrightarrow> Nodes cc1 ! j = Nodes cc ! j"
    "noNodes cc1 = (noNodes cc \<and> probeResult env cc (Nodes cc ! i) \<noteq> Healthy)"
    using probeNode_effect [OF Cons.prems(1,2), of i env "clock i" chainName] Cons.prems(3) by auto
  have "set is \<subseteq> {..<length (Nodes cc1)}" "distinct is" using Cons.prems(3,4) 1(8) by auto
  from Cons.IH [OF 1(2,3) this] obtain td2 cc2 where
    2: "probeAll env clock chainName is k td1 = Some td2" "td_wf td2" "chainAt td2 k = Some cc2"
    "\<forall>j. j \<noteq> k \<longrightarrow> chainAt td2 j = chainAt td1 j" "alertChan td2 = alertChan td1" "alarms td2 = alarms td1"
    "ChainId cc2 = ChainId cc1" "length (Nodes cc2) = length (Nodes cc1)"
    "\<forall>j. Nodes cc2 ! j = (if j \<in> set is then probedNode env (clock j) chainName cc1 (Nodes cc1 ! j) else Nodes cc1 ! j)"
    "noNodes cc2 = (noNodes cc1 \<and> (\<forall>j\<in>set is. probeResult env cc1 (Nodes cc1 ! j) \<noteq> Healthy))" by blast
  have i: "i \<notin> set is" using Cons.prems(4) by simp
  have same: "Nodes cc1 ! j = Nodes cc ! j" if "j \<in> set is" for j using that i 1(10) by metis
  have "probeResult env cc1 (Nodes cc1 ! j) = probeResult env cc (Nodes cc ! j)" if "j \<in> set is" for j
    using same [OF that] 1(7) by (intro probeResult_cong) simp_all
  then have nn: "noNodes cc2 = (noNodes cc \<and> (\<forall>j\<in>set (i # is). probeResult env cc (Nodes cc ! j) \<noteq> Healthy))"
    using 2(10) 1(11) by auto
  have nodes: "Nodes cc2 ! j = (if j \<in> set (i # is) then probedNode env (clock j) chainName cc (Nodes cc ! j) else Nodes cc ! j)" for j
  proof (cases "j \<in> set is")
    case True
    with 2(9) same [OF True] probedNode_cong [OF 1(7)] show ?thesis by simp
  next
    case False
    with 2(9) 1(9,10) show ?thesis by auto
  qed
  show ?case
    using 1(1,4-8) 2(1-8) nn nodes by (intro exI [of _ td2] exI [of _ cc2]) simp
qed

section \<open>Properties\<close>

text \<open>An environment in which the nodes \<open>http://a\<close> and \<open>http://b\<close> answer, the first one still syncing.\<close>

definition sample_env :: rpc_env where
  "sample_env =
     \<lparr>urlParse = (\<lambda>_. None), openRPCClient = (\<lambda>u. Inr (RpcClient u)),
      statusOf = (\<lambda>c. Inr \<lparr>Network = ''osmosis-1'', CatchingUp = (Remote c = ''http://a'')\<rparr>),
      validatorOf = (\<lambda>_ _. Inr \<lparr>vr_ConsensusAddress = replicate 20 7, vr_Moniker = ''val'', vr_Jailed = False,
        vr_Bonded = True\<rparr>),
      signingInfoOf = (\<lambda>_ _. Inr \<lparr>si_Tombstoned = False, si_MissedBlocks = 3\<rparr>),
      slashingParamsOf = (\<lambda>_. Inr \<lparr>SignedBlocksWindow = 30000\<rparr>),
      encodeAddress = (\<lambda>p _. Inr (p @ ''1xyz'')), sliceCap = (\<lambda>n. n), registryPaths = cosmosPaths,
      fetchPage = (\<lambda>_. None)\<rparr>"

definition two_nodes :: ChainConfig where
  "two_nodes = sample_chain\<lparr>Nodes :=
     [\<lparr>Url = ''http://a'', AlertIfDown = True, down = False, wasDown = False, syncing = False, lastMsg = '''', downSince = 0\<rparr>,
      \<lparr>Url = ''http://b'', AlertIfDown = False, down = False, wasDown = False, syncing = False, lastMsg = '''', downSince = 0\<rparr>]\<rparr>"

lemma two_nodes_td: "td_wf (putChain ''osmosis'' two_nodes sample_td)"
  by (rule td_wf_putChain) (simp_all add: two_nodes_def sample_chain_def)

lemma upt_split: "[0..<n] = pre @ i # post \<Longrightarrow> i < n \<and> set pre = {..<i}"
proof -
  assume eq: "[0..<n] = pre @ i # post"
  have len: "length pre < n" using arg_cong [OF eq, of length] by simp
  have "i = [0..<n] ! length pre" unfolding eq by simp
  with len have i: "i = length pre" by simp
  have "pre = take (length pre) [0..<n]" unfolding eq by simp
  with len have "pre = [0..<length pre]" by (simp add: take_upt)
  then have "set pre = {..<length pre}" by (metis atLeast0LessThan set_upt)
  with len i show ?thesis by simp
qed

text \<open>The three ways \<open>newRpc\<close> ends: a configured node, the public fallback, or no endpoint.\<close>

lemma noEndpoints_effect:
  "\<exists>e cc2 upd. noEndpoints k cc1 td = (e, (putChain k cc2 td)\<lparr>updateChan := upd\<rparr>) \<and>
     noNodes cc2 \<and> client cc2 = client cc1 \<and> Nodes cc2 = Nodes cc1 \<and> name cc2 = name cc1"
proof -
  define cc2 where "cc2 = (setNoNodes True cc1)\<lparr>activeAlerts := getCount (name cc1) (alarms td),
    lastError := ''no usable RPC endpoints available for '' @ ChainId cc1\<rparr>"
  define upd where "upd = updateChan (putChain k cc2 td) @ (if EnableDash td then [noEndpointStatus cc2] else [])"
  have "(if EnableDash (putChain k cc2 td)
      then (putChain k cc2 td)\<lparr>updateChan := updateChan (putChain k cc2 td) @ [noEndpointStatus cc2]\<rparr>
      else putChain k cc2 td) = (putChain k cc2 td)\<lparr>updateChan := upd\<rparr>"
    by (simp add: upd_def)
  then have "snd (noEndpoints k cc1 td) = (putChain k cc2 td)\<lparr>updateChan := upd\<rparr>"
    unfolding noEndpoints_def Let_def cc2_def [symmetric] snd_conv .
  moreover have "noNodes cc2" "client cc2 = client cc1" "Nodes cc2 = Nodes cc1" "name cc2 = name cc1"
    by (simp_all add: cc2_def setNoNodes_def)
  ultimately show ?thesis by (metis prod.collapse)
qed

lemma newRpc_run:
  assumes "chainAt td k = Some cc"
    and "tryNodes env clock (\<exists>n\<in>set (Nodes cc). \<not> down n) [0..<length (Nodes cc)] cc = (found, cc1)"
  shows "found = Some c \<or> found = None \<and> publicFallback env cc1 = Some c \<Longrightarrow>
      newRpc env clock k td = Some (None, putChain k (connectTo c cc1) td)"
    and "found = None \<Longrightarrow> publicFallback env cc1 = None \<Longrightarrow>
      newRpc env clock k td = Some (Some (fst (noEndpoints k cc1 td)), snd (noEndpoints k cc1 td))"
  using assms by (auto simp: newRpc_def list_ex_iff split_def)

lemma connectTo_simps [simp]:
  "name (connectTo c cc) = name cc" "Nodes (connectTo c cc) = Nodes cc" "client (connectTo c cc) = Some c"
  "noNodes (connectTo c cc) = False"
  by (simp_all add: connectTo_def setNoNodes_def setRPCClient_def)



text \<open>C29: A round of health probes, in whatever order they run, leaves every node down exactly when its own
  probe failed. A node keeps the time it went down while it stays down, a recovery is
  remembered for the watch loop, and one healthy node clears the no-nodes flag. Other chains,
  alerts and alarms are not touched.\<close>

theorem health_probes:
  assumes "td_wf td" "chainAt td k = Some cc" "set order = {..<length (Nodes cc)}" "distinct order"
  shows "\<exists>td' cc'. probeAll env clock chainName order k td = Some td' \<and> td_wf td' \<and> chainAt td' k = Some cc' \<and>
    (\<forall>j. j \<noteq> k \<longrightarrow> chainAt td' j = chainAt td j) \<and> alertChan td' = alertChan td \<and> alarms td' = alarms td \<and>
    (\<forall>i<length (Nodes cc).
       let node = Nodes cc ! i; node' = Nodes cc' ! i; ok = (probeResult env cc node = Healthy)
       in down node' = (\<not> ok) \<and> wasDown node' = (wasDown node \<or> ok \<and> down node) \<and>
          (\<not> ok \<longrightarrow> downSince node' = (if \<not> down node \<and> AlertIfDown node then clock i else downSince node))) \<and>
    noNodes cc' = (noNodes cc \<and> (\<forall>i<length (Nodes cc). probeResult env cc (Nodes cc ! i) \<noteq> Healthy))"
proof -
  have node: "down (probedNode env now nm cc n) = (probeResult env cc n \<noteq> Healthy) \<and>
      wasDown (probedNode env now nm cc n) = (wasDown n \<or> probeResult env cc n = Healthy \<and> down n) \<and>
      (probeResult env cc n \<noteq> Healthy \<longrightarrow>
        downSince (probedNode env now nm cc n) = (if \<not> down n \<and> AlertIfDown n then now else downSince n))" for now nm n
    by (simp add: probedNode_def nodeWith_fields markHealthy_def markUnhealthy_def Let_def split: health.splits)
  obtain td' cc' where "probeAll env clock chainName order k td = Some td'" "td_wf td'" "chainAt td' k = Some cc'"
    "\<forall>j. j \<noteq> k \<longrightarrow> chainAt td' j = chainAt td j" "alertChan td' = alertChan td" "alarms td' = alarms td"
    "\<forall>i. Nodes cc' ! i = (if i \<in> set order then probedNode env (clock i) chainName cc (Nodes cc ! i) else Nodes cc ! i)"
    "noNodes cc' = (noNodes cc \<and> (\<forall>i\<in>set order. probeResult env cc (Nodes cc ! i) \<noteq> Healthy))"
    using probeAll_effect [OF assms(1,2), of order env clock chainName] assms(3,4) by auto
  then show ?thesis
    using assms(3) node by (intro exI [of _ td'] exI [of _ cc']) (simp add: Let_def Ball_def)
qed

theorem health_probes_witness:
  "\<exists>td' cc'. probeAll sample_env (\<lambda>_. UnixZero) ''osmosis'' [1, 0] ''osmosis'' (putChain ''osmosis'' two_nodes sample_td) =
     Some td' \<and> chainAt td' ''osmosis'' = Some cc' \<and> down (Nodes cc' ! 0) \<and> \<not> down (Nodes cc' ! 1)"
proof -
  have p: "probeResult sample_env two_nodes (Nodes two_nodes ! 0) \<noteq> Healthy"
    "probeResult sample_env two_nodes (Nodes two_nodes ! 1) = Healthy" "length (Nodes two_nodes) = 2"
    by (simp_all add: two_nodes_def sample_chain_def probeResult_def sample_env_def)
  have "set [1, 0 :: nat] = {..<length (Nodes two_nodes)}" by (auto simp: p(3))
  with health_probes [OF two_nodes_td, of "''osmosis''" two_nodes "[1, 0]" sample_env "\<lambda>_. UnixZero" "''osmosis''"] p
  show ?thesis by (auto simp: Let_def)
qed

text \<open>C30: A validator refresh is all or nothing: an error leaves the process as it was, a success changes
  the chain's two validator records and nothing else of the store. The slashing window,
  once known, is kept; the previous record is retained except at startup.\<close>

theorem validator_refresh_atomic:
  assumes "chainAt td k = Some cc"
  shows "case GetValInfo env first k td of
      None \<Rightarrow> fetchValInfo env first cc = None
    | Some (Some err, td') \<Rightarrow> td' = td
    | Some (None, td') \<Rightarrow>
        (\<exists>next. fetchValInfo env first cc = Some (Inr next) \<and>
           Chains td' = Chains (putChain k (cc\<lparr>valInfo := Some next,
             lastValInfo := if first then lastValInfo cc else valInfo cc\<rparr>) td) \<and>
           alertChan td' = alertChan td \<and> alarms td' = alarms td \<and>
           (\<forall>cur. valInfo cc = Some cur \<and> Window cur \<noteq> 0 \<longrightarrow> Window next = Window cur))"
proof (cases "fetchValInfo env first cc")
  case None
  then show ?thesis using assms by (simp add: GetValInfo_def)
next
  case (Some r)
  show ?thesis
  proof (cases r)
    case (Inl err)
    then show ?thesis using assms Some by (simp add: GetValInfo_def)
  next
    case (Inr nxt)
    define cc1 where "cc1 = publishValidatorInfo nxt (\<not> first) cc"
    have keep: "Chains (snd (emitStat u t)) = Chains t \<and> alertChan (snd (emitStat u t)) = alertChan t \<and>
        alarms (snd (emitStat u t)) = alarms t" for u t
      using maybe_stat [of True u t] by auto
    have "\<exists>td'. GetValInfo env first k td = Some (None, td') \<and>
      Chains td' = Chains (putChain k cc1 td) \<and> alertChan td' = alertChan td \<and> alarms td' = alarms td"
      using assms Some Inr by (cases first) (simp_all add: GetValInfo_def Let_def keep cc1_def)
    then obtain td' where run: "GetValInfo env first k td = Some (None, td')"
      "Chains td' = Chains (putChain k cc1 td)" "alertChan td' = alertChan td" "alarms td' = alarms td" by blast
    have "cc1 = cc\<lparr>valInfo := Some nxt, lastValInfo := if first then lastValInfo cc else valInfo cc\<rparr>"
      by (simp add: cc1_def publishValidatorInfo_def)
    moreover have "Window nxt = Window cur" if "valInfo cc = Some cur" "Window cur \<noteq> 0" for cur
      using Some Inr that
      by (auto simp: fetchValInfo_def Let_def split: option.splits sum.splits if_splits)
    ultimately show ?thesis using run Some Inr by simp
  qed
qed

theorem validator_refresh_atomic_witness:
  "case GetValInfo sample_env False ''osmosis'' sample_td of
      None \<Rightarrow> False
    | Some (err, td') \<Rightarrow> err = Some ''nil rpc client'' \<and> td' = sample_td"
proof -
  have "GetValInfo sample_env False ''osmosis'' sample_td = Some (Some ''nil rpc client'', sample_td)"
    by (simp add: GetValInfo_def fetchValInfo_def) (simp add: sample_chain_def)
  with validator_refresh_atomic [of sample_td "''osmosis''" sample_chain sample_env False] show ?thesis by simp
qed

text \<open>A node that is not alerted on and goes down after having been healthy carries the Unix epoch
  as the time it went down, which counts as a known time; an alerted node carries the
  time of the probe.\<close>

theorem down_since_after_health:
  "ns_down (markUnhealthy now chainName node msg (markHealthy s)) \<and>
   ns_downSince (markUnhealthy now chainName node msg (markHealthy s)) =
     (if AlertIfDown node then now else UnixZero) \<and> \<not> IsZero UnixZero"
  by (simp add: markUnhealthy_def markHealthy_def Let_def time_simps)

end
