(* ===== verification/Watch.thy ===== *)
theory Watch
  imports Alerts
begin

text \<open>
  The watch loop of a chain, \<open>ChainConfig.watch\<close> of \<open>src/seer/alert.go\<close>. Its local variables
  are the record \<open>watchLocals\<close>; the loop that waits for a moniker and the two-second loop are
  functions of one round each, built from one stage per alarm in the order of the source. A
  round takes the clock readings of its stages as arguments. As in the checks of the chain
  object, the decision of a stage (its \<open>...Switch\<close>) is separate from its publication.

  The lemmas: the switches are interpreted as latches or guards; every stage of the loop is
  total on a well-formed process and \<open>evolves\<close> it, that is, it only appends alerts of its own
  chain to the queue, leaves the other chains and all settings alone and never touches what
  the destinations have accepted.
\<close>

section \<open>Local variables\<close>

record watchLocals =
  missedAlarm :: bool
  wl_noNodes :: bool
  inactive :: string
  nodeAlarms :: "(string, bool) gmap"
  noNodesSec :: int

definition watchStart :: watchLocals where
  "watchStart =
     \<lparr>missedAlarm = False, wl_noNodes = False, inactive = ''jailed'', nodeAlarms = mkmap,
      noNodesSec = 0\<rparr>"

definition noServersMessage :: "ChainConfig \<Rightarrow> string" where
  "noServersMessage cc = ''no RPC endpoints are working for '' @ ChainId cc"

section \<open>Waiting for a moniker\<close>

text \<open>\<open>Some valcons\<close>: no moniker yet, wait a second; \<open>None\<close>: go on to the main loop.\<close>

definition watchWaiting :: "ChainConfig \<Rightarrow> string option" where
  "watchWaiting cc =
     (case fst (validatorInfoSnapshot cc) of
        None \<Rightarrow> Some ''''
      | Some vi \<Rightarrow> if Moniker vi = ''not connected'' then Some (Valcons vi) else None)"

text \<open>The rest of a waiting round, after the second has passed.\<close>

definition waitSwitch :: "Config \<Rightarrow> ChainConfig \<Rightarrow> watchLocals \<Rightarrow> alarm_event list \<times> watchLocals" where
  "waitSwitch td cc st =
     (if AlertIfNoServers (Alerts cc) \<and> \<not> wl_noNodes st \<and> noNodesState cc \<and>
         wrap64 (60 * NodeDownMin td) \<le> noNodesSec st
      then ([Raise], st\<lparr>wl_noNodes := True, noNodesSec := noNodesSec st + 1\<rparr>)
      else ([], st\<lparr>noNodesSec := noNodesSec st + 1\<rparr>))"

definition watchWaitRound ::
  "time \<Rightarrow> string \<Rightarrow> string \<Rightarrow> watchLocals \<Rightarrow> Config \<Rightarrow> (watchLocals \<times> Config) option" where
  "watchWaitRound now valcons k st td =
     do { cc \<leftarrow> chainAt td k;
          (case waitSwitch td cc st of
             (ev, st1) \<Rightarrow>
               if ev = [] then Some (st1, td)
               else do { td1 \<leftarrow> alert now (name cc) (noServersMessage cc) ''critical'' False
                                 (Some valcons) td;
                         Some (st1, td1) }) }"

definition watchInitStats :: "string \<Rightarrow> Config \<Rightarrow> (bool \<times> Config) option" where
  "watchInitStats k td =
     do { cc \<leftarrow> chainAt td k;
          Some (if Prom td
                then emitStats (map (\<lambda>node. mkUpdate metricNodeDownSeconds 0 (Url node) cc) (Nodes cc)) td
                else (True, td)) }"

section \<open>No usable endpoint\<close>

definition noNodesSwitch :: "Config \<Rightarrow> ChainConfig \<Rightarrow> watchLocals \<Rightarrow> alarm_event list \<times> watchLocals" where
  "noNodesSwitch td cc st =
     (if AlertIfNoServers (Alerts cc) \<and> \<not> wl_noNodes st \<and> noNodesState cc
      then if noNodesSec st + 2 \<le> wrap64 (30 * NodeDownMin td)
           then ([], st\<lparr>noNodesSec := noNodesSec st + 2, wl_noNodes := False\<rparr>)
           else ([Raise], st\<lparr>noNodesSec := 0, wl_noNodes := True\<rparr>)
      else if AlertIfNoServers (Alerts cc) \<and> wl_noNodes st \<and> \<not> noNodesState cc
      then ([Clear], st\<lparr>wl_noNodes := False\<rparr>)
      else ([], st\<lparr>noNodesSec := 0\<rparr>))"

definition noNodesStage ::
  "time \<Rightarrow> ValInfo \<Rightarrow> string \<Rightarrow> watchLocals \<Rightarrow> Config \<Rightarrow> (watchLocals \<times> Config) option" where
  "noNodesStage now vi k st td =
     do { cc \<leftarrow> chainAt td k;
          (case noNodesSwitch td cc st of
             ([], st1) \<Rightarrow> Some (st1, td)
           | (e # _, st1) \<Rightarrow>
               do { td1 \<leftarrow> alert now (name cc) (noServersMessage cc) ''critical'' (e = Clear)
                             (Some (Valcons vi)) td;
                    Some (st1, td1) }) }"

section \<open>Jailed or tombstoned\<close>

definition tombstonedText :: string where
  "tombstonedText =
     [CHR 0xE2, CHR 0x98, CHR 0xA0, CHR 0xEF, CHR 0xB8, CHR 0x8F] @ '' tombstoned '' @
     [CHR 0xF0, CHR 0x9F, CHR 0xAA, CHR 0xA6]"

definition jailedSwitch ::
  "ValInfo \<Rightarrow> ValInfo option \<Rightarrow> ChainConfig \<Rightarrow> watchLocals \<Rightarrow> alarm_event list \<times> watchLocals" where
  "jailedSwitch vi last_vi cc st =
     (case last_vi of
        None \<Rightarrow> ([], st)
      | Some lv \<Rightarrow>
          if AlertIfInactive (Alerts cc) \<and> Bonded lv \<noteq> Bonded vi \<and> Moniker lv = Moniker vi
          then if \<not> Bonded vi \<and> Bonded lv
               then ([Raise], if Tombstoned vi then st\<lparr>inactive := tombstonedText\<rparr> else st)
               else if Bonded vi \<and> \<not> Bonded lv then ([Clear], st) else ([], st)
          else ([], st))"

definition inactiveMessage :: "ValInfo \<Rightarrow> watchLocals \<Rightarrow> string" where
  "inactiveMessage vi st = Moniker vi @ '' is no longer active: validator is '' @ inactive st"

definition jailedStage ::
  "time \<Rightarrow> ValInfo \<Rightarrow> ValInfo option \<Rightarrow> string \<Rightarrow> watchLocals \<Rightarrow> Config \<Rightarrow>
     (watchLocals \<times> Config) option" where
  "jailedStage now vi last_vi k st td =
     do { cc \<leftarrow> chainAt td k;
          (case jailedSwitch vi last_vi cc st of
             ([], st1) \<Rightarrow> Some (st1, td)
           | (e # _, st1) \<Rightarrow>
               do { td1 \<leftarrow> alert now (name cc) (inactiveMessage vi st1)
                             (if e = Clear then ''info'' else ''critical'') (e = Clear)
                             (Some (Valcons vi @ ''jailed'')) td;
                    Some (st1, td1) }) }"

section \<open>Consecutive missed blocks\<close>

definition consecutiveSwitch :: "ChainConfig \<Rightarrow> watchLocals \<Rightarrow> alarm_event list \<times> watchLocals" where
  "consecutiveSwitch cc st =
     (if \<not> missedAlarm st \<and> ConsecutiveAlerts (Alerts cc) \<and>
         ConsecutiveMissed (Alerts cc) \<le> int_of_f64 (statConsecutiveMiss cc)
      then ([Raise], st\<lparr>missedAlarm := True\<rparr>)
      else if missedAlarm st \<and> int_of_f64 (statConsecutiveMiss cc) < ConsecutiveMissed (Alerts cc)
      then ([Clear], st\<lparr>missedAlarm := False\<rparr>)
      else ([], st))"

definition consecutiveMessage :: "ValInfo \<Rightarrow> ChainConfig \<Rightarrow> string" where
  "consecutiveMessage vi cc =
     Moniker vi @ '' has missed '' @ itoa (ConsecutiveMissed (Alerts cc)) @ '' blocks on '' @ ChainId cc"

definition consecutiveStage ::
  "time \<Rightarrow> ValInfo \<Rightarrow> string \<Rightarrow> watchLocals \<Rightarrow> Config \<Rightarrow> (watchLocals \<times> Config) option" where
  "consecutiveStage now vi k st td =
     do { cc \<leftarrow> chainAt td k;
          (case consecutiveSwitch cc st of
             ([], st1) \<Rightarrow> Some (st1, td)
           | (e # _, st1) \<Rightarrow>
               do { td1 \<leftarrow> alert now (name cc) (consecutiveMessage vi cc)
                             (if e = Clear then ''info'' else ConsecutivePriority (Alerts cc)) (e = Clear)
                             (Some (Valcons vi @ ''consecutive'')) td;
                    td2 \<leftarrow> refreshActiveAlerts k td1;
                    Some (st1, td2) }) }"

section \<open>Nodes that are down\<close>

definition nodeSwitch :: "time \<times> Config \<times> NodeConfig \<Rightarrow> bool \<Rightarrow> alarm_event list \<times> bool" where
  "nodeSwitch = (\<lambda>(now, td, node) alarmed.
     let s = nodeState node
     in if AlertIfDown node \<and> ns_down s \<and> \<not> ns_wasDown s \<and> \<not> IsZero (ns_downSince s) \<and>
           wrap64 (NodeDownMin td * Minute) < Since now (ns_downSince s)
        then if \<not> alarmed then ([Raise], True) else ([], alarmed)
        else if AlertIfDown node \<and> \<not> ns_down s \<and> ns_wasDown s then ([Clear], False)
        else ([], alarmed))"

definition nodeDownMessage :: "Config \<Rightarrow> NodeConfig \<Rightarrow> ChainConfig \<Rightarrow> string" where
  "nodeDownMessage td node cc =
     ''Severity: '' @ NodeDownSeverity td @ newline @ ''RPC node '' @ Url node @
     '' has been down for > '' @ itoa (NodeDownMin td) @ '' minutes on '' @ ChainId cc"

definition nodeStage ::
  "time \<Rightarrow> nat \<Rightarrow> string \<Rightarrow> watchLocals \<Rightarrow> Config \<Rightarrow> (watchLocals \<times> Config) option" where
  "nodeStage now i k st td =
     do { cc \<leftarrow> chainAt td k;
          let node = Nodes cc ! i;
              alarmed = m_get False (nodeAlarms st) (Url node)
          in case nodeSwitch (now, td, node) alarmed of
             (Raise # _, on) \<Rightarrow>
               do { td1 \<leftarrow> refreshActiveAlerts k td;
                    td2 \<leftarrow> alert now (name cc) (nodeDownMessage td node cc) (NodeDownSeverity td) False
                             (Some (Url node)) td1;
                    Some (st\<lparr>nodeAlarms := m_ins (Url node) on (nodeAlarms st)\<rparr>, td2) }
           | (Clear # _, on) \<Rightarrow>
               do { td1 \<leftarrow> alert now (name cc) (nodeDownMessage td node cc) ''info'' True
                             (Some (Url node))
                             (putChain k (updateNodeAt i (\<lambda>s. s\<lparr>ns_wasDown := False\<rparr>) cc) td);
                    td2 \<leftarrow> refreshActiveAlerts k td1;
                    Some (st\<lparr>nodeAlarms := m_ins (Url node) on (nodeAlarms st)\<rparr>, td2) }
           | ([], _) \<Rightarrow> Some (st, td) }"

fun nodesLoop ::
  "(nat \<Rightarrow> time) \<Rightarrow> nat list \<Rightarrow> string \<Rightarrow> watchLocals \<Rightarrow> Config \<Rightarrow> (watchLocals \<times> Config) option" where
  "nodesLoop clock [] k st td = Some (st, td)"
| "nodesLoop clock (i # is) k st td =
     do { (st1, td1) \<leftarrow> nodeStage (clock i) i k st td;
          nodesLoop clock is k st1 td1 }"

section \<open>A round of the main loop\<close>

definition promStage :: "time \<Rightarrow> string \<Rightarrow> Config \<Rightarrow> (bool \<times> Config) option" where
  "promStage now k td =
     do { cc \<leftarrow> chainAt td k;
          Some (if Prom td
                then emitStats
                  (mkUpdate metricLastBlockSecondsNotFinal
                     (Seconds (Since now (lastFinalBlockTime cc))) '''' cc #
                   map (\<lambda>node. mkUpdate metricNodeDownSeconds
                          (Seconds (Since now (ns_downSince (nodeState node)))) (Url node) cc)
                     (filter (\<lambda>node. ns_down (nodeState node) \<and> \<not> IsZero (ns_downSince (nodeState node)))
                        (Nodes cc))) td
                else (True, td)) }"

text \<open>The flag of the result tells whether the loop goes on (the context was not done).\<close>

definition watchRound ::
  "(nat \<Rightarrow> time) \<Rightarrow> (nat \<Rightarrow> time) \<Rightarrow> string \<Rightarrow> watchLocals \<Rightarrow> Config \<Rightarrow>
     (bool \<times> watchLocals \<times> Config) option" where
  "watchRound clock nodeClock k st td =
     do { cc \<leftarrow> chainAt td k;
          (case validatorInfoSnapshot cc of
             (None, _) \<Rightarrow> Some (True, st, td)
           | (Some vi, last_vi) \<Rightarrow>
               do { (st1, td1) \<leftarrow> noNodesStage (clock 0) vi k st td;
                    td2 \<leftarrow> checkStalledAlert (clock 1) k td1;
                    (st3, td3) \<leftarrow> jailedStage (clock 2) vi last_vi k st1 td2;
                    (st4, td4) \<leftarrow> consecutiveStage (clock 3) vi k st3 td3;
                    td5 \<leftarrow> checkPercentageAlert (clock 4) k td4;
                    (st6, td6) \<leftarrow> nodesLoop nodeClock [0..<length (Nodes cc)] k st4 td5;
                    (go, td7) \<leftarrow> promStage (clock 5) k td6;
                    Some (go, st6, td7) }) }"

section \<open>What a stage may change\<close>

text \<open>The settings of a process and of a chain, which no alarm stage changes.\<close>

definition settings :: "Config \<Rightarrow> Config" where
  "settings td = td\<lparr>alertChan := [], statsChan := [], statsLeft := None, alarms := newAlarmCache,
     Chains := NilMap\<rparr>"

definition fixedParts :: "ChainConfig \<Rightarrow> string \<times> string \<times> string \<times> AlertConfig \<times> (string \<times> bool) list" where
  "fixedParts cc =
     (name cc, ChainId cc, ValAddress cc, Alerts cc, map (\<lambda>n. (Url n, AlertIfDown n)) (Nodes cc))"

definition evolves :: "string \<Rightarrow> Config \<Rightarrow> Config \<Rightarrow> bool" where
  "evolves k td td' \<longleftrightarrow> td_wf td' \<and> settings td' = settings td \<and>
     (\<exists>q. alertChan td' = alertChan td @ q \<and> (\<forall>a\<in>set q. chain a = k)) \<and>
     (\<forall>k'. k' \<noteq> k \<longrightarrow> chainAt td' k' = chainAt td k') \<and>
     map_option fixedParts (chainAt td' k) = map_option fixedParts (chainAt td k) \<and>
     (\<forall>k' m. k' \<noteq> k \<longrightarrow> on_dashboard (alarms td') k' m = on_dashboard (alarms td) k' m) \<and>
     sent_at (alarms td') = sent_at (alarms td) \<and> in_flight (alarms td') = in_flight (alarms td)"

lemma evolves_wf [dest]: "evolves k td td' \<Longrightarrow> td_wf td'"
  by (simp add: evolves_def)

lemma evolves_refl [intro]: "td_wf td \<Longrightarrow> evolves k td td"
  by (auto simp: evolves_def)

lemma evolves_trans [trans]: "evolves k td td1 \<Longrightarrow> evolves k td1 td2 \<Longrightarrow> evolves k td td2"
  by (fastforce simp: evolves_def)

lemma evolves_chain:
  "evolves k td td' \<Longrightarrow> chainAt td k = Some cc \<Longrightarrow>
     \<exists>cc'. chainAt td' k = Some cc' \<and> fixedParts cc' = fixedParts cc"
  by (auto simp: evolves_def)

lemma fixedParts_nodes: "fixedParts cc' = fixedParts cc \<Longrightarrow> length (Nodes cc') = length (Nodes cc)"
  by (auto simp: fixedParts_def dest: map_eq_imp_length_eq)

lemma evolves_putChain:
  assumes "td_wf td" "chainAt td k = Some cc" "fixedParts cc' = fixedParts cc"
  shows "evolves k td (putChain k cc' td)"
proof -
  have "name cc' = k" using assms by (simp add: fixedParts_def td_wf_name)
  with assms show ?thesis
    by (simp add: evolves_def td_wf_putChain settings_def) (simp add: putChain_def)
qed

lemma evolves_alert:
  assumes wf: "td_wf c" and ch: "chainAt c k = Some ch"
  shows "\<exists>c'. alert now k msg sev res uid c = Some c' \<and> evolves k c c' \<and> chainAt c' k = Some ch"
proof (cases "accepting c")
  case True
  obtain al where a: "alert now k msg sev res uid c =
       Some (c\<lparr>alertChan := alertChan c @ [mkAlert c ch k msg sev res uid], alarms := al\<rparr>)"
    and r: "recordDashboardAlarm now k msg res (alarms c) = Some al" and "cache_wf al"
    by (rule alert_effect [OF wf True ch])
  moreover have "sent_at al = sent_at (alarms c)" "in_flight al = in_flight (alarms c)"
    using record_frame [OF r] by (simp_all add: fun_eq_iff)
  ultimately show ?thesis
    using wf ch record_dashboard [OF r]
    by (simp add: evolves_def td_wf_alarms settings_def) (simp add: mkAlert_def)
next
  case False
  with wf ch show ?thesis by (auto simp: alert_stopped)
qed

lemma evolves_stats:
  assumes "td_wf td" "emitStats us td = (ok, td')"
  shows "evolves k td td'"
proof -
  obtain vs n where "td' = td\<lparr>statsChan := statsChan td @ vs, statsLeft := n\<rparr>"
    using emitStats_frame [OF assms(2)] by blast
  with assms(1) show ?thesis by (simp add: evolves_def settings_def td_wf_def)
qed

lemma evolves_refresh:
  assumes "td_wf td" "chainAt td k \<noteq> None"
  shows "\<exists>td'. refreshActiveAlerts k td = Some td' \<and> evolves k td td'"
proof -
  from assms obtain cc where cc: "chainAt td k = Some cc" by auto
  have "evolves k td (putChain k (cc\<lparr>activeAlerts := getCount (name cc) (alarms td)\<rparr>) td)"
    by (rule evolves_putChain [OF assms(1) cc]) (simp add: fixedParts_def)
  with cc show ?thesis by (simp add: refreshActiveAlerts_def)
qed

lemma evolves_clearNoBlocks:
  assumes "td_wf td"
  shows "evolves k td (td\<lparr>alarms := clearNoBlocks k (alarms td)\<rparr>)"
proof -
  have "cache_wf (alarms td)" using assms by (simp add: td_wf_def)
  moreover have "sent_at (clearNoBlocks k (alarms td)) = sent_at (alarms td)"
    "in_flight (clearNoBlocks k (alarms td)) = in_flight (alarms td)"
    by (simp_all add: fun_eq_iff clearNoBlocks_def cache_views)
  ultimately show ?thesis
    using assms by (simp add: evolves_def td_wf_alarms cache_wf_clearNoBlocks settings_def clearNoBlocks_dashboard)
qed

section \<open>Every stage is total and evolves the process\<close>

text \<open>
  The contract of a stage: run on a well-formed process that has the chain, it returns and
  evolves the process. Stages compose.
\<close>

definition stage_ok ::
  "string \<Rightarrow> (watchLocals \<Rightarrow> Config \<Rightarrow> (watchLocals \<times> Config) option) \<Rightarrow> bool" where
  "stage_ok k f \<longleftrightarrow> (\<forall>st td. td_wf td \<and> chainAt td k \<noteq> None \<longrightarrow>
     (\<exists>st' td'. f st td = Some (st', td') \<and> evolves k td td'))"

lemma evolves_present: "evolves k td td' \<Longrightarrow> chainAt td k \<noteq> None \<Longrightarrow> chainAt td' k \<noteq> None"
  by (auto simp: evolves_def)

lemma stage_okE:
  assumes "stage_ok k f" "td_wf td" "chainAt td k \<noteq> None"
  obtains st' td' where "f st td = Some (st', td')" "evolves k td td'" "td_wf td'"
    "chainAt td' k \<noteq> None"
  using assms unfolding stage_ok_def by (metis evolves_present evolves_wf)

lemma stage_ok_alert:
  assumes "\<And>st td cc. chainAt td k = Some cc \<Longrightarrow> name cc = k \<Longrightarrow>
    (\<exists>st'. f st td = Some (st', td)) \<or>
    (\<exists>st' msg sev res uid. f st td = do { td1 \<leftarrow> alert now k msg sev res uid td; Some (st', td1) })"
  shows "stage_ok k f"
  unfolding stage_ok_def
proof (intro allI impI, elim conjE)
  fix st :: watchLocals and td :: Config
  assume wf: "td_wf td" and "chainAt td k \<noteq> None"
  then obtain cc where cc: "chainAt td k = Some cc" "name cc = k" by (auto dest: td_wf_name)
  from assms [OF cc, of st] show "\<exists>st' td'. f st td = Some (st', td') \<and> evolves k td td'"
  proof (elim disjE exE)
    fix st' msg sev res uid
    assume f: "f st td = do { td1 \<leftarrow> alert now k msg sev res uid td; Some (st', td1) }"
    obtain c' where "alert now k msg sev res uid td = Some c'" "evolves k td c'"
      using evolves_alert [OF wf cc(1)] by blast
    with f show ?thesis by simp
  qed (use wf in auto)
qed

lemma noNodesStage_ok: "stage_ok k (noNodesStage now vi k)"
  by (rule stage_ok_alert [where now = now], simp add: noNodesStage_def split: prod.splits list.splits, blast)

lemma jailedStage_ok: "stage_ok k (jailedStage now vi last_vi k)"
  by (rule stage_ok_alert [where now = now], simp add: jailedStage_def split: prod.splits list.splits, blast)

lemma watchWaitRound_ok: "stage_ok k (watchWaitRound now valcons k)"
  by (rule stage_ok_alert [where now = now], simp add: watchWaitRound_def split: prod.splits, blast)

text \<open>An alert followed by the refresh of the chain's alert count.\<close>

lemma alert_refresh:
  assumes "td_wf td" "chainAt td k \<noteq> None"
  shows "\<exists>td1 td2. alert now k msg sev res uid td = Some td1 \<and> refreshActiveAlerts k td1 = Some td2 \<and>
    evolves k td td2"
proof -
  from assms obtain cc where cc: "chainAt td k = Some cc" by auto
  obtain td1 where 1: "alert now k msg sev res uid td = Some td1" "evolves k td td1" "chainAt td1 k = Some cc"
    using evolves_alert [OF assms(1) cc] by blast
  then obtain td2 where "refreshActiveAlerts k td1 = Some td2" "evolves k td1 td2"
    using evolves_refresh [of td1 k] by auto
  with 1 show ?thesis by (blast intro: evolves_trans)
qed

lemma consecutiveStage_ok: "stage_ok k (consecutiveStage now vi k)"
  unfolding stage_ok_def
proof (intro allI impI, elim conjE)
  fix st :: watchLocals and td :: Config
  assume wf: "td_wf td" and ch: "chainAt td k \<noteq> None"
  then obtain cc where cc: "chainAt td k = Some cc" "name cc = k" by (auto dest: td_wf_name)
  obtain ev st1 where ev: "consecutiveSwitch cc st = (ev, st1)" by force
  show "\<exists>st' td'. consecutiveStage now vi k st td = Some (st', td') \<and> evolves k td td'"
  proof (cases ev)
    case Nil
    with wf cc ev show ?thesis by (auto simp: consecutiveStage_def)
  next
    case (Cons e es)
    obtain td1 td2 where "alert now k (consecutiveMessage vi cc)
        (if e = Clear then ''info'' else ConsecutivePriority (Alerts cc)) (e = Clear)
        (Some (Valcons vi @ ''consecutive'')) td = Some td1"
      "refreshActiveAlerts k td1 = Some td2" "evolves k td td2"
      using alert_refresh [OF wf ch] by blast
    with Cons cc ev show ?thesis by (auto simp: consecutiveStage_def)
  qed
qed

lemma fixedParts_updateNodeAt [simp]: "fixedParts (updateNodeAt i f cc) = fixedParts cc"
proof -
  have "map (\<lambda>n. (Url n, AlertIfDown n)) ((Nodes cc)[i := snd (updateNodeState f (Nodes cc ! i))]) =
      map (\<lambda>n. (Url n, AlertIfDown n)) (Nodes cc)"
    by (cases "i < length (Nodes cc)")
      (simp_all add: map_update updateNodeState_def Let_def list_update_same_conv list_update_beyond)
  then show ?thesis by (simp add: fixedParts_def updateNodeAt_def)
qed

lemma nodeStage_ok: "stage_ok k (nodeStage now i k)"
  unfolding stage_ok_def
proof (intro allI impI, elim conjE)
  fix st :: watchLocals and td :: Config
  assume wf: "td_wf td" and ch: "chainAt td k \<noteq> None"
  then obtain cc where cc: "chainAt td k = Some cc" "name cc = k" by (auto dest: td_wf_name)
  define node where "node = Nodes cc ! i"
  obtain ev on where ev: "nodeSwitch (now, td, node) (m_get False (nodeAlarms st) (Url node)) = (ev, on)"
    by force
  define nd where "nd = putChain k (updateNodeAt i (\<lambda>s. s\<lparr>ns_wasDown := False\<rparr>) cc) td"
  have nd: "evolves k td nd"
    unfolding nd_def using wf cc(1) by (rule evolves_putChain) simp
  note ndwf = evolves_wf [OF nd] evolves_present [OF nd ch]
  show "\<exists>st' td'. nodeStage now i k st td = Some (st', td') \<and> evolves k td td'"
  proof (cases ev)
    case Nil
    with wf cc ev show ?thesis by (auto simp: nodeStage_def Let_def node_def)
  next
    case (Cons e es)
    show ?thesis
    proof (cases e)
      case Raise
      obtain td1 where 1: "refreshActiveAlerts k td = Some td1" "evolves k td td1"
        using evolves_refresh [OF wf ch] by blast
      then obtain cc1 where "chainAt td1 k = Some cc1" using evolves_chain [OF 1(2) cc(1)] by blast
      then obtain td2 where "alert now k (nodeDownMessage td node cc) (NodeDownSeverity td) False
          (Some (Url node)) td1 = Some td2" "evolves k td1 td2"
        using evolves_alert [OF evolves_wf [OF 1(2)]] by blast
      with 1 Cons Raise cc ev show ?thesis
        by (auto simp: nodeStage_def Let_def node_def intro: evolves_trans)
    next
      case Clear
      obtain td1 td2 where "alert now k (nodeDownMessage td node cc) ''info'' True (Some (Url node)) nd = Some td1"
        "refreshActiveAlerts k td1 = Some td2" "evolves k nd td2"
        using alert_refresh [OF ndwf] by blast
      with nd Cons Clear cc ev show ?thesis
        by (auto simp: nodeStage_def Let_def node_def nd_def intro: evolves_trans)
    qed
  qed
qed

lemma nodesLoop_ok: "stage_ok k (nodesLoop clock is k)"
proof (induction "is")
  case Nil
  then show ?case by (auto simp: stage_ok_def)
next
  case (Cons i "is")
  show ?case
    unfolding stage_ok_def
  proof (intro allI impI, elim conjE)
    fix st :: watchLocals and td :: Config
    assume wf: "td_wf td" and ch: "chainAt td k \<noteq> None"
    from stage_okE [OF nodeStage_ok wf ch, of "clock i" i st] obtain st1 td1 where
      1: "nodeStage (clock i) i k st td = Some (st1, td1)" "evolves k td td1" "td_wf td1" "chainAt td1 k \<noteq> None"
      by blast
    from stage_okE [OF Cons.IH 1(3,4), of st1] obtain st2 td2 where
      "nodesLoop clock is k st1 td1 = Some (st2, td2)" "evolves k td1 td2" by blast
    with 1 show "\<exists>st' td'. nodesLoop clock (i # is) k st td = Some (st', td') \<and> evolves k td td'"
      by (auto intro: evolves_trans)
  qed
qed

lemma checkStalledAlert_ok:
  assumes wf: "td_wf td" and ch: "chainAt td k \<noteq> None"
  shows "\<exists>td'. checkStalledAlert now k td = Some td' \<and> evolves k td td'"
proof -
  from wf ch obtain cc where cc: "chainAt td k = Some cc" "name cc = k" by (auto dest: td_wf_name)
  define cc' where "cc' = snd (stalledSwitch now cc)"
  define td0 where "td0 = putChain k cc' td"
  have fp: "fixedParts cc' = fixedParts cc"
    by (simp add: cc'_def stalledSwitch_def fixedParts_def)
  then have td0: "evolves k td td0" "chainAt td0 k = Some cc'" "name cc' = k"
    using wf cc evolves_putChain by (auto simp: td0_def fixedParts_def)
  show ?thesis
  proof (cases "fst (stalledSwitch now cc)")
    case Nil
    with td0 cc show ?thesis
      by (cases "stalledSwitch now cc") (auto simp: checkStalledAlert_def td0_def cc'_def)
  next
    case (Cons e es)
    define res where "res = (e = Clear)"
    obtain td1 where 1: "alert now k (stalledMessage cc') (if res then ''info'' else ''critical'') res
        (Some (case fst (validatorInfoSnapshot cc') of None \<Rightarrow> '''' | Some vi \<Rightarrow> Valcons vi)) td0 = Some td1"
      "evolves k td0 td1"
      using evolves_alert [OF evolves_wf [OF td0(1)] td0(2)] by blast
    have "checkStalledAlert now k td =
        Some (if res then td1\<lparr>alarms := clearNoBlocks k (alarms td1)\<rparr> else td1)"
      using Cons cc td0(3) 1(1)
      by (cases "stalledSwitch now cc") (simp add: checkStalledAlert_def td0_def cc'_def res_def Let_def)
    moreover have "evolves k td1 (if res then td1\<lparr>alarms := clearNoBlocks k (alarms td1)\<rparr> else td1)"
      using evolves_wf [OF 1(2)] by (auto intro: evolves_clearNoBlocks)
    ultimately show ?thesis using td0(1) 1(2) by (blast intro: evolves_trans)
  qed
qed

lemma checkPercentageAlert_ok:
  assumes wf: "td_wf td" and ch: "chainAt td k \<noteq> None"
  shows "\<exists>td'. checkPercentageAlert now k td = Some td' \<and> evolves k td td'"
proof -
  from wf ch obtain cc where cc: "chainAt td k = Some cc" "name cc = k" by (auto dest: td_wf_name)
  define info where "info = fst (validatorInfoSnapshot cc)"
  obtain ev cc' where sw: "percentageSwitch info cc = (ev, cc')" by force
  define td0 where "td0 = putChain k cc' td"
  have "fixedParts cc' = fixedParts cc"
    using sw by (auto simp: percentageSwitch_def fixedParts_def split: option.splits if_splits)
  then have td0: "evolves k td td0" "chainAt td0 k \<noteq> None" "name cc' = k"
    using wf cc evolves_putChain by (auto simp: td0_def fixedParts_def)
  show ?thesis
  proof (cases "\<exists>vi e es. info = Some vi \<and> ev = e # es")
    case False
    then have "checkPercentageAlert now k td = Some td0"
      using cc sw
      by (auto simp: checkPercentageAlert_def td0_def simp flip: info_def split: option.splits list.splits)
    with td0 show ?thesis by blast
  next
    case True
    then obtain vi e es where vi: "info = Some vi" "ev = e # es" by blast
    obtain td1 td2 where "alert now k (percentageMessage vi cc')
        (if e = Clear then ''info'' else PercentagePriority (Alerts cc')) (e = Clear)
        (Some (Valcons vi @ ''percent'')) td0 = Some td1"
      "refreshActiveAlerts k td1 = Some td2" "evolves k td0 td2"
      using alert_refresh [OF evolves_wf [OF td0(1)] td0(2)] by blast
    with cc sw vi td0 show ?thesis
      by (auto simp: checkPercentageAlert_def td0_def simp flip: info_def intro: evolves_trans)
  qed
qed

lemma promStage_ok:
  assumes "td_wf td" "chainAt td k \<noteq> None"
  shows "\<exists>ok td'. promStage now k td = Some (ok, td') \<and> evolves k td td'"
proof -
  from assms obtain cc where cc: "chainAt td k = Some cc" by auto
  then obtain us where us: "promStage now k td = Some (if Prom td then emitStats us td else (True, td))"
    by (simp add: promStage_def)
  obtain ok td' where e: "emitStats us td = (ok, td')" by force
  show ?thesis
  proof (cases "Prom td")
    case True
    with us e evolves_stats [OF assms(1) e] show ?thesis by auto
  next
    case False
    with us assms(1) show ?thesis by auto
  qed
qed

section \<open>The latches of the loop\<close>

interpretation no_nodes: latch "\<lambda>(td, cc). noNodesSwitch td cc" wl_noNodes
  by unfold_locales (auto simp: noNodesSwitch_def split: if_splits)

interpretation consecutive: latch consecutiveSwitch missedAlarm
  by unfold_locales (auto simp: consecutiveSwitch_def split: if_splits)

interpretation node_down: raise_guard nodeSwitch "\<lambda>alarmed. alarmed"
  by unfold_locales (auto simp: nodeSwitch_def Let_def split: if_splits)

text \<open>
  Rounds without any usable endpoint: the counter grows by two per round and the alarm is
  raised in the first round in which it exceeds its limit.
\<close>

lemma noNodes_rounds:
  assumes "AlertIfNoServers (Alerts cc)" "noNodesState cc" "\<not> wl_noNodes st"
    and "noNodesSec st + 2 * int n \<le> wrap64 (30 * NodeDownMin td)"
  shows "run_events (\<lambda>(td, cc). noNodesSwitch td cc) (replicate n (td, cc)) st = [] \<and>
    run_state (\<lambda>(td, cc). noNodesSwitch td cc) (replicate n (td, cc)) st =
      st\<lparr>noNodesSec := noNodesSec st + 2 * int n\<rparr>"
  using assms
proof (induction n arbitrary: st)
  case (Suc n)
  let ?st = "st\<lparr>noNodesSec := noNodesSec st + 2, wl_noNodes := False\<rparr>"
  have "noNodesSwitch td cc st = ([], ?st)"
    using Suc.prems by (simp add: noNodesSwitch_def)
  with Suc.IH [of ?st] Suc.prems show ?case by (simp add: algebra_simps)
qed simp

section \<open>Properties\<close>





text \<open>While no endpoint is usable the alarm is deferred for exactly \<open>15 * NodeDownMin\<close> rounds of two
  seconds and raised in the next one.\<close>

theorem no_nodes_delay:
  assumes "AlertIfNoServers (Alerts cc)" "noNodesState cc" "\<not> wl_noNodes st" "noNodesSec st = 0"
    and "0 \<le> NodeDownMin td" "30 * NodeDownMin td < 2 ^ 63"
  shows "(\<forall>n. 2 * int n \<le> 30 * NodeDownMin td \<longrightarrow>
      run_events (\<lambda>(td, cc). noNodesSwitch td cc) (replicate n (td, cc)) st = []) \<and>
    run_events (\<lambda>(td, cc). noNodesSwitch td cc) (replicate (15 * nat (NodeDownMin td)) (td, cc) @ [(td, cc)]) st = [Raise]"
proof -
  have w: "wrap64 (30 * NodeDownMin td) = 30 * NodeDownMin td"
    using assms(5,6) by (simp add: wrap64_id)
  have app: "run_events f (xs @ [y]) s = run_events f xs s @ fst (f y (run_state f xs s))"
    for f :: "Config \<times> ChainConfig \<Rightarrow> watchLocals \<Rightarrow> _" and xs y s
    by (induction xs arbitrary: s) (auto simp: split_def)
  define n where "n = 15 * nat (NodeDownMin td)"
  have "2 * int n = 30 * NodeDownMin td" using assms(5) by (simp add: n_def)
  with noNodes_rounds [OF assms(1-3), of n td] w assms show ?thesis
    using noNodes_rounds [OF assms(1-3), of _ td]
    by (simp add: app noNodesSwitch_def flip: n_def)
qed

theorem no_nodes_delay_witness:
  "run_events (\<lambda>(td, cc). noNodesSwitch td cc)
     (replicate 45 (sample_td, setNoNodes True sample_chain) @ [(sample_td, setNoNodes True sample_chain)]) watchStart = [Raise]"
  using no_nodes_delay [of "setNoNodes True sample_chain" watchStart sample_td]
  by (simp add: setNoNodes_def noNodesState_def sample_chain_def sample_alerts_def watchStart_def sample_td_def)

end
