(* ===== verification/Snapshot.thy ===== *)
theory Snapshot
  imports StateFile Rpc Watch
begin

text \<open>
  What goes into the state file and comes out of it again: \<open>snapshotSavedState\<close>,
  \<open>restoreSavedState\<close> (\<open>src/seer/state.go\<close>) and \<open>clearStale\<close> (\<open>types.go\<close>).

  \<open>clock (what, ch) msg\<close> is the reading of the clock when the entry \<open>msg\<close> of the map \<open>what\<close> (of
  the chain \<open>ch\<close>, for the dashboard's alarms) is tested for its age. \<open>bindDurableState\<close> only
  hands out the mutex here, since the model's alarm cache is never nil.

  The theorems say what a restart preserves: block history, alarms younger than a day, and
  the nodes that were down.
\<close>

section \<open>Stale alarms\<close>

definition staleHours :: float64 where "staleHours = 24"

definition clearStale :: "(string \<Rightarrow> time) \<Rightarrow> float64 \<Rightarrow> times \<Rightarrow> times" where
  "clearStale clock hours alms =
     m_delete_if (\<lambda>k. hours \<le> Hours (Since (clock k) (m_get 0 alms k))) alms"

section \<open>Restoring\<close>

text \<open>Applying a function to every value of a map.\<close>

fun m_map :: "('k \<Rightarrow> 'v \<Rightarrow> 'v) \<Rightarrow> ('k, 'v) gmap \<Rightarrow> ('k, 'v) gmap" where
  "m_map f NilMap = NilMap"
| "m_map f (Map al) = Map (map (\<lambda>(k, v). (k, f k v)) al)"

type_synonym restore_clock = "string \<times> string \<Rightarrow> string \<Rightarrow> time"

definition restoreSent :: "restore_clock \<Rightarrow> notifyDest \<Rightarrow> string \<Rightarrow> alarmCache \<Rightarrow> alarmCache \<Rightarrow> alarmCache" where
  "restoreSent clock dest what sa cache =
     (if sentMap dest sa \<noteq> NilMap
      then putSentMap dest (clearStale (clock (what, '''')) staleHours (sentMap dest sa)) cache
      else cache)"

definition restoreAlarms :: "restore_clock \<Rightarrow> alarmCache \<Rightarrow> alarmCache \<Rightarrow> alarmCache" where
  "restoreAlarms clock sa cache =
     (let c1 = restoreSent clock Tg ''telegram'' sa cache;
          c2 = restoreSent clock Pd ''PagerDuty'' sa c1;
          c3 = restoreSent clock Di ''Discord'' sa c2;
          c4 = restoreSent clock Slk ''Slack'' sa c3
      in if AllAlarms sa \<noteq> NilMap
         then c4\<lparr>AllAlarms := m_map (\<lambda>ch m. clearStale (clock (''dashboard'', ch)) staleHours m) (AllAlarms sa)\<rparr>
         else c4)"

definition restoreBlocks :: "(string, int list) gmap \<Rightarrow> Config \<Rightarrow> Config" where
  "restoreBlocks bs td =
     fold (\<lambda>(chainName, blks) t.
             case chainAt t chainName of
               None \<Rightarrow> t
             | Some cc \<Rightarrow> putChain chainName (cc\<lparr>blocksResults := blks\<rparr>) t)
       (m_entries bs) td"

definition restoreNode :: "string \<times> time \<Rightarrow> NodeConfig \<Rightarrow> NodeConfig" where
  "restoreNode = (\<lambda>(nodeURL, since) node.
     if Url node = nodeURL then node\<lparr>down := True, wasDown := True, downSince := since\<rparr> else node)"

definition restoreChainNodes :: "times \<Rightarrow> ChainConfig \<Rightarrow> ChainConfig" where
  "restoreChainNodes nodes cc =
     fold (\<lambda>(nodeURL, since) c.
             if IsZero since then c else c\<lparr>Nodes := map (restoreNode (nodeURL, since)) (Nodes c)\<rparr>)
       (m_entries nodes) cc"

definition restoreNodesDown :: "(string, times) gmap \<Rightarrow> Config \<Rightarrow> Config" where
  "restoreNodesDown nd td =
     fold (\<lambda>(chainName, nodes) t.
             case chainAt t chainName of
               None \<Rightarrow> t
             | Some cc \<Rightarrow> putChain chainName (restoreChainNodes nodes cc) t)
       (m_entries nd) td"

definition flagNoNodes :: "ChainConfig \<Rightarrow> ChainConfig" where
  "flagNoNodes cc =
     (let downCount = fold (\<lambda>node n. if down node then n + 1 else n) (Nodes cc) 0
      in if downCount = length (Nodes cc) then cc\<lparr>noNodes := True\<rparr> else cc)"

definition restoreSavedState :: "restore_clock \<Rightarrow> savedState option \<Rightarrow> Config \<Rightarrow> Config" where
  "restoreSavedState clock sv td =
     (case sv of
        None \<Rightarrow> td
      | Some saved \<Rightarrow>
          let td1 = restoreBlocks (Blocks saved) td;
              td2 = (case Alarms saved of None \<Rightarrow> td1 | Some sa \<Rightarrow> td1\<lparr>alarms := restoreAlarms clock sa (alarms td1)\<rparr>)
          in if NodesDown saved = NilMap then td2
             else let td3 = restoreNodesDown (NodesDown saved) td2
                  in td3\<lparr>Chains := m_map (\<lambda>_. flagNoNodes) (Chains td3)\<rparr>)"

section \<open>Taking a snapshot\<close>

definition snapshotNode :: "string \<Rightarrow> NodeConfig \<Rightarrow> (string, times) gmap \<Rightarrow> (string, times) gmap" where
  "snapshotNode chainName node nd =
     (if \<not> down node then nd
      else let nd1 = (if m_get NilMap nd chainName = NilMap then m_ins chainName mkmap nd else nd)
           in m_ins chainName (m_ins (Url node) (downSince node) (m_get NilMap nd1 chainName)) nd1)"

definition snapshotSavedState :: "Config \<Rightarrow> savedState" where
  "snapshotSavedState td =
     (let (bs, nd) = fold (\<lambda>(chainName, cc) (bs, nd).
                        (m_ins chainName (blocksResults cc) bs, fold (snapshotNode chainName) (Nodes cc) nd))
                      (m_entries (Chains td)) (mkmap, mkmap)
      in \<lparr>Alarms = Some (cloneAlarmState (Some (alarms td))), Blocks = bs, NodesDown = nd\<rparr>)"

section \<open>Lemmas on maps\<close>

lemma m_lookup_map [gmap_simps]: "m_lookup (m_map f m) k = map_option (f k) (m_lookup m k)"
proof (cases m)
  case (Map al)
  have "map_of (map (\<lambda>(k, v). (k, f k v)) al) k = map_option (f k) (map_of al k)" by (induction al) auto
  with Map show ?thesis by (simp add: m_lookup_def)
qed simp

lemma m_keys_map [simp]: "m_keys (m_map f m) = m_keys m"
  by (cases m) (auto simp: m_keys_def)

lemma m_map_Nil [simp]: "m_map f m = NilMap \<longleftrightarrow> m = NilMap"
  by (cases m) simp_all

lemma m_wf_map [simp]: "m_wf (m_map f m) = m_wf m"
  by (simp add: m_wf_def)

text \<open>A loop over the entries of a map, whose body acts on the object of its key only.\<close>

lemma fold_chain_updates:
  fixes f :: "'v \<Rightarrow> ChainConfig \<Rightarrow> ChainConfig" and td :: Config
  assumes "distinct (map fst al)"
  shows "chainAt (fold (\<lambda>(k, v) t. case chainAt t k of None \<Rightarrow> t | Some cc \<Rightarrow> putChain k (f v cc) t) al td) j =
    (case map_of al j of None \<Rightarrow> chainAt td j | Some v \<Rightarrow> map_option (f v) (chainAt td j))"
  using assms
proof (induction al arbitrary: td)
  case (Cons e al)
  obtain k v where e: "e = (k, v)" by force
  define td1 where "td1 = (case chainAt td k of None \<Rightarrow> td | Some cc \<Rightarrow> putChain k (f v cc) td)"
  have td1: "chainAt td1 j = (if j = k then map_option (f v) (chainAt td k) else chainAt td j)"
    by (auto simp: td1_def split: option.splits)
  have "map_of al k = None" using Cons.prems e by (simp add: map_of_eq_None_iff)
  with Cons.IH [of td1] Cons.prems td1 show ?case by (auto simp: e td1_def [symmetric] split: option.splits)
qed simp

lemma fold_chain_frame:
  fixes f :: "'v \<Rightarrow> ChainConfig \<Rightarrow> ChainConfig" and td :: Config
  shows "alarms (fold (\<lambda>(k, v) t. case chainAt t k of None \<Rightarrow> t | Some cc \<Rightarrow> putChain k (f v cc) t) al td) = alarms td"
proof (induction al arbitrary: td)
  case (Cons e al)
  then show ?case by (cases e) (auto split: option.splits)
qed simp

lemma fold_ins_lookup:
  "distinct (map fst al) \<Longrightarrow>
     m_lookup (fold (\<lambda>(k, v) m. m_ins k (g k v) m) al m0) j =
       (case map_of al j of None \<Rightarrow> m_lookup m0 j | Some v \<Rightarrow> Some (g j v))"
proof (induction al arbitrary: m0)
  case (Cons e al)
  obtain k v where e: "e = (k, v)" by force
  have "map_of al k = None" using Cons.prems e by (simp add: map_of_eq_None_iff)
  with Cons show ?case by (auto simp: e gmap_simps split: option.splits)
qed simp

lemma fold_ins_wf: "m_wf m0 \<Longrightarrow> m_wf (fold (\<lambda>(k, v) m. m_ins k (g k v) m) al m0)"
  by (induction al arbitrary: m0) (auto simp: split_def)

lemma fold_ins_made: "m0 \<noteq> NilMap \<Longrightarrow> fold (\<lambda>(k, v) m. m_ins k (g k v) m) al m0 \<noteq> NilMap"
  by (induction al arbitrary: m0) (auto simp: split_def)

section \<open>Lemmas on alarms\<close>

lemma stale_iff: "staleHours \<le> Hours (Since now t) \<longleftrightarrow> 24 * Hour \<le> now - t"
proof -
  have "staleHours \<le> Hours (Since now t) \<longleftrightarrow> 24 * Hour \<le> sat64 (now - t)"
    using Hours_ge_24 [of "sat64 (now - t)"] sat64_bounds [of "now - t"]
    by (simp add: staleHours_def Since_def Sub_def)
  also have "\<dots> \<longleftrightarrow> 24 * Hour \<le> now - t" by (rule sat64_ge_iff) (simp_all add: time_simps)
  finally show ?thesis .
qed

lemma clearStale_lookup:
  "m_lookup (clearStale clock staleHours m) k =
     (case m_lookup m k of None \<Rightarrow> None | Some t \<Rightarrow> if 24 * Hour \<le> clock k - t then None else Some t)"
  by (simp add: clearStale_def stale_iff gmap_simps m_get_def split: option.splits)

lemma clearStale_Nil [simp]: "clearStale clock h m = NilMap \<longleftrightarrow> m = NilMap"
  by (simp add: clearStale_def)

lemma clearStale_wf: "m_wf m \<Longrightarrow> m_wf (clearStale clock h m)"
  by (simp add: clearStale_def)

lemma clone_times_lookup: "m_wf m \<Longrightarrow> m_lookup (cloneAlarmTimes m) = m_lookup m"
  using fold_ins_lookup [of "m_entries m" "\<lambda>k v. v" mkmap]
  by (auto simp: cloneAlarmTimes_def m_wf_def m_keys_def m_lookup_def fun_eq_iff split: option.splits)

lemma clone_times_made: "cloneAlarmTimes m \<noteq> NilMap"
  unfolding cloneAlarmTimes_def by (rule fold_ins_made) simp

lemma clone_times_wf: "m_wf (cloneAlarmTimes m)"
  unfolding cloneAlarmTimes_def by (rule fold_ins_wf) simp

lemma clone_sent: "sentMap d (cloneAlarmState (Some a)) = cloneAlarmTimes (sentMap d a)"
  by (cases d) (simp_all add: cloneAlarmState_def sentMap.simps)

lemma clone_dashboard:
  assumes "nested_wf (AllAlarms a)"
  shows "m_lookup (AllAlarms (cloneAlarmState (Some a))) ch = map_option cloneAlarmTimes (m_lookup (AllAlarms a) ch)"
    "m_wf (AllAlarms (cloneAlarmState (Some a)))" "AllAlarms (cloneAlarmState (Some a)) \<noteq> NilMap"
proof -
  have d: "distinct (map fst (m_entries (AllAlarms a)))" using assms by (simp add: nested_wf_def m_wf_def m_keys_def)
  have eq: "AllAlarms (cloneAlarmState (Some a)) = fold (\<lambda>(ch, m) all. m_ins ch (cloneAlarmTimes m) all) (m_entries (AllAlarms a)) mkmap"
    by (simp add: cloneAlarmState_def)
  show "m_lookup (AllAlarms (cloneAlarmState (Some a))) ch = map_option cloneAlarmTimes (m_lookup (AllAlarms a) ch)"
    unfolding eq fold_ins_lookup [OF d, of "\<lambda>_. cloneAlarmTimes"] by (simp add: m_lookup_def split: option.splits)
  show "m_wf (AllAlarms (cloneAlarmState (Some a)))" unfolding eq by (rule fold_ins_wf) simp
  show "AllAlarms (cloneAlarmState (Some a)) \<noteq> NilMap" unfolding eq by (rule fold_ins_made) simp
qed

fun destWhat :: "notifyDest \<Rightarrow> string" where
  "destWhat Tg = ''telegram''"
| "destWhat Pd = ''PagerDuty''"
| "destWhat Di = ''Discord''"
| "destWhat Slk = ''Slack''"

lemma restoreSent_sent:
  "sentMap d (restoreSent clock dest what sa cache) =
     (if d = dest \<and> sentMap d sa \<noteq> NilMap then clearStale (clock (what, '''')) staleHours (sentMap d sa) else sentMap d cache)"
  by (auto simp: restoreSent_def)

lemma restoreSent_frame [simp]:
  "AllAlarms (restoreSent clock dest what sa cache) = AllAlarms cache"
  "flappingAlarms (restoreSent clock dest what sa cache) = flappingAlarms cache"
  "inFlight (restoreSent clock dest what sa cache) = inFlight cache"
  by (simp_all add: restoreSent_def)

lemma restoreAlarms_sent:
  "sentMap d (restoreAlarms clock sa cache) =
     (if sentMap d sa \<noteq> NilMap then clearStale (clock (destWhat d, '''')) staleHours (sentMap d sa) else sentMap d cache)"
  by (cases d) (simp_all add: restoreAlarms_def Let_def restoreSent_sent)

lemma restoreAlarms_frame:
  "AllAlarms (restoreAlarms clock sa cache) =
     (if AllAlarms sa \<noteq> NilMap then m_map (\<lambda>ch m. clearStale (clock (''dashboard'', ch)) staleHours m) (AllAlarms sa)
      else AllAlarms cache)"
  "flappingAlarms (restoreAlarms clock sa cache) = flappingAlarms cache"
  "inFlight (restoreAlarms clock sa cache) = inFlight cache"
  by (simp_all add: restoreAlarms_def Let_def)

text \<open>The age test on a time that may be missing.\<close>

definition unlessStale :: "time \<Rightarrow> time \<Rightarrow> time" where
  "unlessStale now t = (if 24 * Hour \<le> now - t then 0 else t)"

lemma restored_sent_at:
  assumes "cache_wf a" "same_alarms (cloneAlarmState (Some a)) sa"
  shows "sent_at (restoreAlarms clock sa cache) d m = unlessStale (clock (destWhat d, '''') m) (sent_at a d m)"
proof -
  have wf: "m_wf (sentMap d a)" using assms(1) by (simp add: cache_wf_def)
  have "same_map (cloneAlarmTimes (sentMap d a)) (sentMap d sa)"
    using assms(2) by (simp add: same_alarms_def clone_sent)
  then have "sentMap d sa \<noteq> NilMap" "m_lookup (sentMap d sa) = m_lookup (sentMap d a)"
    using clone_times_made [of "sentMap d a"] clone_times_lookup [OF wf] by (auto simp: same_map_def)
  then show ?thesis
    by (simp add: sent_at_def restoreAlarms_sent m_get_def clearStale_lookup unlessStale_def split: option.splits)
qed

lemma restored_dashboard:
  assumes "cache_wf a" "same_alarms (cloneAlarmState (Some a)) sa"
  shows "on_dashboard (restoreAlarms clock sa cache) ch m =
    (case on_dashboard a ch m of None \<Rightarrow> None | Some t \<Rightarrow> if 24 * Hour \<le> clock (''dashboard'', ch) m - t then None else Some t)"
proof -
  have wf: "nested_wf (AllAlarms a)" using assms(1) by (simp add: cache_wf_def)
  note cl = clone_dashboard [OF wf]
  have same: "same_nested (AllAlarms (cloneAlarmState (Some a))) (AllAlarms sa)" using assms(2) by (simp add: same_alarms_def)
  then have nn: "AllAlarms sa \<noteq> NilMap" using cl(3) by (simp add: same_nested_def)
  have "same_map (m_get NilMap (AllAlarms (cloneAlarmState (Some a))) ch) (m_get NilMap (AllAlarms sa) ch)"
    using same by (simp add: same_nested_def)
  moreover have "m_lookup (m_get NilMap (AllAlarms (cloneAlarmState (Some a))) ch) = m_lookup (m_get NilMap (AllAlarms a) ch)"
    using wf by (auto simp: m_get_def cl(1) clone_times_lookup nested_wf_def split: option.splits)
  ultimately have eq: "m_lookup (m_get NilMap (AllAlarms sa) ch) m = on_dashboard a ch m"
    by (simp add: same_map_def on_dashboard_def)
  have "m_get NilMap (m_map (\<lambda>ch m. clearStale (clock (''dashboard'', ch)) staleHours m) (AllAlarms sa)) ch =
      clearStale (clock (''dashboard'', ch)) staleHours (m_get NilMap (AllAlarms sa) ch)"
    by (simp add: m_get_def gmap_simps clearStale_def split: option.splits)
  then show ?thesis using nn eq by (simp add: on_dashboard_def [of "restoreAlarms _ _ _"] restoreAlarms_frame clearStale_lookup)
qed

section \<open>Lemmas on nodes\<close>

text \<open>The time recorded for a URL: that of the last node with this URL that is down.\<close>

definition lastDown :: "NodeConfig list \<Rightarrow> string \<Rightarrow> time option" where
  "lastDown ns u = map_option downSince (find (\<lambda>n. down n \<and> Url n = u) (rev ns))"

lemma snapshotNode_get:
  "m_get NilMap (snapshotNode k n nd) j =
     (if j = k \<and> down n then m_ins (Url n) (downSince n) (if m_get NilMap nd k = NilMap then mkmap else m_get NilMap nd k)
      else m_get NilMap nd j)"
  by (auto simp: snapshotNode_def Let_def gmap_simps)

lemma snapshotNode_wf: "nested_wf nd \<Longrightarrow> nested_wf (snapshotNode k n nd)"
  by (auto simp: snapshotNode_def Let_def)

lemma snapshotNodes_get:
  "m_lookup (m_get NilMap (fold (snapshotNode k) ns nd) j) u =
     (if j = k \<and> lastDown ns u \<noteq> None then lastDown ns u else m_lookup (m_get NilMap nd j) u)"
proof (induction ns rule: rev_induct)
  case (snoc n ns)
  then show ?case by (auto simp: snapshotNode_get lastDown_def gmap_simps)
qed (simp add: lastDown_def)

lemma snapshotNodes_wf: "nested_wf nd \<Longrightarrow> nested_wf (fold (snapshotNode k) ns nd)"
  by (induction ns arbitrary: nd) (simp_all add: snapshotNode_wf)

lemma lastDown_distinct:
  assumes "distinct (map Url ns)" "n \<in> set ns"
  shows "lastDown ns (Url n) = (if down n then Some (downSince n) else None)"
proof -
  have "find (\<lambda>x. down x \<and> Url x = Url n) (rev ns) = (if down n then Some n else None)"
    using assms by (induction ns rule: rev_induct) (auto simp: find_None_iff intro: rev_image_eqI)
  then show ?thesis by (simp add: lastDown_def)
qed


text \<open>What a restore makes of one node, given the recorded times of its chain.\<close>

definition restoredNode :: "times \<Rightarrow> NodeConfig \<Rightarrow> NodeConfig" where
  "restoredNode nodes n =
     (case m_lookup nodes (Url n) of
        None \<Rightarrow> n
      | Some t \<Rightarrow> if IsZero t then n else n\<lparr>down := True, wasDown := True, downSince := t\<rparr>)"

lemma restoreNode_Url [simp]: "Url (restoreNode e n) = Url n"
  by (cases e) (simp add: restoreNode_def)

lemma fold_restore_nodes:
  assumes "distinct (map fst al)"
  shows "fold (\<lambda>(nodeURL, since) c. if IsZero since then c else c\<lparr>Nodes := map (restoreNode (nodeURL, since)) (Nodes c)\<rparr>) al cc =
    cc\<lparr>Nodes := map (\<lambda>n. case map_of al (Url n) of None \<Rightarrow> n
       | Some t \<Rightarrow> if IsZero t then n else n\<lparr>down := True, wasDown := True, downSince := t\<rparr>) (Nodes cc)\<rparr>"
  using assms
proof (induction al arbitrary: cc)
  case (Cons e al)
  obtain u t where e: "e = (u, t)" by force
  have "map_of al u = None" using Cons.prems e by (simp add: map_of_eq_None_iff)
  then have "map_of al (Url n) = None" if "Url n = u" for n :: NodeConfig using that by simp
  with Cons show ?case by (auto simp: e restoreNode_def)
qed (simp add: map_idI)

lemma restoreChainNodes_eq:
  "m_wf nodes \<Longrightarrow> restoreChainNodes nodes cc = cc\<lparr>Nodes := map (restoredNode nodes) (Nodes cc)\<rparr>"
  unfolding restoreChainNodes_def m_wf_def m_keys_def
  by (simp add: fold_restore_nodes restoredNode_def m_lookup_def)

lemma fold_count: "fold (\<lambda>node n. if P node then n + 1 else n) ns (c :: nat) = c + length (filter P ns)"
  by (induction ns arbitrary: c) auto

lemma flagNoNodes_eq: "flagNoNodes cc = cc\<lparr>noNodes := noNodes cc \<or> (\<forall>n\<in>set (Nodes cc). down n)\<rparr>"
proof -
  define b where "b \<longleftrightarrow> (\<forall>n\<in>set (Nodes cc). down n)"
  have "length (filter down (Nodes cc)) = length (Nodes cc) \<longleftrightarrow> b"
    unfolding b_def by (metis filter_True length_filter_less less_irrefl)
  then show ?thesis unfolding b_def [symmetric] by (cases b) (simp_all add: flagNoNodes_def Let_def fold_count)
qed

section \<open>Lemmas on the whole state\<close>

definition snapshotStep :: "string \<times> ChainConfig \<Rightarrow> (string, int list) gmap \<times> (string, times) gmap \<Rightarrow>
    (string, int list) gmap \<times> (string, times) gmap" where
  "snapshotStep = (\<lambda>(chainName, cc) (bs, nd). (m_ins chainName (blocksResults cc) bs, fold (snapshotNode chainName) (Nodes cc) nd))"

lemma snapshotStep_simp: "snapshotStep (k, cc) p = (m_ins k (blocksResults cc) (fst p), fold (snapshotNode k) (Nodes cc) (snd p))"
  by (simp add: snapshotStep_def split_def)

lemma snapshot_fold:
  assumes "distinct (map fst al)" "m_wf (fst p)" "nested_wf (snd p)" "fst p \<noteq> NilMap" "snd p \<noteq> NilMap"
  shows "(\<forall>k. m_lookup (fst (fold snapshotStep al p)) k =
        (case map_of al k of None \<Rightarrow> m_lookup (fst p) k | Some cc \<Rightarrow> Some (blocksResults cc))) \<and>
    (\<forall>k u. m_lookup (m_get NilMap (snd (fold snapshotStep al p)) k) u =
        (case map_of al k of None \<Rightarrow> m_lookup (m_get NilMap (snd p) k) u
         | Some cc \<Rightarrow> if lastDown (Nodes cc) u \<noteq> None then lastDown (Nodes cc) u else m_lookup (m_get NilMap (snd p) k) u)) \<and>
    m_wf (fst (fold snapshotStep al p)) \<and> nested_wf (snd (fold snapshotStep al p)) \<and>
    fst (fold snapshotStep al p) \<noteq> NilMap \<and> snd (fold snapshotStep al p) \<noteq> NilMap"
  using assms
proof (induction al arbitrary: p)
  case (Cons e al)
  obtain j cc where e: "e = (j, cc)" by force
  define q where "q = snapshotStep e p"
  have made: "fold (snapshotNode j) ns nd \<noteq> NilMap" if "nd \<noteq> NilMap" for ns nd
    using that by (induction ns arbitrary: nd) (auto simp: snapshotNode_def Let_def)
  have q: "m_wf (fst q)" "nested_wf (snd q)" "fst q \<noteq> NilMap" "snd q \<noteq> NilMap"
    using Cons.prems made by (simp_all add: q_def e snapshotStep_simp snapshotNodes_wf)
  have al: "distinct (map fst al)" "map_of al j = None" using Cons.prems(1) e by (simp_all add: map_of_eq_None_iff)
  have run: "fold snapshotStep (e # al) p = fold snapshotStep al q" by (simp add: q_def)
  have q1: "m_lookup (fst q) k = (if k = j then Some (blocksResults cc) else m_lookup (fst p) k)" for k
    by (simp add: q_def e snapshotStep_simp gmap_simps)
  have q2: "m_lookup (m_get NilMap (snd q) k) u =
      (if k = j \<and> lastDown (Nodes cc) u \<noteq> None then lastDown (Nodes cc) u else m_lookup (m_get NilMap (snd p) k) u)" for k u
    by (simp add: q_def e snapshotStep_simp snapshotNodes_get)
  show ?case unfolding run using Cons.IH [OF al(1) q] al(2) q1 q2 by (simp add: e split: option.splits)
qed simp

lemma snapshot_parts:
  assumes "td_wf td"
  defines "s \<equiv> snapshotSavedState td"
  shows "m_lookup (Blocks s) k = map_option blocksResults (chainAt td k)"
    and "m_lookup (m_get NilMap (NodesDown s) k) u = (case chainAt td k of None \<Rightarrow> None | Some cc \<Rightarrow> lastDown (Nodes cc) u)"
    and "m_wf (Blocks s)" "nested_wf (NodesDown s)" "NodesDown s \<noteq> NilMap" "Blocks s \<noteq> NilMap"
    and "Alarms s = Some (cloneAlarmState (Some (alarms td)))"
proof -
  have d: "distinct (map fst (m_entries (Chains td)))" using assms(1) by (simp add: td_wf_def m_wf_def m_keys_def)
  have eq: "s = \<lparr>Alarms = Some (cloneAlarmState (Some (alarms td))),
      Blocks = fst (fold snapshotStep (m_entries (Chains td)) (mkmap, mkmap)),
      NodesDown = snd (fold snapshotStep (m_entries (Chains td)) (mkmap, mkmap))\<rparr>"
    by (simp add: s_def snapshotSavedState_def snapshotStep_def split_def Let_def)
  note f = snapshot_fold [OF d, of "(mkmap, mkmap)"]
  show "m_lookup (Blocks s) k = map_option blocksResults (chainAt td k)"
    using f by (simp add: eq m_lookup_def [of "Chains td"] split: option.splits)
  show "m_lookup (m_get NilMap (NodesDown s) k) u = (case chainAt td k of None \<Rightarrow> None | Some cc \<Rightarrow> lastDown (Nodes cc) u)"
    using f by (auto simp: eq m_lookup_def [of "Chains td"] split: option.splits)
  show "m_wf (Blocks s)" "nested_wf (NodesDown s)" "NodesDown s \<noteq> NilMap" "Blocks s \<noteq> NilMap"
    "Alarms s = Some (cloneAlarmState (Some (alarms td)))"
    using f by (simp_all add: eq)
qed

lemma restoreBlocks_chain:
  assumes "m_wf bs"
  shows "chainAt (restoreBlocks bs td) k =
    (case m_lookup bs k of None \<Rightarrow> chainAt td k | Some b \<Rightarrow> map_option (\<lambda>cc. cc\<lparr>blocksResults := b\<rparr>) (chainAt td k))"
  using fold_chain_updates [of "m_entries bs" "\<lambda>b cc. cc\<lparr>blocksResults := b\<rparr>" td k] assms
  by (simp add: restoreBlocks_def m_wf_def m_keys_def m_lookup_def [of bs])

lemma restoreNodesDown_chain:
  assumes "m_wf nd" "\<forall>k. m_wf (m_get NilMap nd k)"
  shows "chainAt (restoreNodesDown nd td) k =
    map_option (\<lambda>cc. cc\<lparr>Nodes := map (restoredNode (m_get NilMap nd k)) (Nodes cc)\<rparr>) (chainAt td k)"
proof -
  have id: "restoredNode NilMap = (\<lambda>n. n)" by (simp add: restoredNode_def fun_eq_iff)
  have "chainAt (restoreNodesDown nd td) k =
      (case m_lookup nd k of None \<Rightarrow> chainAt td k | Some m \<Rightarrow> map_option (restoreChainNodes m) (chainAt td k))"
    using fold_chain_updates [of "m_entries nd" restoreChainNodes td k] assms(1)
    by (simp add: restoreNodesDown_def m_wf_def m_keys_def m_lookup_def [of nd])
  also have "\<dots> = map_option (\<lambda>cc. cc\<lparr>Nodes := map (restoredNode (m_get NilMap nd k)) (Nodes cc)\<rparr>) (chainAt td k)"
  proof (cases "m_lookup nd k")
    case None
    then have "m_get NilMap nd k = NilMap" by (simp add: m_get_def)
    with None show ?thesis by (simp add: id option.map_ident)
  next
    case (Some m)
    then have "m_get NilMap nd k = m" by (simp add: m_get_def)
    with Some assms(2) restoreChainNodes_eq [of m] show ?thesis by (cases "chainAt td k") (auto dest: spec [of _ k])
  qed
  finally show ?thesis .
qed

lemma restore_chain:
  assumes "m_wf (Blocks s)" "m_wf (NodesDown s)" "\<forall>k. m_wf (m_get NilMap (NodesDown s) k)" "NodesDown s \<noteq> NilMap"
    "m_lookup (Blocks s) k = Some b" "chainAt td k = Some cc"
  shows "chainAt (restoreSavedState clock (Some s) td) k =
    Some (flagNoNodes (cc\<lparr>blocksResults := b, Nodes := map (restoredNode (m_get NilMap (NodesDown s) k)) (Nodes cc)\<rparr>))"
proof -
  define td2 where "td2 = (case Alarms s of None \<Rightarrow> restoreBlocks (Blocks s) td
    | Some sa \<Rightarrow> (restoreBlocks (Blocks s) td)\<lparr>alarms := restoreAlarms clock sa (alarms (restoreBlocks (Blocks s) td))\<rparr>)"
  have "chainAt td2 k = Some (cc\<lparr>blocksResults := b\<rparr>)"
    using restoreBlocks_chain [OF assms(1), of td k] assms(5,6) by (simp add: td2_def split: option.splits)
  then have "chainAt (restoreNodesDown (NodesDown s) td2) k =
      Some (cc\<lparr>blocksResults := b, Nodes := map (restoredNode (m_get NilMap (NodesDown s) k)) (Nodes cc)\<rparr>)"
    using restoreNodesDown_chain [OF assms(2,3), of td2 k] by simp
  then show ?thesis
    using assms(4) by (simp add: restoreSavedState_def Let_def td2_def [symmetric] gmap_simps)
qed

lemma restore_alarms:
  "Alarms s = Some sa \<Longrightarrow> alarms (restoreSavedState clock (Some s) td) = restoreAlarms clock sa (alarms td)"
  unfolding restoreSavedState_def restoreBlocks_def restoreNodesDown_def
  by (simp add: Let_def fold_chain_frame)

text \<open>A state that went through a codec has the maps of the snapshot.\<close>

lemma loaded_parts:
  assumes "td_wf td" "same_document (documentOf (snapshotSavedState td)) (documentOf s)"
  shows "m_wf (Blocks s)" "m_wf (NodesDown s)" "\<forall>k. m_wf (m_get NilMap (NodesDown s) k)" "NodesDown s \<noteq> NilMap"
    and "m_lookup (Blocks s) k = map_option blocksResults (chainAt td k)"
    and "m_lookup (m_get NilMap (NodesDown s) k) u = (case chainAt td k of None \<Rightarrow> None | Some cc \<Rightarrow> lastDown (Nodes cc) u)"
    and "\<exists>sa. Alarms s = Some sa \<and> same_alarms (cloneAlarmState (Some (alarms td))) sa"
proof -
  note p = snapshot_parts [OF assms(1)]
  have b: "same_map (Blocks (snapshotSavedState td)) (Blocks s)"
    and n: "same_nested (NodesDown (snapshotSavedState td)) (NodesDown s)"
    using assms(2) by (simp_all add: same_document_def documentOf_def)
  have nk: "same_map (m_get NilMap (NodesDown (snapshotSavedState td)) k) (m_get NilMap (NodesDown s) k)" for k
    using n by (simp add: same_nested_def)
  show "m_wf (Blocks s)" "m_lookup (Blocks s) k = map_option blocksResults (chainAt td k)"
    using b p(1,3) by (auto simp: same_map_def)
  show "m_wf (NodesDown s)" "NodesDown s \<noteq> NilMap" using n p(4,5) by (auto simp: same_nested_def nested_wf_def)
  show "\<forall>k. m_wf (m_get NilMap (NodesDown s) k)" using nk p(4) by (auto simp: same_map_def nested_wf_def)
  show "m_lookup (m_get NilMap (NodesDown s) k) u = (case chainAt td k of None \<Rightarrow> None | Some cc \<Rightarrow> lastDown (Nodes cc) u)"
    using nk [of k] p(2) [of k u] by (simp add: same_map_def)
  show "\<exists>sa. Alarms s = Some sa \<and> same_alarms (cloneAlarmState (Some (alarms td))) sa"
    using assms(2) p(7) by (auto simp: same_document_def documentOf_def split: option.splits)
qed

section \<open>Properties of a restart\<close>

text \<open>C16: A restart keeps the monitoring state. For a chain configured with the same nodes (by URL, without
  duplicates), restoring what was saved gives back the block history, and a node that was
  down at a known time is down since that time and marked as having been down; every other
  node is as configured. The chain has no nodes if all of them are down.\<close>

theorem restart_keeps_monitoring:
  assumes "td_wf td" "same_document (documentOf (snapshotSavedState td)) (documentOf s)"
    and "chainAt td k = Some cc" "chainAt td0 k = Some cc0"
    and "map Url (Nodes cc0) = map Url (Nodes cc)" "distinct (map Url (Nodes cc))"
  shows "\<exists>cc1. chainAt (restoreSavedState clock (Some s) td0) k = Some cc1 \<and>
    blocksResults cc1 = blocksResults cc \<and> length (Nodes cc1) = length (Nodes cc) \<and>
    (\<forall>i<length (Nodes cc).
       if down (Nodes cc ! i) \<and> \<not> IsZero (downSince (Nodes cc ! i))
       then Nodes cc1 ! i = (Nodes cc0 ! i)\<lparr>down := True, wasDown := True, downSince := downSince (Nodes cc ! i)\<rparr>
       else Nodes cc1 ! i = Nodes cc0 ! i) \<and>
    (noNodes cc1 \<longleftrightarrow> noNodes cc0 \<or> (\<forall>n\<in>set (Nodes cc1). down n))"
proof -
  note l = loaded_parts [OF assms(1,2)]
  define cc1 where "cc1 = flagNoNodes (cc0\<lparr>blocksResults := blocksResults cc,
    Nodes := map (restoredNode (m_get NilMap (NodesDown s) k)) (Nodes cc0)\<rparr>)"
  have len: "length (Nodes cc0) = length (Nodes cc)" using assms(5) by (metis length_map)
  have "chainAt (restoreSavedState clock (Some s) td0) k = Some cc1"
    using restore_chain [OF l(1-4) _ assms(4), where b = "blocksResults cc"] l(5) [of k] assms(3) by (simp add: cc1_def)
  moreover have "Nodes cc1 ! i = restoredNode (m_get NilMap (NodesDown s) k) (Nodes cc0 ! i)" if "i < length (Nodes cc)" for i
    using that len by (simp add: cc1_def flagNoNodes_eq)
  moreover have "m_lookup (m_get NilMap (NodesDown s) k) (Url (Nodes cc0 ! i)) =
      (if down (Nodes cc ! i) then Some (downSince (Nodes cc ! i)) else None)" if "i < length (Nodes cc)" for i
  proof -
    have "Url (Nodes cc0 ! i) = Url (Nodes cc ! i)" using that len assms(5) by (metis nth_map)
    then show ?thesis
      using l(6) [of k "Url (Nodes cc ! i)"] assms(3) lastDown_distinct [OF assms(6), of "Nodes cc ! i"] that by simp
  qed
  moreover have "blocksResults cc1 = blocksResults cc" "length (Nodes cc1) = length (Nodes cc)"
    "noNodes cc1 \<longleftrightarrow> noNodes cc0 \<or> (\<forall>n\<in>set (Nodes cc1). down n)"
    using len by (simp_all add: cc1_def flagNoNodes_eq)
  ultimately show ?thesis by (intro exI [of _ cc1]) (simp add: restoredNode_def)
qed

lemma same_document_refl: "same_document doc doc"
  by (simp add: same_document_def same_map_def same_nested_def same_alarms_def split: option.splits)

text \<open>A chain with a node that has been down for a while, after and before it went down.\<close>

definition lame_chain :: ChainConfig where
  "lame_chain = two_nodes\<lparr>blocksResults := [3, 0, 3],
     Nodes := [(Nodes two_nodes ! 0)\<lparr>down := True, downSince := UnixZero + Hour\<rparr>, Nodes two_nodes ! 1]\<rparr>"

definition lame_td :: Config where
  "lame_td = (putChain ''osmosis'' lame_chain sample_td)
     \<lparr>alarms := newAlarmCache\<lparr>SentPdAlarms := Map [(''stalled'', UnixZero)]\<rparr>\<rparr>"

lemma lame_td_wf: "td_wf lame_td" "chainAt lame_td ''osmosis'' = Some lame_chain"
proof -
  have "cache_wf (putSentMap Pd (Map [(''stalled'', UnixZero)]) newAlarmCache)"
    by (rule cache_wf_put) (simp_all add: cache_wf_new m_wf_def m_keys_def)
  then have "cache_wf (newAlarmCache\<lparr>SentPdAlarms := Map [(''stalled'', UnixZero)]\<rparr>)" by (simp add: putSentMap.simps)
  moreover have "td_wf (putChain ''osmosis'' lame_chain sample_td)"
    by (rule td_wf_putChain) (simp_all add: lame_chain_def two_nodes_def sample_chain_def)
  ultimately show "td_wf lame_td" by (simp add: lame_td_def td_wf_def)
  show "chainAt lame_td ''osmosis'' = Some lame_chain" by (simp add: lame_td_def putChain_def gmap_simps)
qed

theorem restart_keeps_monitoring_witness:
  "\<exists>cc1. chainAt (restoreSavedState (\<lambda>_ _. UnixZero) (Some (snapshotSavedState lame_td))
      (putChain ''osmosis'' two_nodes sample_td)) ''osmosis'' = Some cc1 \<and> blocksResults cc1 = [3, 0, 3] \<and>
    down (Nodes cc1 ! 0) \<and> downSince (Nodes cc1 ! 0) = UnixZero + Hour \<and> Nodes cc1 ! 1 = Nodes two_nodes ! 1"
proof -
  have n: "length (Nodes lame_chain) = 2" "down (Nodes lame_chain ! 0)" "\<not> down (Nodes lame_chain ! 1)"
    "downSince (Nodes lame_chain ! 0) = UnixZero + Hour" "blocksResults lame_chain = [3, 0, 3]"
    "map Url (Nodes two_nodes) = map Url (Nodes lame_chain)" "distinct (map Url (Nodes lame_chain))"
    by (simp_all add: lame_chain_def two_nodes_def)
  have z: "\<not> IsZero (UnixZero + Hour)" by (simp add: time_simps)
  from restart_keeps_monitoring [OF lame_td_wf(1) same_document_refl lame_td_wf(2) _ n(6,7), of "putChain ''osmosis'' two_nodes sample_td"
      "\<lambda>_ _. UnixZero"]
  obtain cc1 where "chainAt (restoreSavedState (\<lambda>_ _. UnixZero) (Some (snapshotSavedState lame_td))
      (putChain ''osmosis'' two_nodes sample_td)) ''osmosis'' = Some cc1" "blocksResults cc1 = blocksResults lame_chain"
    "\<forall>i<length (Nodes lame_chain).
       if down (Nodes lame_chain ! i) \<and> \<not> IsZero (downSince (Nodes lame_chain ! i))
       then Nodes cc1 ! i = (Nodes two_nodes ! i)\<lparr>down := True, wasDown := True, downSince := downSince (Nodes lame_chain ! i)\<rparr>
       else Nodes cc1 ! i = Nodes two_nodes ! i"
    by auto
  moreover from this(3) have "Nodes cc1 ! 0 = (Nodes two_nodes ! 0)\<lparr>down := True, wasDown := True, downSince := UnixZero + Hour\<rparr>"
    "Nodes cc1 ! 1 = Nodes two_nodes ! 1"
    using n z by (auto dest: spec [of _ 0] spec [of _ 1])
  ultimately show ?thesis using n by simp
qed

lemma restored_alarms:
  assumes "td_wf td" "same_document (documentOf (snapshotSavedState td)) (documentOf s)"
    and "alarms td0 = newAlarmCache" "flapWindow \<le> now"
    and "cache = alarms (restoreSavedState clock (Some s) td0)"
  shows "(fst (reserveDelivery now msg d cache) \<longleftrightarrow>
      resolved msg = (sent_at (alarms td) d (message msg) \<noteq> 0 \<and>
        clock (destWhat d, '''') (message msg) - sent_at (alarms td) d (message msg) < 24 * Hour)) \<and>
    (\<forall>ch m. on_dashboard cache ch m = (case on_dashboard (alarms td) ch m of None \<Rightarrow> None
       | Some t \<Rightarrow> if 24 * Hour \<le> clock (''dashboard'', ch) m - t then None else Some t))"
proof -
  obtain sa where sa: "Alarms s = Some sa" "same_alarms (cloneAlarmState (Some (alarms td))) sa"
    using loaded_parts(7) [OF assms(1,2)] by blast
  have wf: "cache_wf (alarms td)" using assms(1) by (simp add: td_wf_def)
  have cache: "cache = restoreAlarms clock sa newAlarmCache"
    using restore_alarms [OF sa(1), of clock td0] assms(3,5) by simp
  have "a_flap (abs_of cache) (chain msg) (message msg) = 0" "\<not> in_flight cache d (message msg)"
    by (simp_all add: cache a_flap_get in_flight_def restoreAlarms_frame newAlarmCache_def)
  then have "fst (reserveDelivery now msg d cache) \<longleftrightarrow> resolved msg = (sent_at cache d (message msg) \<noteq> 0)"
    using assms(4) by (auto simp: reserve_granted abs_may_send_def) (auto simp: abs_of_def)
  moreover have "sent_at cache d (message msg) \<noteq> 0 \<longleftrightarrow> sent_at (alarms td) d (message msg) \<noteq> 0 \<and>
      clock (destWhat d, '''') (message msg) - sent_at (alarms td) d (message msg) < 24 * Hour"
    by (auto simp: cache restored_sent_at [OF wf sa(2)] unlessStale_def)
  ultimately show ?thesis using restored_dashboard [OF wf sa(2)] by (simp add: cache)
qed

text \<open>Deduplication survives a restart: restoring a saved state into a new cache, a trigger is
  withheld from a destination exactly if the destination had accepted it, and not resolved it
  since, less than 24 hours before the restart; the resolution is sent exactly in that case.
  The dashboard shows the alarms it showed, except those older than 24 hours.\<close>

theorem restart_keeps_alarms:
  assumes "td_wf td" "same_document (documentOf (snapshotSavedState td)) (documentOf s)"
    and "alarms td0 = newAlarmCache" "flapWindow \<le> now"
    and "cache = alarms (restoreSavedState clock (Some s) td0)"
  shows "(fst (reserveDelivery now msg d cache) \<longleftrightarrow>
      resolved msg = (sent_at (alarms td) d (message msg) \<noteq> 0 \<and>
        clock (destWhat d, '''') (message msg) - sent_at (alarms td) d (message msg) < 24 * Hour)) \<and>
    (\<forall>ch m. on_dashboard cache ch m = (case on_dashboard (alarms td) ch m of None \<Rightarrow> None
       | Some t \<Rightarrow> if 24 * Hour \<le> clock (''dashboard'', ch) m - t then None else Some t))"
  using assms by (rule restored_alarms)

theorem restart_keeps_alarms_witness:
  "\<not> fst (reserveDelivery UnixZero ((sample_msg False)\<lparr>message := ''stalled''\<rparr>) Pd
     (alarms (restoreSavedState (\<lambda>_ _. UnixZero + Hour) (Some (snapshotSavedState lame_td)) sample_td)))"
proof -
  have "sent_at (alarms lame_td) Pd ''stalled'' = UnixZero"
    by (simp add: lame_td_def sent_at_def m_get_def m_lookup_def sentMap.simps)
  then show ?thesis
    using restart_keeps_alarms [OF lame_td_wf(1) same_document_refl _ _ refl, of sample_td UnixZero
      "(sample_msg False)\<lparr>message := ''stalled''\<rparr>" Pd "\<lambda>_ _. UnixZero + Hour"]
    by (simp add: sample_msg_def time_simps flapWindow_def)
qed

text \<open>A node restored as down never raises its alarm while it stays down: whatever probes fail
  from then on and however long it takes, the watch loop publishes nothing for it. This
  holds also for a node whose alarm was not due yet when the state was saved.\<close>

definition failProbe :: "time \<times> string \<times> string \<Rightarrow> NodeConfig \<Rightarrow> NodeConfig" where
  "failProbe = (\<lambda>(now, chainName, msg) node. snd (updateNodeState (markUnhealthy now chainName node msg) node))"

theorem restored_node_silent:
  assumes "Url n = u" "t \<noteq> 0"
  shows "nodeSwitch (now, td, fold failProbe probes (restoreNode (u, t) n)) alarmed = ([], alarmed)"
proof -
  have keep: "down (fold failProbe ps x) \<and> wasDown (fold failProbe ps x)" if "down x" "wasDown x" for ps x
    using that
  proof (induction ps arbitrary: x)
    case (Cons p ps)
    have "down (failProbe p x) \<and> wasDown (failProbe p x)"
      using Cons.prems by (cases p) (simp add: failProbe_def updateNodeState_def markUnhealthy_def nodeState_def Let_def)
    with Cons.IH show ?case by simp
  qed simp
  have "down (restoreNode (u, t) n) \<and> wasDown (restoreNode (u, t) n)" using assms by (simp add: restoreNode_def)
  with keep [of "restoreNode (u, t) n" probes] show ?thesis by (simp add: nodeSwitch_def nodeState_def Let_def)
qed

theorem restored_node_silent_witness:
  "nodeSwitch (UnixZero + 100 * Hour, sample_td,
     fold failProbe [(UnixZero + 50 * Hour, ''osmosis'', ''down'')] (restoreNode (''http://a'', UnixZero) (Nodes two_nodes ! 0))) False =
   ([], False)"
proof -
  have "Url (Nodes two_nodes ! 0) = ''http://a''" "UnixZero \<noteq> 0" by (simp_all add: two_nodes_def time_simps)
  then show ?thesis by (rule restored_node_silent)
qed

end
