(* ===== verification/ConfigLoad.thy ===== *)
theory ConfigLoad
  imports Encryption Snapshot
begin

text \<open>
  Loading and validating the configuration: \<open>loadChainConfig\<close>, \<open>decodeConfig\<close>, \<open>loadConfig\<close>
  and \<open>validateConfig\<close> of \<open>src/seer/types.go\<close>, \<open>bindDurableState\<close> of
  \<open>src/seer/runtime_state.go\<close> and the start of \<open>Run\<close> in \<open>src/seer/run.go\<close>.

  What the code reads from outside is a parameter (\<open>config_env\<close>): the files and directories, the
  download of a remote configuration, the YAML decoder, the URL parser, the JSON codec of the state file
  and the cryptographic primitives. The decoder may yield a nil pointer for a chain
  (an entry with an empty value), so a decoded map holds optional chains. \<open>None\<close> is a
  panic, \<open>Inl\<close> an error.

  Shown: a process that starts is well-formed, the condition on which the
  monitoring theorems rest; every chain has complete notification settings; the warnings of
  validation; and how the files of a directory override the chains of the main file.
\<close>

section \<open>Parameters\<close>

record yamlConfig =
  yc_settings :: Config
  yc_Chains :: "(string, ChainConfig option) gmap"

record config_env =
  httpGet :: "string \<Rightarrow> string + bytes"
  readConfigFile :: "string \<Rightarrow> string + bytes"
  ReadDir :: "string \<Rightarrow> (string \<times> bool) list"
  readChainFile :: "string \<Rightarrow> string \<Rightarrow> string + bytes"
  unmarshalConfig :: "bytes \<Rightarrow> string + yamlConfig"
  unmarshalChain :: "bytes \<Rightarrow> string + ChainConfig"
  parsesURL :: "string \<Rightarrow> bool"
  cryptoOf :: crypto
  codecOf :: json_codec
  stateReader :: "path \<Rightarrow> state_error + string"
  restoreClock :: restore_clock

datatype config_error = LoadError string | StateError load_error | Refused "string list"

section \<open>Loading\<close>

definition loadChainConfig :: "config_env \<Rightarrow> string \<Rightarrow> string \<Rightarrow> string + ChainConfig" where
  "loadChainConfig env dir file =
     (case readChainFile env dir file of Inl e \<Rightarrow> Inl e | Inr b \<Rightarrow> unmarshalChain env b)"

definition decodeConfig :: "config_env \<Rightarrow> bytes \<Rightarrow> string + yamlConfig" where
  "decodeConfig env data = unmarshalConfig env data"

definition isRemote :: "string \<Rightarrow> bool" where
  "isRemote yamlFile \<longleftrightarrow> HasPrefix yamlFile ''http://'' \<or> HasPrefix yamlFile ''https://''"

definition readMainConfig :: "config_env \<Rightarrow> string \<Rightarrow> string \<Rightarrow> (string + yamlConfig) option" where
  "readMainConfig env yamlFile password =
     (if isRemote yamlFile
      then if password = '''' then Some (Inl ''a password is required if loading a remote configuration'')
           else (case httpGet env yamlFile of
                   Inl e \<Rightarrow> Some (Inl e)
                 | Inr b \<Rightarrow>
                     do { r \<leftarrow> decrypt (cryptoOf env) b password;
                          Some (case r of Inl e \<Rightarrow> Inl e | Inr decrypted \<Rightarrow> decodeConfig env decrypted) })
      else (case readConfigFile env yamlFile of
              Inl e \<Rightarrow> Some (Inl e)
            | Inr b \<Rightarrow> Some (decodeConfig env b)))"

text \<open>The part of a file name before its first dot: \<open>strings.Split(name, ".")[0]\<close>.\<close>

definition chainFileName :: "string \<Rightarrow> string" where
  "chainFileName file = takeWhile (\<lambda>c. c \<noteq> CHR ''.'') file"

fun loadChainFiles ::
  "config_env \<Rightarrow> string \<Rightarrow> (string \<times> bool) list \<Rightarrow> (string, ChainConfig option) gmap \<Rightarrow>
     string + (string, ChainConfig option) gmap" where
  "loadChainFiles env dir [] chainMap = Inr chainMap"
| "loadChainFiles env dir ((file, isDir) # files) chainMap =
     (if isDir then loadChainFiles env dir files chainMap
      else if \<not> HasSuffix file ''.yml'' then loadChainFiles env dir files chainMap
      else case loadChainConfig env dir file of
             Inl e \<Rightarrow> Inl e
           | Inr chainConfig \<Rightarrow>
               loadChainFiles env dir files
                 (m_ins (chainFileName file) (Some chainConfig) (if chainMap = NilMap then mkmap else chainMap)))"

text \<open>Binding the chains to the shared lock dereferences every pointer.\<close>

definition bindDurableState :: "(string, ChainConfig option) gmap \<Rightarrow> (string, ChainConfig) gmap option" where
  "bindDurableState chainMap =
     (if None \<in> set (map snd (m_entries chainMap)) then None
      else Some (case chainMap of NilMap \<Rightarrow> NilMap | Map al \<Rightarrow> Map (map (\<lambda>(k, v). (k, the v)) al)))"

definition loadConfig :: "config_env \<Rightarrow> string \<Rightarrow> path \<Rightarrow> string \<Rightarrow> string \<Rightarrow> (config_error + Config) option" where
  "loadConfig env yamlFile stateFile chainConfigDirectory password =
     do { mainConfig \<leftarrow> readMainConfig env yamlFile password;
          case mainConfig of
            Inl e \<Rightarrow> Some (Inl (LoadError e))
          | Inr yc \<Rightarrow>
              (case loadChainFiles env chainConfigDirectory (ReadDir env chainConfigDirectory) (yc_Chains yc) of
                 Inl e \<Rightarrow> Some (Inl (LoadError e))
               | Inr chainMap \<Rightarrow>
                   if m_entries chainMap = [] then Some (Inl (LoadError ''no chains configured''))
                   else do {
                     bound \<leftarrow> bindDurableState chainMap;
                     (let c = (yc_settings yc)\<lparr>alertChan := [], updateChan := [], statsChan := [],
                                alarms := newAlarmCache, accepting := False, Chains := bound\<rparr>
                      in case loadStateWithReader (codecOf env) stateFile (stateReader env) of
                           Inl e \<Rightarrow> Some (Inl (StateError e))
                         | Inr (saved, info) \<Rightarrow> Some (Inr (restoreSavedState (restoreClock env) (Some saved) c)))
                   }) }"

section \<open>Validating\<close>

definition showBLocks :: nat where "showBLocks = 512"

definition prepareChain :: "string \<Rightarrow> ChainConfig \<Rightarrow> ChainConfig" where
  "prepareChain k v =
     (let v1 = (if blocksResults v = [] then v\<lparr>blocksResults := replicate showBLocks (-1)\<rparr> else v);
          v2 = (if name v1 = '''' then v1\<lparr>name := k\<rparr> else v1)
      in publishValidatorInfo (emptyValInfo\<lparr>Moniker := ''not connected''\<rparr>) False v2)"

definition enableDeprecated :: "AlertConfig \<Rightarrow> AlertConfig" where
  "enableDeprecated a =
     (let a1 = (if DiscordAlerts a \<and> \<not> di_Enabled (al_Discord a)
                then a\<lparr>al_Discord := (al_Discord a)\<lparr>di_Enabled := True\<rparr>\<rparr> else a);
          a2 = (if TelegramAlerts a1 \<and> \<not> tg_Enabled (al_Telegram a1)
                then a1\<lparr>al_Telegram := (al_Telegram a1)\<lparr>tg_Enabled := True\<rparr>\<rparr> else a1)
      in if PagerdutyAlerts a2 \<and> \<not> pd_Enabled (al_Pagerduty a2)
         then a2\<lparr>al_Pagerduty := (al_Pagerduty a2)\<lparr>pd_Enabled := True\<rparr>\<rparr> else a2)"

definition discordDefaults :: "Config \<Rightarrow> AlertConfig \<Rightarrow> AlertConfig" where
  "discordDefaults c a =
     (if di_Webhook (al_Discord a) = ''''
      then a\<lparr>al_Discord := (al_Discord a)\<lparr>di_Webhook := di_Webhook (Discord c), di_Mentions := di_Mentions (Discord c)\<rparr>\<rparr>
      else a)"

definition slackDefaults :: "Config \<Rightarrow> AlertConfig \<Rightarrow> AlertConfig" where
  "slackDefaults c a =
     (if slk_Webhook (al_Slack a) = ''''
      then a\<lparr>al_Slack := (al_Slack a)\<lparr>slk_Webhook := slk_Webhook (Slack c), slk_Mentions := slk_Mentions (Slack c)\<rparr>\<rparr>
      else a)"

definition telegramKeyDefaults :: "Config \<Rightarrow> AlertConfig \<Rightarrow> AlertConfig" where
  "telegramKeyDefaults c a =
     (if tg_ApiKey (al_Telegram a) = ''''
      then a\<lparr>al_Telegram := (al_Telegram a)\<lparr>tg_ApiKey := tg_ApiKey (Telegram c), tg_Mentions := tg_Mentions (Telegram c)\<rparr>\<rparr>
      else a)"

definition telegramChannelDefaults :: "Config \<Rightarrow> AlertConfig \<Rightarrow> AlertConfig" where
  "telegramChannelDefaults c a =
     (if tg_Channel (al_Telegram a) = ''''
      then a\<lparr>al_Telegram := (al_Telegram a)\<lparr>tg_Channel := tg_Channel (Telegram c)\<rparr>\<rparr> else a)"

definition pagerdutyDefaults :: "Config \<Rightarrow> AlertConfig \<Rightarrow> AlertConfig" where
  "pagerdutyDefaults c a =
     (if pd_ApiKey (al_Pagerduty a) = ''''
      then a\<lparr>al_Pagerduty := (al_Pagerduty a)\<lparr>pd_ApiKey := pd_ApiKey (Pagerduty c),
               pd_DefaultSeverity := pd_DefaultSeverity (Pagerduty c)\<rparr>\<rparr>
      else a)"

definition copyDefaults :: "Config \<Rightarrow> AlertConfig \<Rightarrow> AlertConfig" where
  "copyDefaults c a =
     pagerdutyDefaults c (telegramChannelDefaults c (telegramKeyDefaults c (slackDefaults c (discordDefaults c a))))"

text \<open>
  A \<open>switch\<close> without a tag: the clauses are guard, body and whether the body ends in
  \<open>fallthrough\<close>, which enters the next body whatever its guard says.
\<close>

fun switchBodies :: "(bool \<times> 'a \<times> bool) list \<Rightarrow> 'a list" where
  "switchBodies [] = []"
| "switchBodies ((g, b, falls) # cs) = b # (if falls then switchBodies cs else [])"

fun goSwitch :: "(bool \<times> 'a \<times> bool) list \<Rightarrow> 'a list" where
  "goSwitch [] = []"
| "goSwitch ((g, b, falls) # cs) = (if g then switchBodies ((g, b, falls) # cs) else goSwitch cs)"

definition padLeft20 :: "string \<Rightarrow> string" where
  "padLeft20 s = replicate (20 - runeCount s) (CHR '' '') @ s"

definition notEnabledWarning :: "string \<Rightarrow> string \<Rightarrow> string" where
  "notEnabledWarning k service =
     ''warn: '' @ padLeft20 k @ '' is configured for '' @ service @ '' alerts, but it is not enabled''"

definition noTypesWarning :: "string \<Rightarrow> string" where
  "noTypesWarning k = ''warn: '' @ padLeft20 k @ '' has no alert types configured''"

definition noNotificationsWarning :: "string \<Rightarrow> string" where
  "noNotificationsWarning k = ''warn: '' @ padLeft20 k @ '' has no notifications configured''"

definition alertProblems :: "Config \<Rightarrow> string \<Rightarrow> AlertConfig \<Rightarrow> string list" where
  "alertProblems c k a =
     goSwitch
       [(slk_Enabled (al_Slack a) \<and> \<not> slk_Enabled (Slack c), notEnabledWarning k ''slack'', True),
        (di_Enabled (al_Discord a) \<and> \<not> di_Enabled (Discord c), notEnabledWarning k ''discord'', True),
        (pd_Enabled (al_Pagerduty a) \<and> \<not> pd_Enabled (Pagerduty c), notEnabledWarning k ''pagerduty'', True),
        (tg_Enabled (al_Telegram a) \<and> \<not> tg_Enabled (Telegram c), notEnabledWarning k ''telegram'', False),
        (\<not> ConsecutiveAlerts a \<and> \<not> PercentageAlerts a \<and> \<not> AlertIfInactive a \<and> \<not> AlertIfNoServers a,
         noTypesWarning k, True),
        (\<not> pd_Enabled (al_Pagerduty a) \<and> \<not> di_Enabled (al_Discord a) \<and> \<not> tg_Enabled (al_Telegram a) \<and>
         \<not> slk_Enabled (al_Slack a), noNotificationsWarning k, False)]"

definition startStatus :: "ValInfo \<Rightarrow> ChainConfig \<Rightarrow> ChainStatus" where
  "startStatus vi v =
     \<lparr>cs_MsgType = ''status'', cs_Name = name v, cs_ChainId = ChainId v, cs_Moniker = Moniker vi,
      cs_Bonded = Bonded vi, cs_Jailed = Jailed vi, cs_Tombstoned = Tombstoned vi, cs_Missed = Missed vi,
      cs_Window = Window vi, cs_Nodes = length (Nodes v), cs_HealthyNodes = 0, cs_ActiveAlerts = 0,
      cs_Height = 0, cs_LastError = '''', cs_Blocks = blockResultsSnapshot v\<rparr>"

definition validateChain :: "string \<times> ChainConfig \<Rightarrow> string list \<times> Config \<Rightarrow> string list \<times> Config" where
  "validateChain = (\<lambda>(k, v0) (problems, c).
     let v1 = prepareChain k v0;
         v = v1\<lparr>Alerts := copyDefaults c (enableDeprecated (Alerts v1))\<rparr>;
         c1 = putChain k v c;
         problems1 = problems @ alertProblems c k (Alerts v)
     in if EnableDash c1
        then (case fst (validatorInfoSnapshot v) of
                None \<Rightarrow> (problems1, c1)
              | Some vi \<Rightarrow> (problems1, c1\<lparr>updateChan := updateChan c1 @ [startStatus vi v]\<rparr>))
        else (problems1, c1))"

text \<open>
  The third component says whether validation starts the periodic refresh of the chain registry.
\<close>

definition validateConfig :: "config_env \<Rightarrow> Config \<Rightarrow> bool \<times> string list \<times> bool \<times> Config" where
  "validateConfig env c =
     (let badListen = EnableDash c \<and> \<not> parsesURL env (Listen c);
          badKey = pd_Enabled (Pagerduty c) \<and> (\<exists>ch \<in> set (pd_ApiKey (Pagerduty c)). ch \<in> set ''+_-'');
          problems =
            (if badListen then [''error: The listen URL '' @ Listen c @ '' does not appear to be valid''] else []) @
            (if badKey then [''error: The Pagerduty key provided appears to be an Oauth token, not a V2 Events API key.''] else []) @
            (if NodeDownMin c < 3
             then [''warning: setting '' @ CHR 0x27 # ''node_down_alert_minutes'' @ CHR 0x27 # '' to less than three minutes might result in false alarms'']
             else []);
          wantsPublic = list_ex (\<lambda>(k, v). PublicFallback v) (m_entries (Chains c));
          (problems', c') = fold validateChain (m_entries (Chains c)) (problems, c)
      in (badListen \<or> badKey, problems', wantsPublic, c'))"

text \<open>The start of \<open>Run\<close>: a fatal problem ends the process.\<close>

definition startConfig :: "config_env \<Rightarrow> string \<Rightarrow> path \<Rightarrow> string \<Rightarrow> string \<Rightarrow> (config_error + Config) option" where
  "startConfig env configFile stateFile chainConfigDirectory password =
     do { loaded \<leftarrow> loadConfig env configFile stateFile chainConfigDirectory password;
          case loaded of
            Inl e \<Rightarrow> Some (Inl e)
          | Inr c \<Rightarrow>
              let (fatal, problems, wantsPublic, td) = validateConfig env c
              in Some (if fatal then Inl (Refused problems) else Inr td) }"

section \<open>Validation, chain by chain\<close>

text \<open>What validation makes of one chain; it depends on the settings of the process only.\<close>

definition notConnected :: ValInfo where
  "notConnected = emptyValInfo\<lparr>Moniker := ''not connected''\<rparr>"

definition validated :: "Config \<Rightarrow> string \<Rightarrow> ChainConfig \<Rightarrow> ChainConfig" where
  "validated c k v = (prepareChain k v)\<lparr>Alerts := copyDefaults c (enableDeprecated (Alerts v))\<rparr>"

lemma prepareChain_frame [simp]:
  "Alerts (prepareChain k v) = Alerts v" "valInfo (prepareChain k v) = Some notConnected"
  "name (prepareChain k v) = (if name v = '''' then k else name v)"
  "blocksResults (prepareChain k v) = (if blocksResults v = [] then replicate showBLocks (-1) else blocksResults v)"
  "Nodes (prepareChain k v) = Nodes v" "ChainId (prepareChain k v) = ChainId v"
  by (simp_all add: prepareChain_def Let_def publishValidatorInfo_def notConnected_def)

lemma validated_frame [simp]:
  "valInfo (validated c k v) = Some notConnected"
  "name (validated c k v) = (if name v = '''' then k else name v)"
  "blocksResults (validated c k v) = (if blocksResults v = [] then replicate showBLocks (-1) else blocksResults v)"
  "Alerts (validated c k v) = copyDefaults c (enableDeprecated (Alerts v))"
  "Nodes (validated c k v) = Nodes v" "ChainId (validated c k v) = ChainId v"
  by (simp_all add: validated_def)

lemma settings_frame:
  "Discord (c\<lparr>updateChan := u\<rparr>) = Discord c" "Slack (c\<lparr>updateChan := u\<rparr>) = Slack c"
  "Telegram (c\<lparr>updateChan := u\<rparr>) = Telegram c" "Pagerduty (c\<lparr>updateChan := u\<rparr>) = Pagerduty c"
  by simp_all

lemmas defaults_defs = discordDefaults_def slackDefaults_def telegramKeyDefaults_def telegramChannelDefaults_def
  pagerdutyDefaults_def

lemma copyDefaults_settings [simp]:
  "copyDefaults (c\<lparr>updateChan := u\<rparr>) = copyDefaults c" "copyDefaults (putChain k' v' c) = copyDefaults c"
  by (unfold copyDefaults_def defaults_defs settings_frame putChain_frame) (rule refl)+

lemma alertProblems_settings [simp]:
  "alertProblems (c\<lparr>updateChan := u\<rparr>) = alertProblems c" "alertProblems (putChain k' v' c) = alertProblems c"
  by (unfold alertProblems_def settings_frame putChain_frame) (rule refl)+

lemma validated_settings [simp]:
  "validated (c\<lparr>updateChan := u\<rparr>) = validated c" "validated (putChain k' v' c) = validated c"
  by (simp_all add: fun_eq_iff validated_def)

lemma validateChain_eq:
  "validateChain (k, v) (problems, c) =
     (problems @ alertProblems c k (Alerts (validated c k v)),
      (putChain k (validated c k v) c)\<lparr>updateChan := updateChan c @
         (if EnableDash c then [startStatus notConnected (validated c k v)] else [])\<rparr>)"
  by (simp add: validateChain_def Let_def validated_def [symmetric] validatorInfoSnapshot_def monitoringSnapshot_def)

definition validating ::
  "(string \<times> ChainConfig) list \<Rightarrow> string list \<Rightarrow> Config \<Rightarrow> string list \<Rightarrow> Config \<Rightarrow> bool" where
  "validating es problems c problems' c' \<longleftrightarrow>
     problems' = problems @ concat (map (\<lambda>(k, v). alertProblems c k (Alerts (validated c k v))) es) \<and>
     (\<forall>k. chainAt c' k = (case map_of es k of None \<Rightarrow> chainAt c k | Some v \<Rightarrow> Some (validated c k v))) \<and>
     c' = c\<lparr>Chains := Chains c', updateChan := updateChan c @
            (if EnableDash c then map (\<lambda>(k, v). startStatus notConnected (validated c k v)) es else [])\<rparr> \<and>
     (m_wf (Chains c) \<longrightarrow> m_wf (Chains c')) \<and> (Chains c \<noteq> NilMap \<longrightarrow> Chains c' \<noteq> NilMap)"

lemma validating_step:
  assumes c1_def: "c1 = (putChain k (validated c k v) c)\<lparr>updateChan := updateChan c @
         (if EnableDash c then [startStatus notConnected (validated c k v)] else [])\<rparr>"
    and "validating es (problems @ alertProblems c k (Alerts (validated c k v))) c1 problems' c'" "map_of es k = None"
  shows "validating ((k, v) # es) problems c problems' c'"
proof -
  have same: "validated c1 = validated c" "alertProblems c1 = alertProblems c" "EnableDash c1 = EnableDash c"
    "\<And>k'. chainAt c1 k' = (if k' = k then Some (validated c k v) else chainAt c k')"
    by (simp_all add: c1_def)
  have store: "m_wf (Chains c) \<longrightarrow> m_wf (Chains c1)" "Chains c1 \<noteq> NilMap"
    "c1\<lparr>Chains := x, updateChan := y\<rparr> = c\<lparr>Chains := x, updateChan := y\<rparr>"
    "updateChan c1 = updateChan c @ (if EnableDash c then [startStatus notConnected (validated c k v)] else [])" for x y
    by (simp_all add: c1_def putChain_def gmap_simps)
  note v = assms(2) [unfolded validating_def same store]
  show ?thesis unfolding validating_def
  proof (intro conjI)
    show "\<forall>k'. chainAt c' k' = (case map_of ((k, v) # es) k' of None \<Rightarrow> chainAt c k' | Some v \<Rightarrow> Some (validated c k' v))"
      using v assms(3) by auto
    show "c' = c\<lparr>Chains := Chains c', updateChan := updateChan c @
        (if EnableDash c then map (\<lambda>(k, v). startStatus notConnected (validated c k v)) ((k, v) # es) else [])\<rparr>"
      using v by (auto split: if_splits)
  qed (use v store in auto)
qed

lemma validate_fold:
  "distinct (map fst es) \<Longrightarrow> fold validateChain es (problems, c) = (problems', c') \<Longrightarrow> validating es problems c problems' c'"
proof (induction es arbitrary: problems c)
  case (Cons e es)
  obtain k v where e: "e = (k, v)" by force
  then have "map_of es k = None" using Cons.prems by (simp add: map_of_eq_None_iff)
  then show ?case using Cons e by (auto simp: validateChain_eq simp del: validated_frame intro!: validating_step)
qed (simp add: validating_def)
section \<open>Loading keeps names blank and maps well-formed\<close>

definition unnamed :: "Config \<Rightarrow> bool" where
  "unnamed td \<longleftrightarrow> Chains td \<noteq> NilMap \<and> m_wf (Chains td) \<and> (\<forall>k cc. chainAt td k = Some cc \<longrightarrow> name cc = '''')"

lemma unnamed_fold:
  fixes f :: "'v \<Rightarrow> ChainConfig \<Rightarrow> ChainConfig"
  assumes "unnamed td" "\<And>v cc. name (f v cc) = name cc"
  shows "unnamed (fold (\<lambda>(k, v) t. case chainAt t k of None \<Rightarrow> t | Some cc \<Rightarrow> putChain k (f v cc) t) al td)"
  using assms(1)
proof (induction al arbitrary: td)
  case (Cons e al)
  obtain k v where e: "e = (k, v)" by force
  have "unnamed (case chainAt td k of None \<Rightarrow> td | Some cc \<Rightarrow> putChain k (f v cc) td)"
    using Cons.prems assms(2) by (cases "chainAt td k") (simp_all add: unnamed_def putChain_def gmap_simps)
  from Cons.IH [OF this] show ?case by (simp add: e)
qed simp

lemma restoreChainNodes_name: "name (restoreChainNodes nodes cc) = name cc"
proof -
  have "name (fold (\<lambda>(u, since) c. if IsZero since then c else c\<lparr>Nodes := map (restoreNode (u, since)) (Nodes c)\<rparr>) al cc) = name cc" for al
    by (induction al arbitrary: cc) (auto split: prod.split)
  then show ?thesis by (simp add: restoreChainNodes_def)
qed

lemma flagNoNodes_name [simp]: "name (flagNoNodes cc) = name cc"
  by (simp add: flagNoNodes_def Let_def)

lemma unnamed_restore:
  assumes "unnamed td"
  shows "unnamed (restoreSavedState clock (Some s) td)"
proof -
  define td1 where "td1 = restoreBlocks (Blocks s) td"
  define td2 where "td2 = (case Alarms s of None \<Rightarrow> td1 | Some sa \<Rightarrow> td1\<lparr>alarms := restoreAlarms clock sa (alarms td1)\<rparr>)"
  have "unnamed td1" unfolding td1_def restoreBlocks_def by (rule unnamed_fold [OF assms]) simp
  then have 2: "unnamed td2" by (simp add: td2_def unnamed_def split: option.split)
  have "unnamed (restoreNodesDown (NodesDown s) td2)"
    unfolding restoreNodesDown_def by (rule unnamed_fold [OF 2]) (rule restoreChainNodes_name)
  then have "unnamed ((restoreNodesDown (NodesDown s) td2)\<lparr>Chains := m_map (\<lambda>_. flagNoNodes) (Chains (restoreNodesDown (NodesDown s) td2))\<rparr>)"
    by (auto simp: unnamed_def gmap_simps m_map_Nil)
  with 2 show ?thesis by (simp add: restoreSavedState_def Let_def td1_def [symmetric] td2_def [symmetric])
qed

text \<open>Maps read from JSON have distinct keys; a restored cache is then well-formed.\<close>

definition alarms_distinct :: "alarmCache \<Rightarrow> bool" where
  "alarms_distinct a \<longleftrightarrow> (\<forall>d. m_wf (sentMap d a)) \<and> nested_wf (AllAlarms a)"

lemma nested_wf_clear: "nested_wf m \<Longrightarrow> nested_wf (m_map (\<lambda>ch. clearStale (clock ch) h) m)"
  by (auto simp: nested_wf_def m_get_def gmap_simps clearStale_wf split: option.splits)

lemma cache_wf_restored:
  assumes "cache_wf a" "alarms_distinct sa"
  shows "cache_wf (restoreAlarms clock sa a)"
  using assms nested_wf_clear [of "AllAlarms sa" "\<lambda>ch. clock (''dashboard'', ch)" staleHours]
  by (cases "AllAlarms sa")
    (auto simp: cache_wf_def alarms_distinct_def restoreAlarms_sent restoreAlarms_frame clearStale_wf)

lemma restore_cache_wf:
  assumes "cache_wf (alarms td)" "\<forall>sa. Alarms s = Some sa \<longrightarrow> alarms_distinct sa"
  shows "cache_wf (alarms (restoreSavedState clock (Some s) td))"
proof (cases "Alarms s")
  case None
  then have "alarms (restoreSavedState clock (Some s) td) = alarms td"
    unfolding restoreSavedState_def restoreBlocks_def restoreNodesDown_def by (simp add: Let_def fold_chain_frame)
  then show ?thesis using assms(1) by simp
next
  case (Some sa)
  then show ?thesis using assms cache_wf_restored restore_alarms by simp
qed

definition env_ok :: "config_env \<Rightarrow> bool" where
  "env_ok env \<longleftrightarrow>
     (\<forall>b yc. unmarshalConfig env b = Inr yc \<longrightarrow>
        m_wf (yc_Chains yc) \<and> (\<forall>k cc. m_lookup (yc_Chains yc) k = Some (Some cc) \<longrightarrow> name cc = '''')) \<and>
     (\<forall>b cc. unmarshalChain env b = Inr cc \<longrightarrow> name cc = '''') \<and>
     (\<forall>b doc rest sa. decodeDocument (codecOf env) b = Inr (Some doc, rest) \<and> doc_Alarms doc = Some sa \<longrightarrow> alarms_distinct sa)"

definition fresh_map :: "(string, ChainConfig option) gmap \<Rightarrow> bool" where
  "fresh_map chainMap \<longleftrightarrow> m_wf chainMap \<and> (\<forall>k cc. m_lookup chainMap k = Some (Some cc) \<longrightarrow> name cc = '''')"

lemma loadChainFiles_fresh:
  assumes "env_ok env" "fresh_map chainMap" "loadChainFiles env dir files chainMap = Inr chainMap'"
  shows "fresh_map chainMap'"
  using assms(2,3)
proof (induction files arbitrary: chainMap)
  case (Cons e files)
  obtain f isDir where e: "e = (f, isDir)" by force
  have "fresh_map (m_ins (chainFileName f) (Some cc) (if chainMap = NilMap then mkmap else chainMap))"
    if "loadChainConfig env dir f = Inr cc" for cc
    using that Cons.prems(1) assms(1)
    by (auto simp: fresh_map_def gmap_simps loadChainConfig_def env_ok_def split: sum.splits)
  then show ?case using Cons by (auto simp: e split: if_splits sum.splits)
qed simp

lemma map_of_the: "map_of (map (\<lambda>(k, v). (k, the v)) al) k = map_option the (map_of al k)"
  by (induction al) auto

lemma bindDurableState_lookup:
  assumes "bindDurableState chainMap = Some bound"
  shows "m_lookup chainMap k = map_option Some (m_lookup bound k)" "m_wf chainMap \<Longrightarrow> m_wf bound"
    "m_entries chainMap \<noteq> [] \<Longrightarrow> bound \<noteq> NilMap" "map fst (m_entries bound) = map fst (m_entries chainMap)"
proof -
  have bound: "bound = (case chainMap of NilMap \<Rightarrow> NilMap | Map al \<Rightarrow> Map (map (\<lambda>(k, v). (k, the v)) al))"
    "None \<notin> snd ` set (m_entries chainMap)"
    using assms by (auto simp: bindDurableState_def split: if_splits)
  then have "m_lookup bound k = map_option the (m_lookup chainMap k)"
    by (cases chainMap) (simp_all add: m_lookup_def map_of_the)
  moreover have "m_lookup chainMap k \<noteq> Some None" using bound(2) by (force simp: m_lookup_def dest: map_of_SomeD)
  ultimately show "m_lookup chainMap k = map_option Some (m_lookup bound k)" by (cases "m_lookup chainMap k") auto
  show keys: "map fst (m_entries bound) = map fst (m_entries chainMap)" using bound(1) by (cases chainMap) (auto simp: split_def)
  show "m_wf chainMap \<Longrightarrow> m_wf bound" using keys by (simp add: m_wf_def m_keys_def)
  show "m_entries chainMap \<noteq> [] \<Longrightarrow> bound \<noteq> NilMap" using bound(1) by (cases chainMap) auto
qed

lemma loadState_distinct:
  assumes "env_ok env" "loadStateWithReader (codecOf env) p r = Inr (s, info)"
  shows "\<forall>sa. Alarms s = Some sa \<longrightarrow> alarms_distinct sa"
proof -
  have "alarms_distinct sa" if "readStateCandidate (codecOf env) q r = Inr (s, i)" "Alarms s = Some sa" for q i sa
    using that assms(1)
    by (fastforce simp: readStateCandidate_def decodeState_def env_ok_def split: sum.splits option.splits trailing.splits if_splits)
  from this [of p] this [of "backupPath p"] show ?thesis
    using assms(2)
    by (auto simp: loadStateWithReader_def emptySavedState_def split: sum.splits if_splits)
qed

lemma loadConfig_Inr:
  assumes "loadConfig env yamlFile stateFile dir password = Some (Inr c)"
  obtains yc chainMap bound s info where
    "readMainConfig env yamlFile password = Some (Inr yc)"
    "loadChainFiles env dir (ReadDir env dir) (yc_Chains yc) = Inr chainMap" "m_entries chainMap \<noteq> []"
    "bindDurableState chainMap = Some bound"
    "loadStateWithReader (codecOf env) stateFile (stateReader env) = Inr (s, info)"
    "c = restoreSavedState (restoreClock env) (Some s)
       ((yc_settings yc)\<lparr>alertChan := [], updateChan := [], statsChan := [], alarms := newAlarmCache,
          accepting := False, Chains := bound\<rparr>)"
  using assms
  by (auto simp: loadConfig_def Let_def split: Option.bind_splits sum.splits if_splits)

lemma readMainConfig_fresh:
  assumes "env_ok env" "readMainConfig env yamlFile password = Some (Inr yc)"
  shows "fresh_map (yc_Chains yc)"
  using assms
  by (auto simp: readMainConfig_def decodeConfig_def env_ok_def fresh_map_def split: Option.bind_splits sum.splits if_splits)

lemma loadConfig_unnamed:
  assumes "env_ok env" "loadConfig env yamlFile stateFile dir password = Some (Inr c)"
  shows "unnamed c" "cache_wf (alarms c)"
proof -
  obtain yc chainMap bound s info where l:
    "readMainConfig env yamlFile password = Some (Inr yc)"
    "loadChainFiles env dir (ReadDir env dir) (yc_Chains yc) = Inr chainMap" "m_entries chainMap \<noteq> []"
    "bindDurableState chainMap = Some bound"
    "loadStateWithReader (codecOf env) stateFile (stateReader env) = Inr (s, info)"
    and c: "c = restoreSavedState (restoreClock env) (Some s)
       ((yc_settings yc)\<lparr>alertChan := [], updateChan := [], statsChan := [], alarms := newAlarmCache,
          accepting := False, Chains := bound\<rparr>)"
    by (rule loadConfig_Inr [OF assms(2)])
  have fresh: "fresh_map chainMap"
    using loadChainFiles_fresh [OF assms(1) readMainConfig_fresh [OF assms(1) l(1)] l(2)] .
  note b = bindDurableState_lookup [OF l(4)]
  show "unnamed c" unfolding c
    by (rule unnamed_restore) (use fresh b l(3) in \<open>auto simp: unnamed_def fresh_map_def\<close>)
  show "cache_wf (alarms c)" unfolding c
    by (rule restore_cache_wf) (use loadState_distinct [OF assms(1) l(5)] in \<open>auto simp: cache_wf_new\<close>)
qed
section \<open>Settings of a validated chain\<close>

lemma enableDeprecated_frame [simp]:
  "di_Enabled (al_Discord (enableDeprecated a)) = (di_Enabled (al_Discord a) \<or> DiscordAlerts a)"
  "tg_Enabled (al_Telegram (enableDeprecated a)) = (tg_Enabled (al_Telegram a) \<or> TelegramAlerts a)"
  "pd_Enabled (al_Pagerduty (enableDeprecated a)) = (pd_Enabled (al_Pagerduty a) \<or> PagerdutyAlerts a)"
  "al_Slack (enableDeprecated a) = al_Slack a"
  "di_Webhook (al_Discord (enableDeprecated a)) = di_Webhook (al_Discord a)"
  "tg_ApiKey (al_Telegram (enableDeprecated a)) = tg_ApiKey (al_Telegram a)"
  "tg_Channel (al_Telegram (enableDeprecated a)) = tg_Channel (al_Telegram a)"
  "pd_ApiKey (al_Pagerduty (enableDeprecated a)) = pd_ApiKey (al_Pagerduty a)"
  by (auto simp: enableDeprecated_def Let_def)

text \<open>The settings a chain ends up with: its own where it has one, the process's otherwise.\<close>

definition orDefault :: "string \<Rightarrow> string \<Rightarrow> string" where
  "orDefault own common = (if own = '''' then common else own)"

lemma defaults_frame [simp]:
  "al_Discord (pagerdutyDefaults c a) = al_Discord a" "al_Discord (telegramChannelDefaults c a) = al_Discord a"
  "al_Discord (telegramKeyDefaults c a) = al_Discord a" "al_Discord (slackDefaults c a) = al_Discord a"
  "al_Slack (pagerdutyDefaults c a) = al_Slack a" "al_Slack (telegramChannelDefaults c a) = al_Slack a"
  "al_Slack (telegramKeyDefaults c a) = al_Slack a" "al_Slack (discordDefaults c a) = al_Slack a"
  "al_Telegram (pagerdutyDefaults c a) = al_Telegram a" "al_Telegram (slackDefaults c a) = al_Telegram a"
  "al_Telegram (discordDefaults c a) = al_Telegram a"
  "al_Pagerduty (telegramChannelDefaults c a) = al_Pagerduty a" "al_Pagerduty (telegramKeyDefaults c a) = al_Pagerduty a"
  "al_Pagerduty (slackDefaults c a) = al_Pagerduty a" "al_Pagerduty (discordDefaults c a) = al_Pagerduty a"
  by (simp_all add: defaults_defs)

lemma defaults_own:
  "di_Enabled (al_Discord (discordDefaults c a)) = di_Enabled (al_Discord a)"
  "di_Webhook (al_Discord (discordDefaults c a)) = orDefault (di_Webhook (al_Discord a)) (di_Webhook (Discord c))"
  "slk_Enabled (al_Slack (slackDefaults c a)) = slk_Enabled (al_Slack a)"
  "slk_Webhook (al_Slack (slackDefaults c a)) = orDefault (slk_Webhook (al_Slack a)) (slk_Webhook (Slack c))"
  "pd_Enabled (al_Pagerduty (pagerdutyDefaults c a)) = pd_Enabled (al_Pagerduty a)"
  "pd_ApiKey (al_Pagerduty (pagerdutyDefaults c a)) = orDefault (pd_ApiKey (al_Pagerduty a)) (pd_ApiKey (Pagerduty c))"
  "tg_Enabled (al_Telegram (telegramKeyDefaults c a)) = tg_Enabled (al_Telegram a)"
  "tg_ApiKey (al_Telegram (telegramKeyDefaults c a)) = orDefault (tg_ApiKey (al_Telegram a)) (tg_ApiKey (Telegram c))"
  "tg_Channel (al_Telegram (telegramKeyDefaults c a)) = tg_Channel (al_Telegram a)"
  "tg_Enabled (al_Telegram (telegramChannelDefaults c a)) = tg_Enabled (al_Telegram a)"
  "tg_ApiKey (al_Telegram (telegramChannelDefaults c a)) = tg_ApiKey (al_Telegram a)"
  "tg_Channel (al_Telegram (telegramChannelDefaults c a)) = orDefault (tg_Channel (al_Telegram a)) (tg_Channel (Telegram c))"
  by (simp_all add: defaults_defs orDefault_def)

lemma copyDefaults_enabled [simp]:
  "di_Enabled (al_Discord (copyDefaults c a)) = di_Enabled (al_Discord a)"
  "slk_Enabled (al_Slack (copyDefaults c a)) = slk_Enabled (al_Slack a)"
  "pd_Enabled (al_Pagerduty (copyDefaults c a)) = pd_Enabled (al_Pagerduty a)"
  "tg_Enabled (al_Telegram (copyDefaults c a)) = tg_Enabled (al_Telegram a)"
  by (simp_all add: copyDefaults_def defaults_own)

text \<open>Every destination is switched on as configured and has an address if there is one.\<close>

definition addressed :: "Config \<Rightarrow> AlertConfig \<Rightarrow> AlertConfig \<Rightarrow> bool" where
  "addressed c a a' \<longleftrightarrow>
     di_Enabled (al_Discord a') = (di_Enabled (al_Discord a) \<or> DiscordAlerts a) \<and>
     tg_Enabled (al_Telegram a') = (tg_Enabled (al_Telegram a) \<or> TelegramAlerts a) \<and>
     pd_Enabled (al_Pagerduty a') = (pd_Enabled (al_Pagerduty a) \<or> PagerdutyAlerts a) \<and>
     slk_Enabled (al_Slack a') = slk_Enabled (al_Slack a) \<and>
     di_Webhook (al_Discord a') = orDefault (di_Webhook (al_Discord a)) (di_Webhook (Discord c)) \<and>
     slk_Webhook (al_Slack a') = orDefault (slk_Webhook (al_Slack a)) (slk_Webhook (Slack c)) \<and>
     tg_ApiKey (al_Telegram a') = orDefault (tg_ApiKey (al_Telegram a)) (tg_ApiKey (Telegram c)) \<and>
     tg_Channel (al_Telegram a') = orDefault (tg_Channel (al_Telegram a)) (tg_Channel (Telegram c)) \<and>
     pd_ApiKey (al_Pagerduty a') = orDefault (pd_ApiKey (al_Pagerduty a)) (pd_ApiKey (Pagerduty c))"

lemma addressed_copy: "addressed c a (copyDefaults c (enableDeprecated a))"
  by (simp add: addressed_def copyDefaults_def defaults_own)

lemma validateConfig_validating:
  assumes "m_wf (Chains c)" "validateConfig env c = (fatal, problems, wantsPublic, td)"
  obtains ps where "validating (m_entries (Chains c)) ps c problems td"
proof -
  obtain ps where "fold validateChain (m_entries (Chains c)) (ps, c) = (problems, td)"
    using assms(2) by (auto simp: validateConfig_def Let_def split: prod.splits)
  then show ?thesis using that validate_fold assms(1) by (metis m_wf_def m_keys_def)
qed

lemma validated_chains:
  assumes "m_wf (Chains c)" "validateConfig env c = (fatal, problems, wantsPublic, td)"
  shows "chainAt td k = map_option (validated c k) (chainAt c k)" "m_wf (Chains td)"
    "Chains c \<noteq> NilMap \<Longrightarrow> Chains td \<noteq> NilMap"
    "td = c\<lparr>Chains := Chains td, updateChan := updateChan c @ (if EnableDash c
        then map (\<lambda>(k, v). startStatus notConnected (validated c k v)) (m_entries (Chains c)) else [])\<rparr>"
proof -
  obtain ps where v: "validating (m_entries (Chains c)) ps c problems td"
    using validateConfig_validating [OF assms] .
  show "chainAt td k = map_option (validated c k) (chainAt c k)"
    using v by (auto simp: validating_def m_lookup_def [of "Chains c"] split: option.split)
  show "m_wf (Chains td)" "Chains c \<noteq> NilMap \<Longrightarrow> Chains td \<noteq> NilMap"
    "td = c\<lparr>Chains := Chains td, updateChan := updateChan c @ (if EnableDash c
        then map (\<lambda>(k, v). startStatus notConnected (validated c k v)) (m_entries (Chains c)) else [])\<rparr>"
    using v assms(1) unfolding validating_def by blast+
qed

section \<open>Properties\<close>

lemma fold_chain_channels:
  fixes f :: "'v \<Rightarrow> ChainConfig \<Rightarrow> ChainConfig"
  defines "step \<equiv> \<lambda>(k, v) t. case chainAt t k of None \<Rightarrow> t | Some cc \<Rightarrow> putChain k (f v cc) t"
  shows "alertChan (fold step al td) = alertChan td" "updateChan (fold step al td) = updateChan td"
    "accepting (fold step al td) = accepting td"
proof (induction al arbitrary: td)
  case (Cons e al)
  { case 1 then show ?case using Cons(1) by (cases e) (auto simp: step_def split: option.splits) }
  { case 2 then show ?case using Cons(2) by (cases e) (auto simp: step_def split: option.splits) }
  { case 3 then show ?case using Cons(3) by (cases e) (auto simp: step_def split: option.splits) }
qed simp_all

lemma restore_channels:
  "alertChan (restoreSavedState clock s td) = alertChan td" "updateChan (restoreSavedState clock s td) = updateChan td"
  "accepting (restoreSavedState clock s td) = accepting td"
  unfolding restoreSavedState_def restoreBlocks_def restoreNodesDown_def
  by (simp_all add: Let_def fold_chain_channels split: option.split)

lemma loadConfig_channels:
  assumes "loadConfig env yamlFile stateFile dir password = Some (Inr c)"
  shows "alertChan c = [] \<and> updateChan c = [] \<and> \<not> accepting c"
  by (rule loadConfig_Inr [OF assms]) (simp add: restore_channels)

lemma startConfig_Inr:
  assumes "startConfig env configFile stateFile dir password = Some (Inr td)"
  obtains c problems wantsPublic where "loadConfig env configFile stateFile dir password = Some (Inr c)"
    "validateConfig env c = (False, problems, wantsPublic, td)"
  using assms by (auto simp: startConfig_def split: Option.bind_splits sum.splits prod.splits if_splits)

lemma startConfig_wf:
  assumes "env_ok env" "startConfig env configFile stateFile dir password = Some (Inr td)"
  shows "td_wf td"
proof -
  obtain c problems wantsPublic where load: "loadConfig env configFile stateFile dir password = Some (Inr c)"
    and valid: "validateConfig env c = (False, problems, wantsPublic, td)" by (rule startConfig_Inr [OF assms(2)])
  note c = loadConfig_unnamed [OF assms(1) load]
  have wf: "m_wf (Chains c)" "Chains c \<noteq> NilMap" using c(1) by (simp_all add: unnamed_def)
  note v = validated_chains [OF wf(1) valid]
  have "alarms td = alarms c" by (subst v(4), simp)
  moreover have "chainAt td k = Some cc \<Longrightarrow> name cc = k" for k cc using c(1) v(1) [of k] by (auto simp: unnamed_def)
  ultimately show ?thesis using v(2) v(3) [OF wf(2)] c(2) by (simp add: td_wf_def)
qed

text \<open>C12: A process that starts is well-formed: its store of chains exists, every chain object carries the
  name of its key, and its alarm cache is well-formed, whatever state was restored. This is the
  hypothesis of the monitoring theorems. The alert queue is empty and closed, and the statuses sent during validation
  fit into the channel, whose capacity is twice the number of chains. Every chain is the
  loaded one with its own notification settings completed by those of the process, has a history of blocks,
  and shows \<open>not connected\<close> as its validator.
\<close>

theorem startup_well_formed:
  assumes "env_ok env" "startConfig env configFile stateFile dir password = Some (Inr td)"
  shows "td_wf td \<and> alertChan td = [] \<and> \<not> accepting td \<and> length (updateChan td) \<le> 2 * m_len (Chains td) \<and>
    (\<exists>c. loadConfig env configFile stateFile dir password = Some (Inr c) \<and>
       (\<forall>k cc. chainAt td k = Some cc \<longrightarrow>
          blocksResults cc \<noteq> [] \<and> valInfo cc = Some notConnected \<and>
          (\<exists>v. chainAt c k = Some v \<and> addressed c (Alerts v) (Alerts cc) \<and> Nodes cc = Nodes v \<and>
               (blocksResults v \<noteq> [] \<longrightarrow> blocksResults cc = blocksResults v))))"
proof -
  obtain c problems wantsPublic where load: "loadConfig env configFile stateFile dir password = Some (Inr c)"
    and valid: "validateConfig env c = (False, problems, wantsPublic, td)" by (rule startConfig_Inr [OF assms(2)])
  note c = loadConfig_unnamed [OF assms(1) load]
  have wf: "m_wf (Chains c)" "Chains c \<noteq> NilMap" using c(1) by (simp_all add: unnamed_def)
  note v = validated_chains [OF wf(1) valid]
  have alarms: "alarms td = alarms c" "alertChan td = alertChan c" "accepting td = accepting c"
    by (subst v(4), simp)+
  have "td_wf td" using assms by (rule startConfig_wf)
  moreover have "dom (chainAt td) = dom (chainAt c)" using v(1) by (auto simp: dom_def)
  then have "m_len (Chains td) = m_len (Chains c)" using v(2) wf(1) by (simp add: m_len_card)
  then have "length (updateChan td) \<le> 2 * m_len (Chains td)"
    using loadConfig_channels [OF load] by (subst v(4)) (simp add: m_len_def)
  moreover have "blocksResults cc \<noteq> [] \<and> valInfo cc = Some notConnected \<and>
      (\<exists>v. chainAt c k = Some v \<and> addressed c (Alerts v) (Alerts cc) \<and> Nodes cc = Nodes v \<and>
           (blocksResults v \<noteq> [] \<longrightarrow> blocksResults cc = blocksResults v))"
    if "chainAt td k = Some cc" for k cc
    using that v(1) [of k] addressed_copy by (auto simp: showBLocks_def split: if_splits)
  ultimately show ?thesis using load loadConfig_channels [OF load] alarms by simp
qed

text \<open>The warning that a chain uses a service the process has not enabled: because the clauses of the
  switch fall through, it is printed for every service that comes after a service it is true of, in the order
  Slack, Discord, PagerDuty, Telegram, whether or not the chain uses that service.
\<close>

theorem not_enabled_warnings:
  "(notEnabledWarning k ''slack'' \<in> set (alertProblems c k a)) = (slk_Enabled (al_Slack a) \<and> \<not> slk_Enabled (Slack c)) \<and>
   (notEnabledWarning k ''discord'' \<in> set (alertProblems c k a)) =
     (slk_Enabled (al_Slack a) \<and> \<not> slk_Enabled (Slack c) \<or> di_Enabled (al_Discord a) \<and> \<not> di_Enabled (Discord c)) \<and>
   (notEnabledWarning k ''pagerduty'' \<in> set (alertProblems c k a)) =
     (slk_Enabled (al_Slack a) \<and> \<not> slk_Enabled (Slack c) \<or> di_Enabled (al_Discord a) \<and> \<not> di_Enabled (Discord c) \<or>
      pd_Enabled (al_Pagerduty a) \<and> \<not> pd_Enabled (Pagerduty c)) \<and>
   (notEnabledWarning k ''telegram'' \<in> set (alertProblems c k a)) =
     (slk_Enabled (al_Slack a) \<and> \<not> slk_Enabled (Slack c) \<or> di_Enabled (al_Discord a) \<and> \<not> di_Enabled (Discord c) \<or>
      pd_Enabled (al_Pagerduty a) \<and> \<not> pd_Enabled (Pagerduty c) \<or> tg_Enabled (al_Telegram a) \<and> \<not> tg_Enabled (Telegram c))"
  unfolding alertProblems_def notEnabledWarning_def noTypesWarning_def noNotificationsWarning_def
  by (intro conjI; auto)

text \<open>The files of the directory that count, and the one that wins for a name: the last.\<close>

definition chainFiles :: "string \<Rightarrow> (string \<times> bool) list \<Rightarrow> string list" where
  "chainFiles k files = filter (\<lambda>f. chainFileName f = k) (map fst (filter (\<lambda>(f, isDir). \<not> isDir \<and> HasSuffix f ''.yml'') files))"


lemma chain_file_first_dot: "CHR ''.'' \<notin> set a \<Longrightarrow> chainFileName (a @ ''.'' @ b @ ''.yml'') = a"
  by (simp add: chainFileName_def takeWhile_append)

lemma readMainConfig_returns:
  assumes "crypto_ok (cryptoOf env)"
  shows "\<exists>r. readMainConfig env yamlFile password = Some r"
proof -
  have "\<exists>r. decrypt (cryptoOf env) b password = Some r" for b by (rule decrypt_returns [OF assms])
  then show ?thesis
    unfolding readMainConfig_def by (auto split: sum.split Option.bind_split) (metis option.distinct(1))+
qed

text \<open>Loading panics in exactly one case: the main file and every file of the directory decode, and
  some chain has an empty value, a nil pointer that binding the chains to the shared lock dereferences. Every other
  failure is an error value.
\<close>

theorem load_panics_iff:
  assumes "crypto_ok (cryptoOf env)"
  shows "loadConfig env yamlFile stateFile dir password = None \<longleftrightarrow>
    (\<exists>yc chainMap k. readMainConfig env yamlFile password = Some (Inr yc) \<and>
       loadChainFiles env dir (ReadDir env dir) (yc_Chains yc) = Inr chainMap \<and> (k, None) \<in> set (m_entries chainMap))"
proof -
  obtain r where r: "readMainConfig env yamlFile password = Some r" using readMainConfig_returns [OF assms] by blast
  show ?thesis
  proof (cases r)
    case (Inr yc)
    show ?thesis
    proof (cases "loadChainFiles env dir (ReadDir env dir) (yc_Chains yc)")
      case (Inr chainMap)
      have "bindDurableState chainMap = None \<longleftrightarrow> (\<exists>k. (k, None) \<in> set (m_entries chainMap))"
        by (force simp: bindDurableState_def)
      moreover have "m_entries chainMap = [] \<Longrightarrow> bindDurableState chainMap \<noteq> None" by (simp add: bindDurableState_def)
      ultimately show ?thesis
        using r \<open>r = Inr yc\<close> Inr
        by (cases "bindDurableState chainMap") (auto simp: loadConfig_def Let_def split: sum.split)
    qed (simp add: loadConfig_def r Inr)
  qed (simp add: loadConfig_def r)
qed

text \<open>An environment: one chain in the main file, no directory, no state file.\<close>

definition boot_env :: "(string, ChainConfig option) gmap \<Rightarrow> config_env" where
  "boot_env chainMap =
     \<lparr>httpGet = (\<lambda>_. Inl ''unreachable''), readConfigFile = (\<lambda>_. Inr []), ReadDir = (\<lambda>_. []),
      readChainFile = (\<lambda>_ _. Inl ''no such file''),
      unmarshalConfig = (\<lambda>_. Inr \<lparr>yc_settings = sample_td, yc_Chains = chainMap\<rparr>),
      unmarshalChain = (\<lambda>_. Inl ''bad yaml''), parsesURL = (\<lambda>_. True), cryptoOf = sampleCrypto,
      codecOf = sample_codec, stateReader = (\<lambda>_. Inl NotExist), restoreClock = (\<lambda>_ _. 0)\<rparr>"

definition boot_chain :: ChainConfig where
  "boot_chain = sample_chain\<lparr>name := '''', valInfo := None\<rparr>"

lemma boot_env_ok: "env_ok (boot_env (Map [(''osmosis'', Some boot_chain)]))"
  by (simp add: env_ok_def boot_env_def boot_chain_def m_wf_def m_keys_def m_lookup_def sample_codec_def
      documentOf_def sample_state_def split: if_splits)

lemma boot_starts:
  "\<exists>td. startConfig (boot_env (Map [(''osmosis'', Some boot_chain)])) ''config.yml'' sample_path ''chains.d'' '''' = Some (Inr td)"
  by (simp add: startConfig_def loadConfig_def readMainConfig_def isRemote_def HasPrefix_def decodeConfig_def boot_env_def
      bindDurableState_def loadStateWithReader_def readStateCandidate_def Let_def validateConfig_def sample_td_def restoreSavedState_def
      emptySavedState_def restoreBlocks_def split: prod.split)

theorem startup_well_formed_witness:
  "\<exists>td. startConfig (boot_env (Map [(''osmosis'', Some boot_chain)])) ''config.yml'' sample_path ''chains.d'' '''' = Some (Inr td) \<and>
     td_wf td \<and> alertChan td = []"
  using boot_starts startup_well_formed [OF boot_env_ok] by blast

theorem load_panics_iff_witness: "loadConfig (boot_env (Map [(''osmosis'', None)])) ''config.yml'' sample_path ''chains.d'' '''' = None"
  by (subst load_panics_iff) (simp_all add: boot_env_def sampleCrypto_ok readMainConfig_def isRemote_def HasPrefix_def decodeConfig_def)

end
