(* ===== verification/Lifecycle.thy ===== *)
theory Lifecycle
  imports Rpc "HOL-Library.Multiset"
begin

text \<open>
  Startup, alert ingress and shutdown: \<open>src/seer/run.go\<close> and the ingress accounting of
  \<open>runtime_state.go\<close>.

  The goroutines are interleaved by a step relation. A monitor (\<open>proc\<close>) is outside of
  \<open>Config.alert\<close>, inside it with its message not yet sent, inside it after the send, or
  returned. \<open>alertChan\<close> is a queue of at most 64 messages: a send on a full queue waits, a
  send on a closed one panics. The notification worker takes a message and delivers it. The
  phases are the statements of \<open>shutdown\<close>, which runs once. An ingress refused because
  \<open>accepting\<close> is false leaves everything as it is, and is not a step.

  The lists \<open>granted\<close>, \<open>entered\<close>, \<open>delivered\<close> and \<open>checkpointed\<close> record what happened: alerts
  whose ingress was granted, alerts sent to the channel, alerts delivered, and what had been
  delivered when the snapshot for the state file was taken.

  Shown: no send on a closed channel, no negative counter, the bound of the queue, delivery
  in order, that the checkpoint comes after the delivery of every granted alert, and that a
  shutdown whose timer does not fire ends. The first statements hold with the timer, too.
\<close>

section \<open>State\<close>

definition notificationQueueCapacity :: nat where "notificationQueueCapacity = 64"

datatype proc = Outside | Sending alertMsg | Sent | Returned

datatype worker = NoWorker | Receiving | Delivering alertMsg | WorkerDone

datatype shutdown_result = SavedState | QuiesceTimeout | DrainTimeout | SaveFailed string

datatype phase =
    Running | IngressStopped | Cancelled | WaitMonitors | WaitIngress | Draining | Checkpointing
  | Finished shutdown_result

record life =
  accepts :: bool
  ingressWG :: nat
  queue :: "alertMsg list"
  closed :: bool
  procs :: "proc list"
  notifier :: worker
  ctxDone :: bool
  phase :: phase
  panicked :: bool
  granted :: "alertMsg list"
  entered :: "alertMsg list"
  delivered :: "alertMsg list"
  checkpointed :: "alertMsg list option"

section \<open>Ingress\<close>

definition beginAlertIngress :: "life \<Rightarrow> bool \<times> life" where
  "beginAlertIngress s =
     (if \<not> accepts s then (False, s) else (True, s\<lparr>ingressWG := ingressWG s + 1\<rparr>))"

text \<open>\<open>WaitGroup.Done\<close> panics when the counter would become negative.\<close>

definition finishAlertIngress :: "life \<Rightarrow> life" where
  "finishAlertIngress s =
     (if ingressWG s = 0 then s\<lparr>panicked := True\<rparr> else s\<lparr>ingressWG := ingressWG s - 1\<rparr>)"

definition startAlertIngress :: "life \<Rightarrow> life" where
  "startAlertIngress s = s\<lparr>accepts := True\<rparr>"

definition stopAlertIngress :: "life \<Rightarrow> life" where
  "stopAlertIngress s = s\<lparr>accepts := False\<rparr>"

text \<open>The state that \<open>newRuntimeLifecycle\<close> sets up.\<close>

definition newRuntimeLifecycle :: life where
  "newRuntimeLifecycle =
     startAlertIngress
       \<lparr>accepts = False, ingressWG = 0, queue = [], closed = False, procs = [], notifier = NoWorker,
        ctxDone = False, phase = Running, panicked = False, granted = [], entered = [], delivered = [],
        checkpointed = None\<rparr>"

text \<open>The send of a monitor: it panics on a closed channel, waits on a full one (\<open>None\<close>).\<close>

definition sendAlert :: "nat \<Rightarrow> alertMsg \<Rightarrow> life \<Rightarrow> life option" where
  "sendAlert i m s =
     (if closed s then Some (s\<lparr>panicked := True\<rparr>)
      else if length (queue s) < notificationQueueCapacity
      then Some (s\<lparr>queue := queue s @ [m], entered := entered s @ [m], procs := (procs s)[i := Sent]\<rparr>)
      else None)"

definition monitorsDone :: "life \<Rightarrow> bool" where
  "monitorsDone s = list_all (\<lambda>p. p = Returned) (procs s)"

section \<open>Steps\<close>

inductive lstep :: "bool \<Rightarrow> life \<Rightarrow> life \<Rightarrow> bool" for timer :: bool where
  start_worker: "phase s = Running \<Longrightarrow> notifier s = NoWorker \<Longrightarrow> lstep timer s (s\<lparr>notifier := Receiving\<rparr>)"
| start_monitor: "phase s = Running \<Longrightarrow> notifier s \<noteq> NoWorker \<Longrightarrow> lstep timer s (s\<lparr>procs := procs s @ [Outside]\<rparr>)"
| begin_alert: "i < length (procs s) \<Longrightarrow> procs s ! i = Outside \<Longrightarrow> beginAlertIngress s = (True, s') \<Longrightarrow>
    lstep timer s (s'\<lparr>procs := (procs s)[i := Sending m], granted := granted s @ [m]\<rparr>)"
| send_alert: "i < length (procs s) \<Longrightarrow> procs s ! i = Sending m \<Longrightarrow> sendAlert i m s = Some s' \<Longrightarrow> lstep timer s s'"
| finish_alert: "i < length (procs s) \<Longrightarrow> procs s ! i = Sent \<Longrightarrow>
    lstep timer s (finishAlertIngress (s\<lparr>procs := (procs s)[i := Outside]\<rparr>))"
| monitor_returns: "i < length (procs s) \<Longrightarrow> procs s ! i = Outside \<Longrightarrow>
    lstep timer s (s\<lparr>procs := (procs s)[i := Returned]\<rparr>)"
| receive: "notifier s = Receiving \<Longrightarrow> queue s = m # q \<Longrightarrow> lstep timer s (s\<lparr>queue := q, notifier := Delivering m\<rparr>)"
| deliver: "notifier s = Delivering m \<Longrightarrow>
    lstep timer s (s\<lparr>notifier := Receiving, delivered := delivered s @ [m]\<rparr>)"
| worker_returns: "notifier s = Receiving \<Longrightarrow> queue s = [] \<Longrightarrow> closed s \<Longrightarrow> lstep timer s (s\<lparr>notifier := WorkerDone\<rparr>)"
| stop_ingress: "phase s = Running \<Longrightarrow> lstep timer s ((stopAlertIngress s)\<lparr>phase := IngressStopped\<rparr>)"
| cancel_context: "phase s = IngressStopped \<Longrightarrow> lstep timer s (s\<lparr>ctxDone := True, phase := Cancelled\<rparr>)"
| close_websockets: "phase s = Cancelled \<Longrightarrow> lstep timer s (s\<lparr>phase := WaitMonitors\<rparr>)"
| monitors_done: "phase s = WaitMonitors \<Longrightarrow> monitorsDone s \<Longrightarrow> lstep timer s (s\<lparr>phase := WaitIngress\<rparr>)"
| ingress_done: "phase s = WaitIngress \<Longrightarrow> ingressWG s = 0 \<Longrightarrow>
    lstep timer s (if closed s then s\<lparr>panicked := True\<rparr> else s\<lparr>closed := True, phase := Draining\<rparr>)"
| worker_done: "phase s = Draining \<Longrightarrow> notifier s \<in> {NoWorker, WorkerDone} \<Longrightarrow>
    lstep timer s (s\<lparr>phase := Checkpointing, checkpointed := Some (delivered s)\<rparr>)"
| checkpoint: "phase s = Checkpointing \<Longrightarrow> r = SavedState \<or> (\<exists>e. r = SaveFailed e) \<Longrightarrow>
    lstep timer s (s\<lparr>phase := Finished r\<rparr>)"
| quiesce_timeout: "timer \<Longrightarrow> phase s \<in> {WaitMonitors, WaitIngress} \<Longrightarrow> lstep timer s (s\<lparr>phase := Finished QuiesceTimeout\<rparr>)"
| drain_timeout: "timer \<Longrightarrow> phase s = Draining \<Longrightarrow> lstep timer s (s\<lparr>phase := Finished DrainTimeout\<rparr>)"

section \<open>The loop of a chain's monitor\<close>

datatype monitor_action = RetryLater | RunWebsocket

text \<open>One round of \<open>monitorChain\<close> up to the websocket client.\<close>

definition monitorChainRound ::
  "rpc_env \<Rightarrow> (nat \<Rightarrow> time) \<Rightarrow> string \<Rightarrow> Config \<Rightarrow> (monitor_action \<times> Config) option" where
  "monitorChainRound env clock k td =
     do { (err, td1) \<leftarrow> newRpc env clock k td;
          case err of
            Some e \<Rightarrow> Some (RetryLater, td1)
          | None \<Rightarrow> do { (verr, td2) \<leftarrow> GetValInfo env True k td1; Some (RunWebsocket, td2) } }"

section \<open>The invariant\<close>

text \<open>Messages between the grant and the send, and the number of processes inside \<open>alert\<close>.\<close>

definition sending :: "proc list \<Rightarrow> alertMsg multiset" where
  "sending ps = mset (concat (map (\<lambda>p. case p of Sending m \<Rightarrow> [m] | _ \<Rightarrow> []) ps))"

definition inside :: "proc \<Rightarrow> nat" where
  "inside p = (case p of Sending m \<Rightarrow> 1 | Sent \<Rightarrow> 1 | _ \<Rightarrow> 0)"

definition underway :: "worker \<Rightarrow> alertMsg list" where
  "underway n = (case n of Delivering m \<Rightarrow> [m] | _ \<Rightarrow> [])"

definition quiesced :: "life \<Rightarrow> bool" where
  "quiesced s \<longleftrightarrow> monitorsDone s \<and> ingressWG s = 0"

fun afterCheckpoint :: "phase \<Rightarrow> bool" where
  "afterCheckpoint Checkpointing = True"
| "afterCheckpoint (Finished SavedState) = True"
| "afterCheckpoint (Finished (SaveFailed e)) = True"
| "afterCheckpoint ph = False"

definition life_inv :: "life \<Rightarrow> bool" where
  "life_inv s \<longleftrightarrow>
     \<not> panicked s \<and> length (queue s) \<le> notificationQueueCapacity \<and>
     ingressWG s = sum_list (map inside (procs s)) \<and>
     entered s = delivered s @ underway (notifier s) @ queue s \<and>
     mset (granted s) = mset (entered s) + sending (procs s) \<and>
     (notifier s = NoWorker \<longrightarrow> procs s = [] \<and> queue s = []) \<and>
     (notifier s = WorkerDone \<longrightarrow> closed s \<and> queue s = []) \<and>
     (accepts s \<longleftrightarrow> phase s = Running) \<and>
     (phase s = WaitIngress \<longrightarrow> monitorsDone s \<and> \<not> closed s) \<and>
     (closed s \<longrightarrow> quiesced s) \<and>
     (phase s \<in> {Running, IngressStopped, Cancelled, WaitMonitors} \<longrightarrow> \<not> closed s) \<and>
     (phase s = Draining \<longrightarrow> closed s) \<and>
     (afterCheckpoint (phase s) \<longrightarrow>
        quiesced s \<and> queue s = [] \<and> underway (notifier s) = [] \<and> checkpointed s = Some (delivered s)) \<and>
     (checkpointed s \<noteq> None \<longrightarrow> afterCheckpoint (phase s))"

section \<open>Preservation\<close>

lemma inside_update:
  "i < length ps \<Longrightarrow> sum_list (map inside (ps[i := p])) + inside (ps ! i) = sum_list (map inside ps) + inside p"
proof (induction ps arbitrary: i)
  case (Cons x ps)
  then show ?case by (cases i) (auto simp: algebra_simps)
qed simp

lemma sending_Cons: "sending (p # ps) = sending [p] + sending ps"
  by (simp add: sending_def)

lemma sending_append: "sending (ps @ qs) = sending ps + sending qs"
  by (simp add: sending_def)

lemma sending_update:
  "i < length ps \<Longrightarrow> sending (ps[i := p]) + sending [ps ! i] = sending ps + sending [p]"
proof (induction ps arbitrary: i)
  case (Cons x ps)
  show ?case
  proof (cases i)
    case 0
    then show ?thesis using sending_Cons [of p ps] sending_Cons [of x ps] by (simp add: ac_simps)
  next
    case (Suc j)
    then show ?thesis
      using Cons.IH [of j] Cons.prems sending_Cons [of x "ps[j := p]"] sending_Cons [of x ps] by (simp add: ac_simps)
  qed
qed simp

lemma done_at: "monitorsDone s \<Longrightarrow> i < length (procs s) \<Longrightarrow> procs s ! i = Returned"
  by (simp add: monitorsDone_def list_all_length)

lemma done_update: "monitorsDone s \<Longrightarrow> i < length (procs s) \<Longrightarrow> monitorsDone (s\<lparr>procs := (procs s)[i := Returned]\<rparr>)"
  by (auto simp: monitorsDone_def list_all_length nth_list_update)

lemma sending_simps [simp]: "sending [Outside] = {#}" "sending [Sent] = {#}" "sending [Returned] = {#}"
  "sending [Sending m] = {#m#}" "sending [] = {#}"
  by (simp_all add: sending_def)

lemma inside_simps [simp]: "inside Outside = 0" "inside Sent = 1" "inside Returned = 0" "inside (Sending m) = 1"
  by (simp_all add: inside_def)

lemma underway_simps [simp]: "underway NoWorker = []" "underway Receiving = []" "underway WorkerDone = []"
  "underway (Delivering m) = [m]"
  by (simp_all add: underway_def)

lemma monitorsDone_frame [simp]:
  "monitorsDone (s\<lparr>notifier := n\<rparr>) = monitorsDone s" "monitorsDone (s\<lparr>queue := q\<rparr>) = monitorsDone s"
  "monitorsDone (s\<lparr>phase := ph\<rparr>) = monitorsDone s" "monitorsDone (s\<lparr>delivered := xs\<rparr>) = monitorsDone s"
  "monitorsDone (s\<lparr>closed := b\<rparr>) = monitorsDone s" "monitorsDone (s\<lparr>checkpointed := c\<rparr>) = monitorsDone s"
  "monitorsDone (s\<lparr>accepts := b\<rparr>) = monitorsDone s" "monitorsDone (s\<lparr>ctxDone := b\<rparr>) = monitorsDone s"
  by (simp_all add: monitorsDone_def)

lemma quiesced_frame [simp]:
  "quiesced (s\<lparr>notifier := n\<rparr>) = quiesced s" "quiesced (s\<lparr>queue := q\<rparr>) = quiesced s"
  "quiesced (s\<lparr>phase := ph\<rparr>) = quiesced s" "quiesced (s\<lparr>delivered := xs\<rparr>) = quiesced s"
  "quiesced (s\<lparr>closed := b\<rparr>) = quiesced s" "quiesced (s\<lparr>checkpointed := c\<rparr>) = quiesced s"
  "quiesced (s\<lparr>accepts := b\<rparr>) = quiesced s" "quiesced (s\<lparr>ctxDone := b\<rparr>) = quiesced s"
  by (simp_all add: quiesced_def)

text \<open>A process that is not back keeps the channel open and the shutdown from going on.\<close>

lemma active_open:
  assumes "life_inv s" "i < length (procs s)" "procs s ! i \<noteq> Returned"
  shows "\<not> closed s" "\<not> monitorsDone s" "notifier s \<noteq> NoWorker" "notifier s \<noteq> WorkerDone"
    "phase s \<notin> {WaitIngress, Draining}" "\<not> afterCheckpoint (phase s)" "checkpointed s = None"
proof -
  show m: "\<not> monitorsDone s" using done_at assms(2,3) by blast
  then show "\<not> closed s" using assms(1) by (auto simp: life_inv_def quiesced_def)
  then show "notifier s \<noteq> NoWorker" "notifier s \<noteq> WorkerDone" using assms by (auto simp: life_inv_def)
  show "phase s \<notin> {WaitIngress, Draining}" "\<not> afterCheckpoint (phase s)" "checkpointed s = None"
    using assms(1) m by (auto simp: life_inv_def quiesced_def)
qed


text \<open>While a process is inside or may enter, the invariant is about the counters and lists only.\<close>

lemma life_inv_active:
  assumes "life_inv s" "i < length (procs s)" "procs s ! i \<noteq> Returned"
    and "\<not> panicked t" "length (queue t) \<le> notificationQueueCapacity"
      "ingressWG t = sum_list (map inside (procs t))"
      "entered t = delivered t @ underway (notifier t) @ queue t"
      "mset (granted t) = mset (entered t) + sending (procs t)"
    and "notifier t = notifier s" "accepts t = accepts s" "phase t = phase s" "closed t = closed s"
      "delivered t = delivered s" "checkpointed t = checkpointed s"
  shows "life_inv t"
proof -
  note a = active_open [OF assms(1-3)]
  have "accepts s \<longleftrightarrow> phase s = Running" using assms(1) by (simp add: life_inv_def)
  with a assms(4-) show ?thesis unfolding life_inv_def by simp
qed

lemma begin_inv:
  assumes "life_inv s" "i < length (procs s)" "procs s ! i = Outside" "beginAlertIngress s = (True, s')"
  shows "life_inv (s'\<lparr>procs := (procs s)[i := Sending m], granted := granted s @ [m]\<rparr>)"
proof -
  have s': "s' = s\<lparr>ingressWG := ingressWG s + 1\<rparr>" using assms(4) by (simp add: beginAlertIngress_def split: if_splits)
  show ?thesis
    using assms(1) inside_update [OF assms(2), of "Sending m"] sending_update [OF assms(2), of "Sending m"] assms(3)
    by (intro life_inv_active [OF assms(1,2)]) (simp_all add: s' life_inv_def)
qed

lemma send_inv:
  assumes "life_inv s" "i < length (procs s)" "procs s ! i = Sending m" "sendAlert i m s = Some t"
  shows "life_inv t"
proof -
  have "\<not> closed s" using active_open [OF assms(1,2)] assms(3) by simp
  then have t: "t = s\<lparr>queue := queue s @ [m], entered := entered s @ [m], procs := (procs s)[i := Sent]\<rparr>"
    "length (queue s) < notificationQueueCapacity"
    using assms(4) by (simp_all add: sendAlert_def split: if_splits)
  show ?thesis
    using assms(1) inside_update [OF assms(2), of Sent] sending_update [OF assms(2), of Sent] assms(3) t(2)
    by (intro life_inv_active [OF assms(1,2)]) (simp_all add: t(1) life_inv_def)
qed

lemma finish_inv:
  assumes "life_inv s" "i < length (procs s)" "procs s ! i = Sent"
  shows "life_inv (finishAlertIngress (s\<lparr>procs := (procs s)[i := Outside]\<rparr>))"
proof -
  have "ingressWG s = sum_list (map inside (procs s))" using assms(1) by (simp add: life_inv_def)
  then have "ingressWG s \<noteq> 0" using inside_update [OF assms(2), of Outside] assms(3) by (simp del: sum_list_eq_0_iff)
  then have eq: "finishAlertIngress (s\<lparr>procs := (procs s)[i := Outside]\<rparr>) =
      s\<lparr>procs := (procs s)[i := Outside], ingressWG := ingressWG s - 1\<rparr>"
    by (simp add: finishAlertIngress_def)
  show ?thesis unfolding eq
    using assms(1) inside_update [OF assms(2), of Outside] sending_update [OF assms(2), of Outside] assms(3)
    by (intro life_inv_active [OF assms(1,2)]) (simp_all add: life_inv_def)
qed

lemma return_inv:
  assumes "life_inv s" "i < length (procs s)" "procs s ! i = Outside"
  shows "life_inv (s\<lparr>procs := (procs s)[i := Returned]\<rparr>)"
  using assms(1) inside_update [OF assms(2), of Returned] sending_update [OF assms(2), of Returned] assms(3)
  by (intro life_inv_active [OF assms(1,2)]) (simp_all add: life_inv_def)

lemma new_monitor_inv:
  assumes "life_inv s" "phase s = Running" "notifier s \<noteq> NoWorker"
  shows "life_inv (s\<lparr>procs := procs s @ [Outside]\<rparr>)"
  using assms by (auto simp: life_inv_def sending_append)

text \<open>As long as the worker has something to do, no checkpoint was taken.\<close>

lemma working_inv:
  assumes "life_inv s" "underway (notifier s) @ queue s \<noteq> []" "notifier s \<noteq> NoWorker"
    and "length (queue t) \<le> notificationQueueCapacity" "entered t = delivered t @ underway (notifier t) @ queue t"
      "notifier t \<noteq> NoWorker" "notifier t \<noteq> WorkerDone"
    and "panicked t = panicked s" "ingressWG t = ingressWG s" "procs t = procs s" "granted t = granted s" "entered t = entered s"
      "accepts t = accepts s" "phase t = phase s" "closed t = closed s" "checkpointed t = checkpointed s"
  shows "life_inv t"
proof -
  have "\<not> afterCheckpoint (phase s)" "checkpointed s = None" using assms(1,2) by (auto simp: life_inv_def)
  moreover have "monitorsDone t = monitorsDone s" "quiesced t = quiesced s"
    using assms by (simp_all add: monitorsDone_def quiesced_def)
  ultimately show ?thesis using assms(1,4-) unfolding life_inv_def by simp
qed

lemma receive_inv:
  assumes "life_inv s" "notifier s = Receiving" "queue s = m # q"
  shows "life_inv (s\<lparr>queue := q, notifier := Delivering m\<rparr>)"
  using assms(1) by (intro working_inv [OF assms(1)]) (simp_all add: assms(2,3) life_inv_def)

lemma deliver_inv:
  assumes "life_inv s" "notifier s = Delivering m"
  shows "life_inv (s\<lparr>notifier := Receiving, delivered := delivered s @ [m]\<rparr>)"
  using assms(1) by (intro working_inv [OF assms(1)]) (simp_all add: assms(2) life_inv_def)


lemma phase_inv:
  assumes "life_inv s"
  shows "phase s = Running \<Longrightarrow> notifier s = NoWorker \<Longrightarrow> life_inv (s\<lparr>notifier := Receiving\<rparr>)"
    "phase s = Running \<Longrightarrow> life_inv ((stopAlertIngress s)\<lparr>phase := IngressStopped\<rparr>)"
    "phase s = IngressStopped \<Longrightarrow> life_inv (s\<lparr>ctxDone := True, phase := Cancelled\<rparr>)"
    "phase s = Cancelled \<Longrightarrow> life_inv (s\<lparr>phase := WaitMonitors\<rparr>)"
    "phase s = WaitMonitors \<Longrightarrow> monitorsDone s \<Longrightarrow> life_inv (s\<lparr>phase := WaitIngress\<rparr>)"
    "phase s = WaitIngress \<Longrightarrow> ingressWG s = 0 \<Longrightarrow> life_inv (s\<lparr>closed := True, phase := Draining\<rparr>)"
    "phase s = WaitMonitors \<Longrightarrow> life_inv (s\<lparr>phase := Finished QuiesceTimeout\<rparr>)"
    "phase s = WaitIngress \<Longrightarrow> life_inv (s\<lparr>phase := Finished QuiesceTimeout\<rparr>)"
    "phase s = Draining \<Longrightarrow> life_inv (s\<lparr>phase := Finished DrainTimeout\<rparr>)"
  using assms unfolding life_inv_def stopAlertIngress_def quiesced_def by (clarsimp simp del: sum_list_eq_0_iff)+

lemma worker_done_inv:
  assumes "life_inv s"
  shows "notifier s = Receiving \<Longrightarrow> queue s = [] \<Longrightarrow> closed s \<Longrightarrow> life_inv (s\<lparr>notifier := WorkerDone\<rparr>)"
    "phase s = Draining \<Longrightarrow> notifier s = NoWorker \<Longrightarrow>
      life_inv (s\<lparr>phase := Checkpointing, checkpointed := Some (delivered s)\<rparr>)"
    "phase s = Draining \<Longrightarrow> notifier s = WorkerDone \<Longrightarrow>
      life_inv (s\<lparr>phase := Checkpointing, checkpointed := Some (delivered s)\<rparr>)"
    "phase s = Checkpointing \<Longrightarrow> life_inv (s\<lparr>phase := Finished SavedState\<rparr>)"
    "phase s = Checkpointing \<Longrightarrow> life_inv (s\<lparr>phase := Finished (SaveFailed e)\<rparr>)"
  using assms unfolding life_inv_def by simp_all

lemma life_step_inv: "lstep timer s t \<Longrightarrow> life_inv s \<Longrightarrow> life_inv t"
proof (induction rule: lstep.induct)
  case (ingress_done s)
  then have "\<not> closed s" by (simp add: life_inv_def)
  with ingress_done phase_inv(6) show ?case by simp
qed (auto intro: begin_inv send_inv finish_inv return_inv new_monitor_inv receive_inv deliver_inv
      phase_inv worker_done_inv)

lemma life_init_inv: "life_inv newRuntimeLifecycle"
  by (simp add: life_inv_def newRuntimeLifecycle_def startAlertIngress_def)

interpretation runtime: invariant_system "\<lambda>s. s = newRuntimeLifecycle" "lstep timer" life_inv
  by unfold_locales (auto intro: life_init_inv life_step_inv)


section \<open>Progress of a shutdown\<close>

fun procEffort :: "proc \<Rightarrow> nat" where
  "procEffort Outside = 1"
| "procEffort (Sending m) = 5"
| "procEffort Sent = 2"
| "procEffort Returned = 0"

fun workerEffort :: "worker \<Rightarrow> nat" where
  "workerEffort Receiving = 1"
| "workerEffort (Delivering m) = 2"
| "workerEffort w = 0"

fun phaseEffort :: "phase \<Rightarrow> nat" where
  "phaseEffort Running = 7"
| "phaseEffort IngressStopped = 6"
| "phaseEffort Cancelled = 5"
| "phaseEffort WaitMonitors = 4"
| "phaseEffort WaitIngress = 3"
| "phaseEffort Draining = 2"
| "phaseEffort Checkpointing = 1"
| "phaseEffort (Finished r) = 0"

text \<open>An upper bound for the number of steps still to come once a shutdown has begun.\<close>

definition effort :: "life \<Rightarrow> nat" where
  "effort s = sum_list (map procEffort (procs s)) + 2 * length (queue s) + workerEffort (notifier s) + phaseEffort (phase s)"

lemma procEffort_update:
  "i < length ps \<Longrightarrow> sum_list (map procEffort (ps[i := p])) + procEffort (ps ! i) = sum_list (map procEffort ps) + procEffort p"
proof (induction ps arbitrary: i)
  case (Cons x ps)
  then show ?case by (cases i) (auto simp: algebra_simps)
qed simp

lemma finish_frame:
  "procs (finishAlertIngress s) = procs s" "queue (finishAlertIngress s) = queue s"
  "notifier (finishAlertIngress s) = notifier s" "phase (finishAlertIngress s) = phase s"
  by (simp_all add: finishAlertIngress_def)

lemma lstep_decreases:
  assumes "lstep timer s t" "life_inv s" "phase s \<noteq> Running"
  shows "effort t < effort s \<and> phase t \<noteq> Running"
  using assms
proof (induction rule: lstep.induct)
  case (begin_alert i s s' m)
  then show ?case by (simp add: life_inv_def beginAlertIngress_def)
next
  case (send_alert i s m s')
  then have "\<not> closed s" using active_open [of s i] by simp
  with send_alert procEffort_update [OF send_alert(1), of Sent] show ?case
    by (auto simp: sendAlert_def effort_def split: if_splits)
next
  case (finish_alert i s)
  then show ?case using procEffort_update [OF finish_alert(1), of Outside] by (simp add: effort_def finish_frame)
next
  case (monitor_returns i s)
  then show ?case using procEffort_update [OF monitor_returns(1), of Returned] by (simp add: effort_def)
next
  case (ingress_done s)
  then have "\<not> closed s" by (simp add: life_inv_def)
  with ingress_done show ?case by (simp add: effort_def)
qed (auto simp: effort_def)

text \<open>Until it has finished, a shutdown can go on without the timer.\<close>

lemma process_goes_on:
  assumes "life_inv s" "i < length (procs s)" "procs s ! i \<noteq> Returned"
  shows "\<exists>t. lstep timer s t"
proof -
  note a = active_open [OF assms]
  consider "procs s ! i = Outside" | m where "procs s ! i = Sending m" | "procs s ! i = Sent" using assms(3) by (cases "procs s ! i") auto
  then show ?thesis
  proof cases
    case (2 m)
    show ?thesis
    proof (cases "length (queue s) < notificationQueueCapacity")
      case True
      then show ?thesis using 2 a assms(2) lstep.send_alert [of i s m] by (auto simp: sendAlert_def)
    next
      case False
      then obtain x q where "queue s = x # q" by (cases "queue s") (auto simp: notificationQueueCapacity_def)
      then show ?thesis using a lstep.receive [of s x q] lstep.deliver [of s] by (cases "notifier s") auto
    qed
  qed (use assms(2) lstep.finish_alert lstep.monitor_returns in blast)+
qed

lemma shutdown_goes_on:
  assumes inv: "life_inv s" and "phase s \<noteq> Running" "\<forall>r. phase s \<noteq> Finished r"
  shows "\<exists>t. lstep timer s t"
proof (cases "phase s")
  case WaitMonitors
  show ?thesis
  proof (cases "monitorsDone s")
    case False
    then obtain i where "i < length (procs s)" "procs s ! i \<noteq> Returned" by (auto simp: monitorsDone_def list_all_length)
    then show ?thesis using process_goes_on [OF inv] by blast
  qed (use WaitMonitors lstep.monitors_done in blast)
next
  case WaitIngress
  then have "monitorsDone s" using inv by (simp add: life_inv_def)
  then have "\<forall>p\<in>set (procs s). inside p = 0" by (auto simp: monitorsDone_def list_all_iff)
  then have "ingressWG s = 0" using inv by (simp add: life_inv_def)
  then show ?thesis using WaitIngress lstep.ingress_done by blast
next
  case Draining
  then have "closed s" using inv by (simp add: life_inv_def)
  then show ?thesis
    using Draining lstep.worker_done [of s] lstep.worker_returns [of s] lstep.receive [of s] lstep.deliver [of s]
    by (cases "notifier s"; cases "queue s") auto
qed (use assms lstep.cancel_context lstep.close_websockets lstep.checkpoint in blast)+

lemma done_sending: "monitorsDone s \<Longrightarrow> sending (procs s) = {#}"
proof -
  assume "monitorsDone s"
  then have "map (\<lambda>p. case p of Sending m \<Rightarrow> [m] | _ \<Rightarrow> []) (procs s) = map (\<lambda>p. []) (procs s)"
    by (auto simp: monitorsDone_def list_all_iff)
  then show ?thesis by (simp add: sending_def)
qed

lemma life_invD:
  assumes "life_inv s"
  shows "\<not> panicked s" "length (queue s) \<le> notificationQueueCapacity"
    "entered s = delivered s @ underway (notifier s) @ queue s" "mset (granted s) = mset (entered s) + sending (procs s)"
    "afterCheckpoint (phase s) \<Longrightarrow> quiesced s \<and> queue s = [] \<and> underway (notifier s) = [] \<and> checkpointed s = Some (delivered s)"
    "checkpointed s \<noteq> None \<Longrightarrow> afterCheckpoint (phase s)"
  using assms unfolding life_inv_def by blast+

text \<open>After the checkpoint everything that was granted has been delivered.\<close>

lemma checkpoint_complete:
  assumes "life_inv s" "afterCheckpoint (phase s)"
  shows "checkpointed s = Some (delivered s)" "entered s = delivered s" "mset (granted s) = mset (delivered s)"
proof -
  note c = life_invD(5) [OF assms]
  show "checkpointed s = Some (delivered s)" using c by blast
  show e: "entered s = delivered s" using c life_invD(3) [OF assms(1)] by simp
  show "mset (granted s) = mset (delivered s)"
    using c life_invD(4) [OF assms(1)] done_sending [of s] e by (simp add: quiesced_def)
qed

interpretation untimed: invariant_system "\<lambda>s. s = newRuntimeLifecycle" "lstep False"
  "\<lambda>s. phase s \<noteq> Finished QuiesceTimeout \<and> phase s \<noteq> Finished DrainTimeout"
proof
  show "phase s \<noteq> Finished QuiesceTimeout \<and> phase s \<noteq> Finished DrainTimeout" if "s = newRuntimeLifecycle" for s
    using that by (simp add: newRuntimeLifecycle_def startAlertIngress_def)
  show "phase t \<noteq> Finished QuiesceTimeout \<and> phase t \<noteq> Finished DrainTimeout"
    if "phase s \<noteq> Finished QuiesceTimeout \<and> phase s \<noteq> Finished DrainTimeout" "lstep False s t" for s t
    using that(2,1)
    by (induction rule: lstep.induct)
      (auto simp: finish_frame beginAlertIngress_def sendAlert_def split: if_splits)
qed

interpretation shutting: descent "lstep timer" "\<lambda>s. life_inv s \<and> phase s \<noteq> Running" effort "\<lambda>s. \<exists>r. phase s = Finished r" for timer
  by unfold_locales (use lstep_decreases life_step_inv shutdown_goes_on in \<open>blast+\<close>)

section \<open>Properties\<close>

text \<open>C3: Under every interleaving of monitors, worker and shutdown: no goroutine sends on the closed channel,
  closes it twice or makes the ingress counter negative; the queue holds at most 64 alerts;
  alerts are delivered in the order they were queued; and when the checkpoint is taken, every
  alert whose ingress was granted has been delivered.\<close>

theorem lifecycle_safe:
  assumes "reach (\<lambda>s. s = newRuntimeLifecycle) (lstep timer) s"
  shows "\<not> panicked s \<and> length (queue s) \<le> 64 \<and> entered s = delivered s @ underway (notifier s) @ queue s \<and>
    (\<forall>ds. checkpointed s = Some ds \<longrightarrow> ds = delivered s \<and> ds = entered s \<and> mset ds = mset (granted s))"
proof -
  have inv: "life_inv s" using assms by (rule runtime.reach_inv)
  have "ds = delivered s \<and> ds = entered s \<and> mset ds = mset (granted s)" if "checkpointed s = Some ds" for ds
    using checkpoint_complete [OF inv life_invD(6) [OF inv]] that by simp
  moreover have "length (queue s) \<le> 64" using life_invD(2) [OF inv] by (simp add: notificationQueueCapacity_def)
  ultimately show ?thesis using life_invD(1,3) [OF inv] by blast
qed

text \<open>C5: A shutdown ends: once it has begun, at most \<open>effort s\<close> steps of all goroutines together remain, and as
  long as the timer does not fire, the only states without a next step are those in which
  the checkpoint was written (or its error is reported) and every granted alert delivered.\<close>

theorem shutdown_terminates:
  assumes "reach (\<lambda>s. s = newRuntimeLifecycle) (lstep False) s" "phase s \<noteq> Running"
  shows "(\<forall>n t. (lstep False ^^ n) s t \<longrightarrow> n \<le> effort s) \<and>
    (\<forall>t. (lstep False)\<^sup>*\<^sup>* s t \<and> (\<nexists>u. lstep False t u) \<longrightarrow>
       (phase t = Finished SavedState \<or> (\<exists>e. phase t = Finished (SaveFailed e))) \<and> mset (delivered t) = mset (granted t))"
proof -
  have inv: "life_inv s" using assms(1) by (rule runtime.reach_inv)
  note live = conjI [OF inv assms(2)]
  have "n \<le> effort s" if "(lstep False ^^ n) s t" for n t
    by (rule shutting.runs_end(1) [OF live that])
  moreover have "(phase t = Finished SavedState \<or> (\<exists>e. phase t = Finished (SaveFailed e))) \<and> mset (delivered t) = mset (granted t)"
    if run: "(lstep False)\<^sup>*\<^sup>* s t" and stuck: "\<nexists>u. lstep False t u" for t
  proof -
    obtain r where t: "life_inv t" and r: "phase t = Finished r" using shutting.runs_end(2) [OF live run stuck] by blast
    moreover have "phase t \<noteq> Finished QuiesceTimeout \<and> phase t \<noteq> Finished DrainTimeout"
      using reach_steps [OF run assms(1)] by (rule untimed.reach_inv)
    ultimately have "r = SavedState \<or> (\<exists>e. r = SaveFailed e)" by (cases r) auto
    moreover from this r have "afterCheckpoint (phase t)" by auto
    ultimately show ?thesis using checkpoint_complete(3) [OF t] r by simp
  qed
  ultimately show ?thesis by (intro conjI allI impI) simp_all
qed

text \<open>A run of the example: one monitor queues one alert.\<close>

definition queued_life :: "alertMsg \<Rightarrow> life" where
  "queued_life m = newRuntimeLifecycle\<lparr>notifier := Receiving, procs := [Sent], ingressWG := 1, queue := [m],
     granted := [m], entered := [m]\<rparr>"

lemma queued_life_reached: "reach (\<lambda>s. s = newRuntimeLifecycle) (lstep timer) (queued_life m)"
proof -
  let ?R = "reach (\<lambda>s. s = newRuntimeLifecycle) (lstep timer)"
  define s0 where "s0 = newRuntimeLifecycle"
  define s1 where "s1 = s0\<lparr>notifier := Receiving\<rparr>"
  define s2 where "s2 = s1\<lparr>procs := [Outside]\<rparr>"
  define s3 where "s3 = s2\<lparr>ingressWG := 1, procs := [Sending m], granted := [m]\<rparr>"
  have s0: "phase s0 = Running" "notifier s0 = NoWorker" "procs s0 = []" "accepts s0" "ingressWG s0 = 0" "granted s0 = []"
    "closed s0 = False" "queue s0 = []" "entered s0 = []"
    by (simp_all add: s0_def newRuntimeLifecycle_def startAlertIngress_def)
  have "?R s0" unfolding s0_def by (rule reach_init) simp
  moreover have "lstep timer s0 s1" unfolding s1_def using s0 by (intro lstep.start_worker) simp_all
  moreover have "lstep timer s1 s2" using lstep.start_monitor [of s1 timer] s0 by (simp add: s2_def s1_def)
  moreover have "lstep timer s2 s3"
    using lstep.begin_alert [of 0 s2 "s2\<lparr>ingressWG := 1\<rparr>" timer m] s0 by (simp add: s3_def s2_def s1_def beginAlertIngress_def)
  moreover have "lstep timer s3 (queued_life m)"
    using lstep.send_alert [of 0 s3 m "queued_life m" timer] s0
    by (simp add: s3_def s2_def s1_def sendAlert_def notificationQueueCapacity_def) (simp add: queued_life_def s0_def)
  ultimately show ?thesis by (meson reach_step)
qed

theorem lifecycle_safe_witness:
  "\<not> panicked (queued_life (sample_msg False)) \<and> length (queue (queued_life (sample_msg False))) \<le> 64 \<and>
   queue (queued_life (sample_msg False)) = [sample_msg False]"
  using lifecycle_safe [OF queued_life_reached [of True]] by (simp add: queued_life_def)

theorem shutdown_terminates_witness:
  "\<nexists>t. (lstep False ^^ 12) ((stopAlertIngress (queued_life (sample_msg False)))\<lparr>phase := IngressStopped\<rparr>) t"
proof -
  let ?s = "(stopAlertIngress (queued_life (sample_msg False)))\<lparr>phase := IngressStopped\<rparr>"
  have "lstep False (queued_life (sample_msg False)) ?s"
    by (rule lstep.stop_ingress) (simp add: queued_life_def newRuntimeLifecycle_def startAlertIngress_def)
  with queued_life_reached have "reach (\<lambda>s. s = newRuntimeLifecycle) (lstep False) ?s" by (rule reach_step)
  from shutdown_terminates [OF this] have "n \<le> 11" if "(lstep False ^^ n) ?s t" for n t
    using that by (fastforce simp: effort_def queued_life_def stopAlertIngress_def newRuntimeLifecycle_def startAlertIngress_def)
  from this [of 12] show ?thesis by auto
qed

text \<open>The websocket client of a chain is started only with a client in place.\<close>

lemma monitor_round_connected:
  assumes "monitorChainRound env clock k td = Some (RunWebsocket, td')"
  shows "\<exists>cc. chainAt td' k = Some cc \<and> client cc \<noteq> None \<and> \<not> noNodes cc"
proof -
  obtain td1 verr where r: "newRpc env clock k td = Some (None, td1)" "GetValInfo env True k td1 = Some (verr, td')"
    using assms by (auto simp: monitorChainRound_def bind_eq_Some_conv split: option.splits)
  then obtain cc where cc: "chainAt td k = Some cc" by (cases "chainAt td k") (auto simp: newRpc_def)
  obtain found cc1 where tn: "tryNodes env clock (\<exists>n\<in>set (Nodes cc). \<not> down n) [0..<length (Nodes cc)] cc = (found, cc1)" by force
  note run = newRpc_run [OF cc tn]
  obtain c where cc1: "chainAt td1 k = Some (connectTo c cc1)"
    using r(1) run by (cases found; cases "publicFallback env cc1") auto
  have keep: "Chains (snd (emitStat u t)) = Chains t" for u t
    using maybe_stat [of True u t] by auto
  from r(2) cc1 have "td' = td1 \<or> (\<exists>v. Chains td' = Chains (putChain k (publishValidatorInfo v False (connectTo c cc1)) td1))"
    by (auto simp: GetValInfo_def Let_def keep split: option.splits sum.splits if_splits)
  then show ?thesis
    using cc1 by (auto simp: connectTo_def setNoNodes_def setRPCClient_def publishValidatorInfo_def putChain_def gmap_simps)
qed

end
