(* ===== verification/Websocket.thy ===== *)
theory Websocket
  imports Blocks
begin

text \<open>
  The websocket session of a chain: \<open>WsRun\<close>, \<open>closeWebSocket\<close>, \<open>closeWebSockets\<close> and
  \<open>NewClientContext\<close> of \<open>src/seer/ws.go\<close>.

  \<open>WsRun\<close> and the five goroutines it starts are interleaved by the step relation \<open>wstep\<close>: the closer waits
  for the context and closes the connection; the reader reads replies and hands them to
  the goroutine of \<open>handleBlocks\<close> or \<open>handleVotes\<close>; these classify them and hand the updates to the status
  goroutine, which runs \<open>statusStep\<close>. All channels are unbuffered, so a hand-over is one step of both sides.
  The flag of a step tells a step of these goroutines (\<open>True\<close>) from one of their environment:
  replies arriving, the connection breaking, the context of the caller ending, and the other goroutines of the process changing the
  shared state.

  The lists \<open>ss_read\<close> and \<open>ss_consumed\<close> record the replies read and the updates consumed.

  Shown: the session returns only when every goroutine has returned and the connection is closed;
  after a cancellation it always gets there; and the updates of blocks and of votes are consumed in the order of the replies,
  none twice and none skipped.
\<close>

section \<open>The client\<close>

text \<open>
  URL parsing (into scheme and rest) and the dial are parameters. A unix socket gets a connection that
  was never dialed.
\<close>

datatype TmConn = Dialed string | Undialed

definition NewClientContext ::
  "(string \<Rightarrow> string + string \<times> string) \<Rightarrow> (string \<Rightarrow> string option) \<Rightarrow> string \<Rightarrow> bool \<Rightarrow> string + TmConn" where
  "NewClientContext parse dial u0 allowInsecure =
     (let u = websocketPath u0
      in case parse u of
           Inl e \<Rightarrow> Inl (''parsing url in NewWsClient '' @ u @ '': '' @ e)
         | Inr (scheme, rest) \<Rightarrow>
             (case normalizeScheme allowInsecure scheme of
                Inl e \<Rightarrow> Inl e
              | Inr (dialUnix, ws) \<Rightarrow>
                  if dialUnix then Inr Undialed
                  else let endpoint = ws @ ''://'' @ rest
                       in case dial endpoint of
                            Some e \<Rightarrow> Inl (''could not dial ws client to '' @ endpoint @ '': '' @ e)
                          | None \<Rightarrow> Inr (Dialed endpoint)))"

definition closeWebSocket :: "ChainConfig \<Rightarrow> ChainConfig" where
  "closeWebSocket cc = (if wsclient cc \<noteq> None then cc\<lparr>wsclient := None\<rparr> else cc)"

definition closeWebSockets :: "Config \<Rightarrow> Config" where
  "closeWebSockets td = fold (\<lambda>(k, cc) t. putChain k (closeWebSocket cc) t) (m_entries (Chains td)) td"

section \<open>State\<close>

datatype ws_main =
    AwaitClient | Dialing string "byte list" | Subscribing "string list" | Watching | Closing | Joining | SessionOver

datatype ws_closer = NoCloser | CloserWaits | CloserDone

datatype ws_reader = NoReader | Reads | Hands ws_reply | ReaderDone

datatype ws_blocks = NoBlocks | BlocksWait time | BlocksSend time StatusUpdate | BlocksDone

datatype ws_votes = NoVotes | VotesWait | VotesSend StatusUpdate | VotesDone

datatype ws_status = NoStatus | StatusWait int | StatusDone

text \<open>A pending message of the connection is \<open>None\<close> when it is not JSON of a reply.\<close>

record session =
  ss_td :: Config
  ss_ctx :: bool
  ss_broken :: bool
  ss_incoming :: "ws_reply option list"
  ss_address :: string
  ss_main :: ws_main
  ss_closer :: ws_closer
  ss_reader :: ws_reader
  ss_blocks :: ws_blocks
  ss_votes :: ws_votes
  ss_status :: ws_status
  ss_read :: "ws_reply list"
  ss_consumed :: "(bool \<times> StatusUpdate) list"

text \<open>The connection of the chain, and an update of its object.\<close>

definition socketOf :: "string \<Rightarrow> Config \<Rightarrow> string option" where
  "socketOf k td = (case chainAt td k of None \<Rightarrow> None | Some cc \<Rightarrow> wsclient cc)"

definition atChain :: "string \<Rightarrow> (ChainConfig \<Rightarrow> ChainConfig) \<Rightarrow> Config \<Rightarrow> Config" where
  "atChain k f td = (case chainAt td k of None \<Rightarrow> td | Some cc \<Rightarrow> putChain k (f cc) td)"

section \<open>Steps\<close>

text \<open>The loop at the start, which waits for a healthy client for two minutes.\<close>

datatype await_result = HealthyClient string "byte list" | AwaitTimeout | AwaitMore

definition awaitClient :: "time \<Rightarrow> time \<Rightarrow> ChainConfig \<Rightarrow> await_result" where
  "awaitClient started now cc =
     (case monitoringSnapshot cc of
        (Some c, Some vi, _) \<Rightarrow>
          if Conspub vi \<noteq> [] then HealthyClient (Remote c) (Conspub vi)
          else if Before started (Add now (- 2 * Minute)) then AwaitTimeout else AwaitMore
      | _ \<Rightarrow> if Before started (Add now (- 2 * Minute)) then AwaitTimeout else AwaitMore)"

text \<open>The goroutines started once the connection is open.\<close>

definition startWorkers :: "time \<Rightarrow> byte list \<Rightarrow> session \<Rightarrow> session" where
  "startWorkers now conspub s =
     s\<lparr>ss_address := normalizeConsensusAddress conspub, ss_main := Subscribing [QueryNewBlock, QueryVote],
       ss_closer := CloserWaits, ss_reader := Reads, ss_blocks := BlocksWait now, ss_votes := VotesWait,
       ss_status := StatusWait (-1)\<rparr>"

text \<open>The status goroutine after an update; it stops when a statistic is refused, that is, when the context is done.\<close>

definition consumed :: "bool \<Rightarrow> StatusUpdate \<Rightarrow> bool \<times> int \<times> Config \<Rightarrow> session \<Rightarrow> session" where
  "consumed isBlock u r s =
     (case r of (go, signState, td) \<Rightarrow>
        s\<lparr>ss_td := td, ss_status := (if go then StatusWait signState else StatusDone), ss_ctx := (ss_ctx s \<or> \<not> go),
          ss_consumed := ss_consumed s @ [(isBlock, u)]\<rparr>)"

definition workersDone :: "session \<Rightarrow> bool" where
  "workersDone s \<longleftrightarrow> ss_closer s \<noteq> CloserWaits \<and> ss_reader s \<in> {NoReader, ReaderDone} \<and>
     ss_blocks s \<in> {NoBlocks, BlocksDone} \<and> ss_votes s \<in> {NoVotes, VotesDone} \<and> ss_status s \<in> {NoStatus, StatusDone}"

text \<open>URL parsing is a parameter; the outcome of a dial is not determined.\<close>

inductive wstep :: "(string \<Rightarrow> string + string \<times> string) \<Rightarrow> string \<Rightarrow> bool \<Rightarrow> session \<Rightarrow> session \<Rightarrow> bool"
  for parse :: "string \<Rightarrow> string + string \<times> string" and k :: string where
  arrives: "wstep parse k False s (s\<lparr>ss_incoming := ss_incoming s @ [m]\<rparr>)"
| breaks: "wstep parse k False s (s\<lparr>ss_broken := True\<rparr>)"
| parent_done: "wstep parse k False s (s\<lparr>ss_ctx := True\<rparr>)"
| others: "chainAt td k \<noteq> None \<Longrightarrow> socketOf k td \<in> {None, socketOf k (ss_td s)} \<Longrightarrow> wstep parse k False s (s\<lparr>ss_td := td\<rparr>)"
| client_healthy: "ss_main s = AwaitClient \<Longrightarrow> chainAt (ss_td s) k = Some cc \<Longrightarrow>
    awaitClient started now cc = HealthyClient u pub \<Longrightarrow> wstep parse k True s (s\<lparr>ss_main := Dialing u pub\<rparr>)"
| client_timeout: "ss_main s = AwaitClient \<Longrightarrow> chainAt (ss_td s) k = Some cc \<Longrightarrow>
    awaitClient started now cc = AwaitTimeout \<Longrightarrow> wstep parse k True s (s\<lparr>ss_main := Closing\<rparr>)"
| client_cancelled: "ss_main s = AwaitClient \<Longrightarrow> chainAt (ss_td s) k = Some cc \<Longrightarrow>
    awaitClient started now cc = AwaitMore \<Longrightarrow> ss_ctx s \<Longrightarrow> wstep parse k True s (s\<lparr>ss_main := Closing\<rparr>)"
| dial_fails: "ss_main s = Dialing u pub \<Longrightarrow> NewClientContext parse dial u True = Inl e \<Longrightarrow>
    wstep parse k True s (s\<lparr>ss_main := Closing\<rparr>)"
| dial_ok: "ss_main s = Dialing u pub \<Longrightarrow> NewClientContext parse dial u True = Inr (Dialed endpoint) \<Longrightarrow>
    wstep parse k True s (startWorkers now pub (s\<lparr>ss_td := atChain k (\<lambda>cc. cc\<lparr>wsclient := Some endpoint\<rparr>) (ss_td s)\<rparr>))"
| subscribe: "ss_main s = Subscribing (q # qs) \<Longrightarrow> wstep parse k True s (s\<lparr>ss_main := Subscribing qs\<rparr>)"
| subscribe_fails: "ss_main s = Subscribing (q # qs) \<Longrightarrow> wstep parse k True s (s\<lparr>ss_ctx := True, ss_main := Closing\<rparr>)"
| subscribed: "ss_main s = Subscribing [] \<Longrightarrow> wstep parse k True s (s\<lparr>ss_main := Watching\<rparr>)"
| client_quits: "ss_main s = Watching \<Longrightarrow> wstep parse k True s (s\<lparr>ss_ctx := True, ss_main := Closing\<rparr>)"
| watch_done: "ss_main s = Watching \<Longrightarrow> ss_ctx s \<Longrightarrow> wstep parse k True s (s\<lparr>ss_main := Closing\<rparr>)"
| close: "ss_main s = Closing \<Longrightarrow>
    wstep parse k True s (s\<lparr>ss_ctx := True, ss_td := atChain k closeWebSocket (ss_td s), ss_main := Joining\<rparr>)"
| join: "ss_main s = Joining \<Longrightarrow> workersDone s \<Longrightarrow> wstep parse k True s (s\<lparr>ss_main := SessionOver\<rparr>)"
| closer: "ss_closer s = CloserWaits \<Longrightarrow> ss_ctx s \<Longrightarrow>
    wstep parse k True s (s\<lparr>ss_td := atChain k closeWebSocket (ss_td s), ss_closer := CloserDone\<rparr>)"
| read_skips: "ss_reader s = Reads \<Longrightarrow> ss_incoming s = m # ms \<Longrightarrow> m = None \<or> m = Some OtherReply \<Longrightarrow>
    wstep parse k True s (s\<lparr>ss_incoming := ms\<rparr>)"
| read_reply: "ss_reader s = Reads \<Longrightarrow> ss_incoming s = Some r # ms \<Longrightarrow> r \<noteq> OtherReply \<Longrightarrow>
    wstep parse k True s (s\<lparr>ss_incoming := ms, ss_reader := Hands r, ss_read := ss_read s @ [r]\<rparr>)"
| read_fails: "ss_reader s = Reads \<Longrightarrow> ss_broken s \<or> socketOf k (ss_td s) = None \<Longrightarrow>
    wstep parse k True s (s\<lparr>ss_ctx := True, ss_reader := ReaderDone\<rparr>)"
| reader_cancelled: "ss_reader s = Hands r \<Longrightarrow> ss_ctx s \<Longrightarrow> wstep parse k True s (s\<lparr>ss_reader := ReaderDone\<rparr>)"
| hand_block: "ss_reader s = Hands (NewBlockReply w) \<Longrightarrow> ss_blocks s = BlocksWait t \<Longrightarrow>
    handleBlocksStep (ss_address s) (BlockArrived now w) t = Update t' u \<Longrightarrow>
    wstep parse k True s (s\<lparr>ss_reader := Reads, ss_blocks := BlocksSend t' u\<rparr>)"
| hand_bad_block: "ss_reader s = Hands (NewBlockReply w) \<Longrightarrow> ss_blocks s = BlocksWait t \<Longrightarrow>
    handleBlocksStep (ss_address s) (BlockArrived now w) t = Quiet t' \<Longrightarrow>
    wstep parse k True s (s\<lparr>ss_reader := Reads, ss_blocks := BlocksWait t'\<rparr>)"
| hand_vote: "ss_reader s = Hands (VoteReply w) \<Longrightarrow> ss_votes s = VotesWait \<Longrightarrow>
    handleVotesStep (ss_address s) w = Some u \<Longrightarrow> wstep parse k True s (s\<lparr>ss_reader := Reads, ss_votes := VotesSend u\<rparr>)"
| hand_other_vote: "ss_reader s = Hands (VoteReply w) \<Longrightarrow> ss_votes s = VotesWait \<Longrightarrow>
    handleVotesStep (ss_address s) w = None \<Longrightarrow> wstep parse k True s (s\<lparr>ss_reader := Reads\<rparr>)"
| idle: "ss_blocks s = BlocksWait t \<Longrightarrow> handleBlocksStep (ss_address s) (LiveTick now) t = Idle \<Longrightarrow>
    wstep parse k True s (s\<lparr>ss_ctx := True, ss_blocks := BlocksDone\<rparr>)"
| blocks_cancelled: "ss_blocks s = BlocksWait t \<or> ss_blocks s = BlocksSend t u \<Longrightarrow> ss_ctx s \<Longrightarrow>
    wstep parse k True s (s\<lparr>ss_blocks := BlocksDone\<rparr>)"
| votes_cancelled: "ss_votes s = VotesWait \<or> ss_votes s = VotesSend u \<Longrightarrow> ss_ctx s \<Longrightarrow>
    wstep parse k True s (s\<lparr>ss_votes := VotesDone\<rparr>)"
| consume_block: "ss_blocks s = BlocksSend t u \<Longrightarrow> ss_status s = StatusWait signState \<Longrightarrow>
    statusStep now stamp k u signState (ss_td s) = Some r \<Longrightarrow>
    wstep parse k True s (consumed True u r (s\<lparr>ss_blocks := BlocksWait t\<rparr>))"
| consume_vote: "ss_votes s = VotesSend u \<Longrightarrow> ss_status s = StatusWait signState \<Longrightarrow>
    statusStep now stamp k u signState (ss_td s) = Some r \<Longrightarrow>
    wstep parse k True s (consumed False u r (s\<lparr>ss_votes := VotesWait\<rparr>))"
| status_cancelled: "ss_status s = StatusWait signState \<Longrightarrow> ss_ctx s \<Longrightarrow> wstep parse k True s (s\<lparr>ss_status := StatusDone\<rparr>)"

text \<open>A session starts with no connection and no goroutine.\<close>

definition session_start :: "string \<Rightarrow> session \<Rightarrow> bool" where
  "session_start k s \<longleftrightarrow> chainAt (ss_td s) k \<noteq> None \<and> socketOf k (ss_td s) = None \<and> ss_main s = AwaitClient \<and>
     ss_closer s = NoCloser \<and> ss_reader s = NoReader \<and> ss_blocks s = NoBlocks \<and> ss_votes s = NoVotes \<and>
     ss_status s = NoStatus \<and> ss_read s = [] \<and> ss_consumed s = []"

section \<open>Order of the updates\<close>

fun blockUpdates :: "string \<Rightarrow> ws_reply \<Rightarrow> StatusUpdate list" where
  "blockUpdates addr (NewBlockReply w) =
     (case decodeBlockEvent w of None \<Rightarrow> [] | Some event \<Rightarrow> [classifyBlockEvent event addr])"
| "blockUpdates addr _ = []"

fun voteUpdates :: "string \<Rightarrow> ws_reply \<Rightarrow> StatusUpdate list" where
  "voteUpdates addr (VoteReply w) = (case handleVotesStep addr w of None \<Rightarrow> [] | Some u \<Rightarrow> [u])"
| "voteUpdates addr _ = []"

definition consumedOf :: "bool \<Rightarrow> session \<Rightarrow> StatusUpdate list" where
  "consumedOf b s = map snd (filter (\<lambda>e. fst e = b) (ss_consumed s))"

definition blockInHand :: "session \<Rightarrow> StatusUpdate list" where
  "blockInHand s = (case ss_blocks s of BlocksSend t u \<Rightarrow> [u] | _ \<Rightarrow> [])"

definition voteInHand :: "session \<Rightarrow> StatusUpdate list" where
  "voteInHand s = (case ss_votes s of VotesSend u \<Rightarrow> [u] | _ \<Rightarrow> [])"

definition replyInHand :: "session \<Rightarrow> ws_reply list" where
  "replyInHand s = (case ss_reader s of Hands r \<Rightarrow> [r] | _ \<Rightarrow> [])"

definition updatesOf :: "(ws_reply \<Rightarrow> StatusUpdate list) \<Rightarrow> ws_reply list \<Rightarrow> StatusUpdate list" where
  "updatesOf f rs = concat (map f rs)"

text \<open>
  A pipe from the reader over one handler to the status goroutine: as long as both live, what was consumed, what the handler
  holds and what the reader holds is everything that was read; afterwards the last items may be lost.
\<close>

definition pipe :: "bool \<Rightarrow> bool \<Rightarrow> 'a list \<Rightarrow> 'a list \<Rightarrow> 'a list \<Rightarrow> 'a list \<Rightarrow> bool" where
  "pipe handlerDone readerDone c f h sofar =
     (if handlerDone then prefix c sofar
      else if readerDone then prefix (c @ f) sofar
      else c @ f @ h = sofar)"

definition blockPipe :: "session \<Rightarrow> bool" where
  "blockPipe s = pipe (ss_blocks s = BlocksDone) (ss_reader s = ReaderDone) (consumedOf True s) (blockInHand s)
     (updatesOf (blockUpdates (ss_address s)) (replyInHand s)) (updatesOf (blockUpdates (ss_address s)) (ss_read s))"

definition votePipe :: "session \<Rightarrow> bool" where
  "votePipe s = pipe (ss_votes s = VotesDone) (ss_reader s = ReaderDone) (consumedOf False s) (voteInHand s)
     (updatesOf (voteUpdates (ss_address s)) (replyInHand s)) (updatesOf (voteUpdates (ss_address s)) (ss_read s))"

lemma pipe_prefix: "pipe a b c f h sofar \<Longrightarrow> prefix c sofar"
  by (auto simp: pipe_def prefix_def split: if_splits)

lemma pipe_handler_stops: "pipe a b c f h sofar \<Longrightarrow> pipe True b c f' h' sofar"
  using pipe_prefix [of a b c f h sofar] by (simp add: pipe_def)

lemma pipe_reader_stops: "pipe a b c f h sofar \<Longrightarrow> pipe a True c f h' sofar"
  by (auto simp: pipe_def intro: prefixI [of _ _ h] split: if_splits)

lemma updatesOf_append [simp]: "updatesOf f (xs @ ys) = updatesOf f xs @ updatesOf f ys" "updatesOf f [] = []"
  by (simp_all add: updatesOf_def)

lemma updatesOf_single [simp]: "updatesOf f [r] = f r"
  by (simp add: updatesOf_def)

lemmas pipe_defs = pipe_def consumedOf_def blockInHand_def voteInHand_def replyInHand_def

lemma pipes_read:
  assumes "blockPipe s" "votePipe s" "ss_reader s = Reads"
  shows "blockPipe (s\<lparr>ss_incoming := ms, ss_reader := Hands r, ss_read := ss_read s @ [r]\<rparr>)"
    "votePipe (s\<lparr>ss_incoming := ms, ss_reader := Hands r, ss_read := ss_read s @ [r]\<rparr>)"
  using assms by (auto simp: blockPipe_def votePipe_def pipe_defs prefix_def)

lemma pipes_reader_stops:
  assumes "blockPipe s" "votePipe s"
  shows "blockPipe (s\<lparr>ss_reader := ReaderDone\<rparr>)" "votePipe (s\<lparr>ss_reader := ReaderDone\<rparr>)"
  using assms [unfolded blockPipe_def votePipe_def, THEN pipe_reader_stops]
  by (simp_all add: blockPipe_def votePipe_def consumedOf_def blockInHand_def voteInHand_def)

lemma pipes_hand_block:
  assumes "blockPipe s" "votePipe s" "ss_reader s = Hands (NewBlockReply w)" "ss_blocks s = BlocksWait t"
  shows "handleBlocksStep (ss_address s) (BlockArrived now w) t = Update t' u \<Longrightarrow>
      blockPipe (s\<lparr>ss_reader := Reads, ss_blocks := BlocksSend t' u\<rparr>) \<and> votePipe (s\<lparr>ss_reader := Reads, ss_blocks := BlocksSend t' u\<rparr>)"
    "handleBlocksStep (ss_address s) (BlockArrived now w) t = Quiet t' \<Longrightarrow>
      blockPipe (s\<lparr>ss_reader := Reads, ss_blocks := BlocksWait t'\<rparr>) \<and> votePipe (s\<lparr>ss_reader := Reads, ss_blocks := BlocksWait t'\<rparr>)"
  using assms by (auto simp: blockPipe_def votePipe_def pipe_defs handleBlocksStep_def split: option.splits)

lemma pipes_hand_vote:
  assumes "blockPipe s" "votePipe s" "ss_reader s = Hands (VoteReply w)" "ss_votes s = VotesWait"
  shows "handleVotesStep (ss_address s) w = Some u \<Longrightarrow>
      blockPipe (s\<lparr>ss_reader := Reads, ss_votes := VotesSend u\<rparr>) \<and> votePipe (s\<lparr>ss_reader := Reads, ss_votes := VotesSend u\<rparr>)"
    "handleVotesStep (ss_address s) w = None \<Longrightarrow>
      blockPipe (s\<lparr>ss_reader := Reads\<rparr>) \<and> votePipe (s\<lparr>ss_reader := Reads\<rparr>)"
  using assms by (auto simp: blockPipe_def votePipe_def pipe_defs)

lemma pipes_stop:
  assumes "blockPipe s" "votePipe s"
  shows "blockPipe (s\<lparr>ss_blocks := BlocksDone\<rparr>)" "votePipe (s\<lparr>ss_blocks := BlocksDone\<rparr>)"
    "blockPipe (s\<lparr>ss_votes := VotesDone\<rparr>)" "votePipe (s\<lparr>ss_votes := VotesDone\<rparr>)"
  using assms assms [unfolded blockPipe_def votePipe_def, THEN pipe_handler_stops]
  by (simp_all add: blockPipe_def votePipe_def consumedOf_def blockInHand_def voteInHand_def replyInHand_def)

lemma pipes_consume_block:
  assumes "blockPipe s" "votePipe s" "ss_blocks s = BlocksSend t u"
  shows "blockPipe (consumed True u r (s\<lparr>ss_blocks := BlocksWait t\<rparr>))" "votePipe (consumed True u r (s\<lparr>ss_blocks := BlocksWait t\<rparr>))"
  using assms by (auto simp: blockPipe_def votePipe_def pipe_defs consumed_def split: prod.split)

lemma pipes_consume_vote:
  assumes "blockPipe s" "votePipe s" "ss_votes s = VotesSend u"
  shows "blockPipe (consumed False u r (s\<lparr>ss_votes := VotesWait\<rparr>))" "votePipe (consumed False u r (s\<lparr>ss_votes := VotesWait\<rparr>))"
  using assms by (auto simp: blockPipe_def votePipe_def pipe_defs consumed_def split: prod.split)

lemma pipes_frame [simp]:
  "blockPipe (s\<lparr>ss_td := td\<rparr>) = blockPipe s" "votePipe (s\<lparr>ss_td := td\<rparr>) = votePipe s"
  "blockPipe (s\<lparr>ss_ctx := b\<rparr>) = blockPipe s" "votePipe (s\<lparr>ss_ctx := b\<rparr>) = votePipe s"
  "blockPipe (s\<lparr>ss_broken := b\<rparr>) = blockPipe s" "votePipe (s\<lparr>ss_broken := b\<rparr>) = votePipe s"
  "blockPipe (s\<lparr>ss_incoming := ms\<rparr>) = blockPipe s" "votePipe (s\<lparr>ss_incoming := ms\<rparr>) = votePipe s"
  "blockPipe (s\<lparr>ss_main := m\<rparr>) = blockPipe s" "votePipe (s\<lparr>ss_main := m\<rparr>) = votePipe s"
  "blockPipe (s\<lparr>ss_closer := cl\<rparr>) = blockPipe s" "votePipe (s\<lparr>ss_closer := cl\<rparr>) = votePipe s"
  "blockPipe (s\<lparr>ss_status := st\<rparr>) = blockPipe s" "votePipe (s\<lparr>ss_status := st\<rparr>) = votePipe s"
  by (simp_all add: blockPipe_def votePipe_def pipe_defs)

section \<open>The status goroutine leaves the connection alone\<close>

lemma socketOf_put [simp]: "socketOf k (putChain k cc td) = wsclient cc"
  by (simp add: socketOf_def)

lemma atChain_simps [simp]:
  "chainAt td k \<noteq> None \<Longrightarrow> chainAt (atChain k f td) k \<noteq> None"
  "socketOf k (atChain k closeWebSocket td) = None"
  by (auto simp: atChain_def socketOf_def closeWebSocket_def split: option.split)

lemma emitStats_chain: "emitStats us td = (ok, td') \<Longrightarrow> chainAt td' = chainAt td"
  using emitStats_frame by fastforce

lemma emitStat_chain: "emitStat u td = (ok, td') \<Longrightarrow> chainAt td' = chainAt td"
  using emitStat_frame by fastforce

lemma recordResult_socket: "recordResult stamp vi ss h i0 cc = (bs, i1, cc') \<Longrightarrow> wsclient cc' = wsclient cc"
  by (auto simp: recordResult_def Let_def recordBlockResult_def countResult_def split: if_splits)

lemma blockSeen_socket:
  assumes "blockSeen now k u cc td = (ok, td')"
  shows "\<exists>cc'. chainAt td' k = Some cc' \<and> wsclient cc' = wsclient cc"
proof -
  obtain prev cc1 where r: "recordFinalBlock now (cc\<lparr>lastBlockNum := Height u\<rparr>) = (prev, cc1)" by force
  then have "wsclient cc1 = wsclient cc" by (auto simp: recordFinalBlock_def Let_def split: if_splits)
  then show ?thesis using assms by (auto simp: blockSeen_def r Let_def dest!: emitStat_chain split: if_splits)
qed

lemma publishResult_socket:
  assumes "publishResult stamp k u vi ss cc td = (ok, td')"
  shows "\<exists>cc'. chainAt td' k = Some cc' \<and> wsclient cc' = wsclient cc"
proof -
  obtain bs i1 cc2 where r: "recordResult stamp vi ss (Height u) (getAlarms (HideLogs td) (name cc) (alarms td)) cc = (bs, i1, cc2)"
    by (metis surj_pair)
  obtain h i2 where n: "nodeSummary (HideLogs td) (Nodes cc2) (0, i1) = (h, i2)" by force
  show ?thesis
    using assms recordResult_socket [OF r]
    by (auto simp: publishResult_def r n Let_def dest!: emitStats_chain split: if_splits)
qed

lemma statusStep_socket:
  assumes "statusStep now stamp k u ss td = Some (go, ss', td')"
  shows "chainAt td' k \<noteq> None \<and> socketOf k td' = socketOf k td"
proof -
  obtain cc where cc: "chainAt td k = Some cc" using assms by (cases "chainAt td k") (auto simp: statusStep_def)
  show ?thesis
  proof (cases "fst (validatorInfoSnapshot cc)")
    case None
    then show ?thesis using assms cc by (auto simp: statusStep_def)
  next
    case (Some vi)
    show ?thesis
    proof (cases "Final u")
      case False
      then show ?thesis using assms cc Some by (auto simp: statusStep_def Let_def)
    next
      case True
      obtain ok td2 where b: "blockSeen now k u cc td = (ok, td2)" by force
      obtain cc1 where 1: "chainAt td2 k = Some cc1" "wsclient cc1 = wsclient cc" using blockSeen_socket [OF b] by blast
      obtain go2 td5 where p: "publishResult stamp k u vi (raiseSignState u vi ss) cc1 td2 = (go2, td5)" by force
      obtain cc2 where 2: "chainAt td5 k = Some cc2" "wsclient cc2 = wsclient cc1" using publishResult_socket [OF p] by blast
      show ?thesis
        using assms cc Some True b 1 p 2 by (auto simp: statusStep_def Let_def socketOf_def split: if_splits)
    qed
  qed
qed
section \<open>The invariant\<close>

definition noWorkers :: "session \<Rightarrow> bool" where
  "noWorkers s \<longleftrightarrow> ss_closer s = NoCloser \<and> ss_reader s = NoReader \<and> ss_blocks s = NoBlocks \<and> ss_votes s = NoVotes \<and>
     ss_status s = NoStatus"

fun beforeDial :: "ws_main \<Rightarrow> bool" where
  "beforeDial AwaitClient = True"
| "beforeDial (Dialing u pub) = True"
| "beforeDial m = False"

definition session_inv :: "string \<Rightarrow> session \<Rightarrow> bool" where
  "session_inv k s \<longleftrightarrow>
     chainAt (ss_td s) k \<noteq> None \<and> blockPipe s \<and> votePipe s \<and>
     (beforeDial (ss_main s) \<longrightarrow> noWorkers s \<and> ss_read s = [] \<and> ss_consumed s = []) \<and>
     (ss_main s = Joining \<longrightarrow> ss_ctx s \<and> socketOf k (ss_td s) = None) \<and>
     (ss_main s = SessionOver \<longrightarrow> ss_ctx s \<and> socketOf k (ss_td s) = None \<and> workersDone s) \<and>
     (ss_closer s = CloserDone \<longrightarrow> ss_ctx s) \<and> (ss_reader s = ReaderDone \<longrightarrow> ss_ctx s) \<and>
     (ss_blocks s = BlocksDone \<longrightarrow> ss_ctx s) \<and> (ss_votes s = VotesDone \<longrightarrow> ss_ctx s) \<and> (ss_status s = StatusDone \<longrightarrow> ss_ctx s)"

lemma session_inv_start: "session_start k s \<Longrightarrow> session_inv k s"
  by (auto simp: session_start_def session_inv_def noWorkers_def blockPipe_def votePipe_def pipe_defs)

lemma start_workers_inv:
  assumes "session_inv k s" "ss_main s = Dialing u pub"
  shows "session_inv k (startWorkers now pub (s\<lparr>ss_td := atChain k f (ss_td s)\<rparr>))"
  using assms
  by (auto simp: session_inv_def startWorkers_def noWorkers_def blockPipe_def votePipe_def pipe_defs atChain_def split: option.split)

lemma consume_inv:
  assumes "session_inv k s" "statusStep now stamp k u ss (ss_td s) = Some r" "ss_status s = StatusWait ss'"
  shows "ss_blocks s = BlocksSend t u \<Longrightarrow> session_inv k (consumed True u r (s\<lparr>ss_blocks := BlocksWait t\<rparr>))"
    "ss_votes s = VotesSend u \<Longrightarrow> session_inv k (consumed False u r (s\<lparr>ss_votes := VotesWait\<rparr>))"
proof -
  obtain go ss'' td' where r: "r = (go, ss'', td')" by (cases r) auto
  have td: "chainAt td' k \<noteq> None" "socketOf k td' = socketOf k (ss_td s)" using statusStep_socket assms(2) r by blast+
  have main: "\<not> beforeDial (ss_main s)" "ss_main s \<noteq> SessionOver"
    using assms(1,3) by (auto simp: session_inv_def noWorkers_def workersDone_def)
  show "ss_blocks s = BlocksSend t u \<Longrightarrow> session_inv k (consumed True u r (s\<lparr>ss_blocks := BlocksWait t\<rparr>))"
    using assms(1) td main pipes_consume_block [of s t u r] unfolding session_inv_def by (simp add: r consumed_def)
  show "ss_votes s = VotesSend u \<Longrightarrow> session_inv k (consumed False u r (s\<lparr>ss_votes := VotesWait\<rparr>))"
    using assms(1) td main pipes_consume_vote [of s u r] unfolding session_inv_def by (simp add: r consumed_def)
qed

lemma hand_inv:
  assumes "session_inv k s" "ss_reader s = Hands (NewBlockReply w)" "ss_blocks s = BlocksWait t"
  shows "handleBlocksStep (ss_address s) (BlockArrived now w) t = Update t' u \<Longrightarrow>
      session_inv k (s\<lparr>ss_reader := Reads, ss_blocks := BlocksSend t' u\<rparr>)"
    "handleBlocksStep (ss_address s) (BlockArrived now w) t = Quiet t' \<Longrightarrow>
      session_inv k (s\<lparr>ss_reader := Reads, ss_blocks := BlocksWait t'\<rparr>)"
  using assms(1) pipes_hand_block [OF _ _ assms(2,3)] assms(2,3) unfolding session_inv_def
  by (auto simp: noWorkers_def workersDone_def)

lemma hand_vote_inv:
  assumes "session_inv k s" "ss_reader s = Hands (VoteReply w)" "ss_votes s = VotesWait"
  shows "handleVotesStep (ss_address s) w = Some u \<Longrightarrow> session_inv k (s\<lparr>ss_reader := Reads, ss_votes := VotesSend u\<rparr>)"
    "handleVotesStep (ss_address s) w = None \<Longrightarrow> session_inv k (s\<lparr>ss_reader := Reads\<rparr>)"
  using assms(1) pipes_hand_vote [OF _ _ assms(2,3)] assms(2,3) unfolding session_inv_def
  by (auto simp: noWorkers_def workersDone_def)

lemma read_inv:
  assumes "session_inv k s" "ss_reader s = Reads"
  shows "session_inv k (s\<lparr>ss_incoming := ms, ss_reader := Hands r, ss_read := ss_read s @ [r]\<rparr>)"
  using assms pipes_read [where s = s and ms = ms and r = r] unfolding session_inv_def by (auto simp: noWorkers_def workersDone_def)

lemma reader_stop_inv:
  assumes "session_inv k s" "ss_reader s = Reads \<or> ss_reader s = Hands r"
  shows "session_inv k (s\<lparr>ss_ctx := True, ss_reader := ReaderDone\<rparr>)"
  using assms pipes_reader_stops [of "s\<lparr>ss_ctx := True\<rparr>"] unfolding session_inv_def
  by (clarsimp simp: noWorkers_def workersDone_def)

lemma blocks_stop_inv:
  assumes "session_inv k s" "ss_blocks s = BlocksWait t \<or> ss_blocks s = BlocksSend t u"
  shows "session_inv k (s\<lparr>ss_ctx := True, ss_blocks := BlocksDone\<rparr>)"
  using assms pipes_stop(1,2) [of "s\<lparr>ss_ctx := True\<rparr>"] unfolding session_inv_def
  by (clarsimp simp: noWorkers_def workersDone_def)

lemma votes_stop_inv:
  assumes "session_inv k s" "ss_votes s = VotesWait \<or> ss_votes s = VotesSend u"
  shows "session_inv k (s\<lparr>ss_ctx := True, ss_votes := VotesDone\<rparr>)"
  using assms pipes_stop(3,4) [of "s\<lparr>ss_ctx := True\<rparr>"] unfolding session_inv_def
  by (clarsimp simp: noWorkers_def workersDone_def)

lemma status_stop_inv:
  assumes "session_inv k s" "ss_status s = StatusWait n"
  shows "session_inv k (s\<lparr>ss_ctx := True, ss_status := StatusDone\<rparr>)"
  using assms unfolding session_inv_def by (clarsimp simp: noWorkers_def workersDone_def)

lemma closer_stop_inv:
  assumes "session_inv k s" "ss_closer s = CloserWaits"
  shows "session_inv k (s\<lparr>ss_ctx := True, ss_td := atChain k closeWebSocket (ss_td s), ss_closer := CloserDone\<rparr>)"
  using assms unfolding session_inv_def by (clarsimp simp: noWorkers_def workersDone_def simp del: not_None_eq)

lemma ctx_idle:
  assumes "ss_ctx s"
  shows "s\<lparr>ss_ctx := True, ss_reader := r\<rparr> = s\<lparr>ss_reader := r\<rparr>" "s\<lparr>ss_ctx := True, ss_blocks := b\<rparr> = s\<lparr>ss_blocks := b\<rparr>"
    "s\<lparr>ss_ctx := True, ss_votes := v\<rparr> = s\<lparr>ss_votes := v\<rparr>" "s\<lparr>ss_ctx := True, ss_status := st\<rparr> = s\<lparr>ss_status := st\<rparr>"
    "s\<lparr>ss_ctx := True, ss_td := td, ss_closer := cl\<rparr> = s\<lparr>ss_td := td, ss_closer := cl\<rparr>"
  using assms by simp_all

lemma main_inv:
  assumes "session_inv k s" "\<not> beforeDial (ss_main s)" "ss_main s \<noteq> SessionOver" "\<not> beforeDial m" "m \<noteq> Joining" "m \<noteq> SessionOver"
  shows "session_inv k (s\<lparr>ss_main := m\<rparr>)" "session_inv k (s\<lparr>ss_ctx := True, ss_main := m\<rparr>)"
  using assms unfolding session_inv_def by auto

lemma leave_inv:
  assumes "session_inv k s" "beforeDial (ss_main s)"
  shows "session_inv k (s\<lparr>ss_main := Dialing u pub\<rparr>)" "session_inv k (s\<lparr>ss_main := Closing\<rparr>)"
  using assms unfolding session_inv_def by (simp_all add: noWorkers_def workersDone_def)

lemma env_inv:
  assumes "session_inv k s"
  shows "session_inv k (s\<lparr>ss_incoming := ms\<rparr>)" "session_inv k (s\<lparr>ss_broken := b\<rparr>)" "session_inv k (s\<lparr>ss_ctx := True\<rparr>)"
  using assms unfolding session_inv_def by (simp_all add: noWorkers_def workersDone_def)

lemma others_inv:
  assumes "session_inv k s" "chainAt td k \<noteq> None" "socketOf k td \<in> {None, socketOf k (ss_td s)}"
  shows "session_inv k (s\<lparr>ss_td := td\<rparr>)"
proof -
  have sock: "socketOf k (ss_td s) = None \<Longrightarrow> socketOf k td = None" using assms(3) by auto
  have frame: "noWorkers (s\<lparr>ss_td := td\<rparr>) = noWorkers s" "workersDone (s\<lparr>ss_td := td\<rparr>) = workersDone s"
    by (simp_all add: noWorkers_def workersDone_def)
  show ?thesis using assms(1,2) sock unfolding session_inv_def frame pipes_frame by (simp del: not_None_eq)
qed

lemma close_inv:
  assumes "session_inv k s" "ss_main s = Closing"
  shows "session_inv k (s\<lparr>ss_ctx := True, ss_td := atChain k closeWebSocket (ss_td s), ss_main := Joining\<rparr>)"
  using assms unfolding session_inv_def by (simp del: not_None_eq)

lemma join_inv:
  assumes "session_inv k s" "ss_main s = Joining" "workersDone s"
  shows "session_inv k (s\<lparr>ss_main := SessionOver\<rparr>)"
  using assms unfolding session_inv_def by (simp add: workersDone_def del: not_None_eq)

lemma cancelled_inv:
  assumes "session_inv k s" "ss_ctx s"
  shows "ss_reader s = Hands r \<Longrightarrow> session_inv k (s\<lparr>ss_reader := ReaderDone\<rparr>)"
    "ss_blocks s = BlocksWait t \<or> ss_blocks s = BlocksSend t u \<Longrightarrow> session_inv k (s\<lparr>ss_blocks := BlocksDone\<rparr>)"
    "ss_votes s = VotesWait \<or> ss_votes s = VotesSend u \<Longrightarrow> session_inv k (s\<lparr>ss_votes := VotesDone\<rparr>)"
    "ss_status s = StatusWait n \<Longrightarrow> session_inv k (s\<lparr>ss_status := StatusDone\<rparr>)"
    "ss_closer s = CloserWaits \<Longrightarrow> session_inv k (s\<lparr>ss_td := atChain k closeWebSocket (ss_td s), ss_closer := CloserDone\<rparr>)"
  using reader_stop_inv [OF assms(1), of r] blocks_stop_inv [OF assms(1), of t u] votes_stop_inv [OF assms(1), of u]
    status_stop_inv [OF assms(1), of n] closer_stop_inv [OF assms(1)]
  unfolding ctx_idle [OF assms(2)] by simp_all

lemma main_moves_inv:
  assumes "session_inv k s"
  shows "ss_main s = Subscribing (q # qs) \<Longrightarrow> session_inv k (s\<lparr>ss_main := Subscribing qs\<rparr>)"
    "ss_main s = Subscribing (q # qs) \<Longrightarrow> session_inv k (s\<lparr>ss_ctx := True, ss_main := Closing\<rparr>)"
    "ss_main s = Subscribing [] \<Longrightarrow> session_inv k (s\<lparr>ss_main := Watching\<rparr>)"
    "ss_main s = Watching \<Longrightarrow> session_inv k (s\<lparr>ss_main := Closing\<rparr>)"
    "ss_main s = Watching \<Longrightarrow> session_inv k (s\<lparr>ss_ctx := True, ss_main := Closing\<rparr>)"
  using main_inv [OF assms] by simp_all

lemma wstep_inv: "wstep parse k i s t \<Longrightarrow> session_inv k s \<Longrightarrow> session_inv k t"
proof (induction rule: wstep.induct)
  case (client_healthy s cc started now u pub)
  then show ?case using leave_inv(1) by simp
next
  case (client_timeout s cc started now)
  then show ?case using leave_inv(2) by simp
next
  case (client_cancelled s cc started now)
  then show ?case using leave_inv(2) by simp
next
  case (dial_fails s u pub dial e)
  then show ?case using leave_inv(2) by simp
qed (blast intro: env_inv others_inv start_workers_inv main_moves_inv close_inv join_inv cancelled_inv read_inv
    reader_stop_inv hand_inv hand_vote_inv blocks_stop_inv consume_inv)+

interpretation ws_run: invariant_system "session_start k" "\<lambda>s t. \<exists>i. wstep parse k i s t" "session_inv k" for parse k
  by unfold_locales (auto intro: session_inv_start wstep_inv)

section \<open>Ending\<close>

fun main_effort :: "ws_main \<Rightarrow> nat" where
  "main_effort AwaitClient = 13"
| "main_effort (Dialing u pub) = 12"
| "main_effort (Subscribing qs) = 4 + length qs"
| "main_effort Watching = 3"
| "main_effort Closing = 2"
| "main_effort Joining = 1"
| "main_effort SessionOver = 0"

definition worker_effort :: "session \<Rightarrow> nat" where
  "worker_effort s =
     (if ss_closer s = CloserWaits then 1 else 0) +
     (case ss_reader s of Reads \<Rightarrow> 1 | Hands r \<Rightarrow> 5 | _ \<Rightarrow> 0) +
     (case ss_blocks s of BlocksWait t \<Rightarrow> 1 | BlocksSend t u \<Rightarrow> 3 | _ \<Rightarrow> 0) +
     (case ss_votes s of VotesWait \<Rightarrow> 1 | VotesSend u \<Rightarrow> 3 | _ \<Rightarrow> 0) +
     (case ss_status s of StatusWait n \<Rightarrow> 1 | _ \<Rightarrow> 0)"

definition session_effort :: "session \<Rightarrow> nat" where
  "session_effort s = main_effort (ss_main s) + worker_effort s + 6 * length (ss_incoming s)"

lemma session_effort_decreases:
  assumes "wstep parse k True s t" "session_inv k s"
  shows "session_effort t < session_effort s"
  using assms(1)
proof (cases rule: wstep.cases)
  case (dial_ok u pub dial endpoint now)
  then have "noWorkers s" using assms(2) by (simp add: session_inv_def)
  then show ?thesis using dial_ok by (simp add: session_effort_def worker_effort_def startWorkers_def noWorkers_def)
next
  case (consume_block t u signState now stamp r)
  then show ?thesis by (cases r) (simp add: session_effort_def worker_effort_def consumed_def)
next
  case (consume_vote u signState now stamp r)
  then show ?thesis by (cases r) (simp add: session_effort_def worker_effort_def consumed_def)
next
  case (blocks_cancelled t u)
  then show ?thesis by (auto simp: session_effort_def worker_effort_def)
next
  case (votes_cancelled u)
  then show ?thesis by (auto simp: session_effort_def worker_effort_def)
qed (simp_all add: session_effort_def worker_effort_def)

lemma ctx_stays: "wstep parse k i s t \<Longrightarrow> ss_ctx s \<Longrightarrow> ss_ctx t"
  by (induction rule: wstep.induct) (auto simp: startWorkers_def consumed_def split: prod.split)

definition noUnix :: "(string \<Rightarrow> string + string \<times> string) \<Rightarrow> bool" where
  "noUnix parse \<longleftrightarrow> (\<forall>u rest. parse u \<noteq> Inr (''unix'', rest))"

lemma dial_settles:
  assumes "noUnix parse"
  shows "\<exists>dial. (\<exists>e. NewClientContext parse dial u True = Inl e) \<or> (\<exists>c. NewClientContext parse dial u True = Inr (Dialed c))"
proof -
  have "NewClientContext parse dial u True \<noteq> Inr Undialed" for dial
    using assms by (auto simp: NewClientContext_def noUnix_def normalizeScheme_def Let_def split: sum.splits if_splits option.splits)
  then show ?thesis by (metis TmConn.exhaust sumE)
qed

lemma cancelled_moves:
  assumes "session_inv k s" "ss_ctx s" "ss_main s \<noteq> SessionOver" "noUnix parse"
  shows "\<exists>t. wstep parse k True s t"
proof (cases "ss_main s")
  case AwaitClient
  obtain cc where cc: "chainAt (ss_td s) k = Some cc" using assms(1) by (auto simp: session_inv_def)
  show ?thesis
    by (cases "awaitClient 0 0 cc") (use AwaitClient cc assms(2) in \<open>blast intro: wstep.intros\<close>)+
next
  case (Dialing u pub)
  then show ?thesis using dial_settles [OF assms(4), of u] by (blast intro: wstep.intros)
next
  case (Subscribing qs)
  then show ?thesis by (cases qs) (blast intro: wstep.intros)+
next
  case Joining
  then have sock: "socketOf k (ss_td s) = None" using assms(1) by (simp add: session_inv_def)
  consider "workersDone s" | "ss_closer s = CloserWaits" | "ss_reader s = Reads" | r where "ss_reader s = Hands r"
    | t u where "ss_blocks s = BlocksWait t \<or> ss_blocks s = BlocksSend t u"
    | u where "ss_votes s = VotesWait \<or> ss_votes s = VotesSend u" | n where "ss_status s = StatusWait n"
    unfolding workersDone_def
    by (cases "ss_reader s"; cases "ss_blocks s"; cases "ss_votes s"; cases "ss_status s"; simp) metis+
  then show ?thesis
    by cases (use Joining assms(2) sock in \<open>blast intro: wstep.intros\<close>)+
qed (use assms(2,3) in \<open>blast intro: wstep.intros\<close>)+

interpretation ws_end: descent "wstep parse k True" "\<lambda>s. session_inv k s \<and> ss_ctx s \<and> noUnix parse" session_effort
    "\<lambda>s. ss_main s = SessionOver" for parse k
  by unfold_locales (use session_effort_decreases wstep_inv ctx_stays cancelled_moves in \<open>blast+\<close>)

section \<open>Properties\<close>

text \<open>C7: Whatever the interleaving of the six goroutines of a websocket session and of the rest of the process:
  when \<open>WsRun\<close> returns, all its goroutines have returned and the connection is closed. The updates of
  blocks consumed by the status goroutine are, in order, a prefix of the classified replies read, and so are those of
  votes; while the session is not cancelled, only what the reader and the handler hold is missing.\<close>

theorem session_safe:
  assumes "reach (session_start k) (\<lambda>s t. \<exists>i. wstep parse k i s t) s"
  shows "(ss_main s = SessionOver \<longrightarrow> workersDone s \<and> socketOf k (ss_td s) = None) \<and>
    prefix (consumedOf True s) (updatesOf (blockUpdates (ss_address s)) (ss_read s)) \<and>
    prefix (consumedOf False s) (updatesOf (voteUpdates (ss_address s)) (ss_read s)) \<and>
    (\<not> ss_ctx s \<longrightarrow>
       consumedOf True s @ blockInHand s @ updatesOf (blockUpdates (ss_address s)) (replyInHand s) =
         updatesOf (blockUpdates (ss_address s)) (ss_read s) \<and>
       consumedOf False s @ voteInHand s @ updatesOf (voteUpdates (ss_address s)) (replyInHand s) =
         updatesOf (voteUpdates (ss_address s)) (ss_read s))"
proof -
  have inv: "session_inv k s" using assms by (rule ws_run.reach_inv)
  then have pipes: "blockPipe s" "votePipe s" by (simp_all add: session_inv_def)
  note prefixes = pipes [unfolded blockPipe_def votePipe_def, THEN pipe_prefix]
  have alive: "ss_blocks s \<noteq> BlocksDone \<and> ss_votes s \<noteq> VotesDone \<and> ss_reader s \<noteq> ReaderDone" if "\<not> ss_ctx s"
    using inv that by (auto simp: session_inv_def)
  have over: "workersDone s \<and> socketOf k (ss_td s) = None" if "ss_main s = SessionOver"
    using inv that by (simp add: session_inv_def)
  show ?thesis using prefixes alive over pipes by (auto simp: blockPipe_def votePipe_def pipe_def)
qed


lemma normalizeScheme_cases:
  "case normalizeScheme allowInsecure scheme of
     Inl e \<Rightarrow> scheme \<notin> {''http'', ''tcp'', ''ws'', ''unix'', ''https'', ''wss''} \<or>
       scheme \<in> {''http'', ''tcp'', ''ws'', ''unix''} \<and> \<not> allowInsecure
   | Inr (unix, ws) \<Rightarrow>
       if unix then ws = ''ws'' \<and> allowInsecure \<and> scheme = ''unix''
       else ws = ''wss'' \<and> scheme \<in> {''https'', ''wss''} \<or> ws = ''ws'' \<and> allowInsecure \<and> scheme \<in> {''http'', ''tcp'', ''ws''}"
proof -
  consider "scheme \<in> {''http'', ''tcp'', ''ws''}" | "scheme = ''unix''" | "scheme \<in> {''https'', ''wss''}"
    | "scheme \<notin> {''http'', ''tcp'', ''ws'', ''unix'', ''https'', ''wss''}" by blast
  then show ?thesis by cases (auto simp: normalizeScheme_def Let_def)
qed

text \<open>The client of a websocket: the endpoint dialed is the configured one with a path that ends in \<open>/websocket\<close>
  and the scheme \<open>ws\<close> or \<open>wss\<close>; without TLS only if that is allowed. An unknown scheme, an address that cannot be parsed and a
  failed dial are errors, and a unix socket gives a connection that was never dialed.\<close>

theorem websocket_client:
  "case NewClientContext parse dial u allowInsecure of
     Inr (Dialed endpoint) \<Rightarrow>
       \<exists>scheme rest ws. parse (websocketPath u) = Inr (scheme, rest) \<and> endpoint = ws @ ''://'' @ rest \<and> dial endpoint = None \<and>
         (ws = ''wss'' \<and> scheme \<in> {''https'', ''wss''} \<or> ws = ''ws'' \<and> allowInsecure \<and> scheme \<in> {''http'', ''tcp'', ''ws''})
   | Inr Undialed \<Rightarrow> allowInsecure \<and> (\<exists>rest. parse (websocketPath u) = Inr (''unix'', rest))
   | Inl e \<Rightarrow> isl (parse (websocketPath u)) \<or>
       (\<exists>scheme rest. parse (websocketPath u) = Inr (scheme, rest) \<and>
          (scheme \<notin> {''http'', ''tcp'', ''ws'', ''unix'', ''https'', ''wss''} \<or>
           scheme \<in> {''http'', ''tcp'', ''ws'', ''unix''} \<and> \<not> allowInsecure \<or>
           (\<exists>ws. dial (ws @ ''://'' @ rest) \<noteq> None)))"
proof (cases "parse (websocketPath u)")
  case (Inr p)
  obtain scheme rest where p: "p = (scheme, rest)" by force
  note cases = normalizeScheme_cases [where allowInsecure = allowInsecure and scheme = scheme]
  show ?thesis
  proof (cases "normalizeScheme allowInsecure scheme")
    case (Inl e)
    then show ?thesis using Inr p cases by (simp add: NewClientContext_def Let_def del: insert_iff)
  next
    case n: (Inr q)
    obtain unix ws where q: "q = (unix, ws)" by force
    show ?thesis
    proof (cases "unix \<or> dial (ws @ ''://'' @ rest) = None")
      case True
      then show ?thesis using Inr p n q cases by (cases unix) (simp_all add: NewClientContext_def Let_def del: insert_iff)
    next
      case False
      then obtain e where "dial (ws @ ''://'' @ rest) = Some e" by auto
      then show ?thesis using False Inr p n q by (simp add: NewClientContext_def Let_def del: insert_iff) blast
    qed
  qed
qed (simp add: NewClientContext_def Let_def)

lemma websocketPath_suffix: "HasSuffix (websocketPath u) ''/websocket''" "websocketPath (websocketPath u) = websocketPath u"
proof -
  show suffix: "HasSuffix (websocketPath u) ''/websocket''" for u
    by (auto simp: websocketPath_def Let_def HasSuffix_iff)
  obtain t where "websocketPath u = t @ ''/websocket''"
    using suffix [of u] by (auto simp: HasSuffix_iff)
  then have "TrimRight (websocketPath u) (CHR ''/'') = websocketPath u" by simp
  with suffix show "websocketPath (websocketPath u) = websocketPath u"
    by (simp add: websocketPath_def Let_def)
qed

text \<open>A run of the example chain: the session is cancelled while it waits for a client.\<close>

definition idle_session :: session where
  "idle_session = \<lparr>ss_td = sample_td, ss_ctx = False, ss_broken = False, ss_incoming = [], ss_address = '''', ss_main = AwaitClient,
     ss_closer = NoCloser, ss_reader = NoReader, ss_blocks = NoBlocks, ss_votes = NoVotes, ss_status = NoStatus,
     ss_read = [], ss_consumed = []\<rparr>"

definition cancelled_session :: session where
  "cancelled_session = startWorkers 0 [1] (idle_session\<lparr>ss_ctx := True, ss_main := Dialing ''http://a'' [1],
     ss_td := atChain ''osmosis'' (\<lambda>cc. cc\<lparr>wsclient := Some ''ws://a/websocket''\<rparr>)
       (putChain ''osmosis'' (sample_chain\<lparr>client := Some (RpcClient ''http://a''), valInfo := Some (emptyValInfo\<lparr>Conspub := [1]\<rparr>)\<rparr>) sample_td)\<rparr>)"

definition sample_parse :: "string \<Rightarrow> string + string \<times> string" where
  "sample_parse u = Inr (''http'', ''a/websocket'')"

lemma cancelled_session_reached:
  "reach (session_start ''osmosis'') (\<lambda>s t. \<exists>i. wstep sample_parse ''osmosis'' i s t) cancelled_session"
proof -
  let ?k = "''osmosis''"
  let ?step = "\<lambda>s t. \<exists>i. wstep sample_parse ?k i s t"
  define cc where "cc = sample_chain\<lparr>client := Some (RpcClient ''http://a''), valInfo := Some (emptyValInfo\<lparr>Conspub := [1]\<rparr>)\<rparr>"
  define s1 where "s1 = idle_session\<lparr>ss_td := putChain ?k cc sample_td\<rparr>"
  define s2 where "s2 = s1\<lparr>ss_main := Dialing ''http://a'' [1]\<rparr>"
  define s3 where "s3 = s2\<lparr>ss_ctx := True\<rparr>"
  have "session_start ?k idle_session" by (simp add: session_start_def idle_session_def socketOf_def sample_chain_def)
  then have "reach (session_start ?k) ?step idle_session" by (rule reach_init)
  moreover have "wstep sample_parse ?k False idle_session s1" unfolding s1_def
    by (rule wstep.others) (simp_all add: socketOf_def cc_def sample_chain_def)
  moreover have "wstep sample_parse ?k True s1 s2" unfolding s2_def
    by (rule wstep.client_healthy [where cc = cc and started = 0 and now = 0])
      (simp_all add: s1_def idle_session_def awaitClient_def monitoringSnapshot_def cc_def)
  moreover have "wstep sample_parse ?k False s2 s3" unfolding s3_def by (rule wstep.parent_done)
  moreover have "wstep sample_parse ?k True s3 cancelled_session"
    using wstep.dial_ok [where s = s3 and u = "''http://a''" and pub = "[1]" and dial = "\<lambda>_. None" and parse = sample_parse
        and k = ?k and endpoint = "''ws://a/websocket''" and now = 0]
    by (simp add: s3_def s2_def s1_def idle_session_def cc_def cancelled_session_def NewClientContext_def sample_parse_def normalizeScheme_def Let_def)
  ultimately show ?thesis by (blast intro: reach_step)
qed

theorem session_safe_witness:
  "prefix (consumedOf True cancelled_session) (updatesOf (blockUpdates (ss_address cancelled_session)) (ss_read cancelled_session)) \<and>
   ss_main cancelled_session = Subscribing [QueryNewBlock, QueryVote]"
  using session_safe [OF cancelled_session_reached] by (simp add: cancelled_session_def startWorkers_def)


text \<open>The shutdown of the process closes the connection of every chain.\<close>

lemma closeWebSockets_all:
  assumes "m_wf (Chains td)"
  shows "chainAt (closeWebSockets td) k = map_option closeWebSocket (chainAt td k)" "socketOf k (closeWebSockets td) = None"
proof -
  have "chainAt (fold (\<lambda>(k, cc) t. putChain k (closeWebSocket cc) t) al t0) k =
      (case map_of al k of None \<Rightarrow> chainAt t0 k | Some cc \<Rightarrow> Some (closeWebSocket cc))"
    if "distinct (map fst al)" for al t0
    using that
  proof (induction al arbitrary: t0)
    case (Cons e al)
    obtain j cc where e: "e = (j, cc)" by force
    have "map_of al j = None" using Cons.prems by (simp add: e map_of_eq_None_iff)
    with Cons show ?case by (auto simp: e split: option.split)
  qed simp
  then show eq: "chainAt (closeWebSockets td) k = map_option closeWebSocket (chainAt td k)"
    using assms by (auto simp: closeWebSockets_def m_wf_def m_keys_def m_lookup_def [of "Chains td"] split: option.split)
  show "socketOf k (closeWebSockets td) = None"
    by (simp add: socketOf_def eq closeWebSocket_def split: option.split)
qed

end
