(* ===== verification/Adapter.thy ===== *)
theory Adapter
  imports Rpc
begin

text \<open>
  The CometBFT adapter: \<open>src/seer/cometbft_adapter.go\<close> (the wire formats of events are in \<open>Blocks\<close>) and
  the default implementations chosen in \<open>src/seer/rpc_contract.go\<close>.

  The client library, the protobuf codecs, the key types and bech32 are parameters (\<open>comet_lib\<close>); \<open>lib_ok\<close>
  is what the documentation of the key types says of their addresses. An answer may be nil, which is \<open>None\<close>.
  \<open>adapterEnv\<close> plugs the adapter into the network that the RPC component is written against.

  Shown: which answers become a validator record, and that with this adapter a refresh of validator state
  panics in one case only.
\<close>

section \<open>Parameters\<close>

record transport =
  tr_Proxy :: "string option"
  tr_rest :: string

datatype round_tripper = HttpTransport transport | OtherTransport string

record stakingValidator =
  sv_Pubkey :: "(string \<times> byte list) option"
  sv_Moniker :: string
  sv_Jailed :: bool
  sv_Status :: int

record comet_lib =
  DefaultHTTPClient :: "string \<Rightarrow> string + round_tripper"
  NewWithClient :: "string \<Rightarrow> string \<Rightarrow> round_tripper \<Rightarrow> string + rpcClient"
  lib_Status :: "rpcClient \<Rightarrow> string + rpcStatus option"
  ABCIQuery :: "rpcClient \<Rightarrow> string \<Rightarrow> byte list \<Rightarrow> string + byte list option"
  DecodeAndConvert :: "string \<Rightarrow> string + string \<times> byte list"
  ConvertAndEncode :: "string \<Rightarrow> byte list \<Rightarrow> string + string"
  marshalValidatorRequest :: "string \<Rightarrow> string + byte list"
  marshalSigningRequest :: "string \<Rightarrow> string + byte list"
  marshalParamsRequest :: "string + byte list"
  unmarshalValidator :: "byte list \<Rightarrow> string + stakingValidator"
  unmarshalSigning :: "byte list \<Rightarrow> string + bool \<times> int"
  unmarshalParams :: "byte list \<Rightarrow> string + int"
  ed25519Key :: "byte list \<Rightarrow> string + byte list"
  ed25519Address :: "byte list \<Rightarrow> byte list"
  secp256k1Key :: "byte list \<Rightarrow> string + byte list"
  secp256k1Address :: "byte list \<Rightarrow> byte list"

definition lib_ok :: "comet_lib \<Rightarrow> bool" where
  "lib_ok lib \<longleftrightarrow> (\<forall>k. length (ed25519Address lib k) = 20 \<and> length (secp256k1Address lib k) = 20)"

section \<open>The client\<close>

definition newCometBFTRPCHTTPClient :: "comet_lib \<Rightarrow> string \<Rightarrow> string + round_tripper" where
  "newCometBFTRPCHTTPClient lib endpoint =
     (case DefaultHTTPClient lib endpoint of
        Inl e \<Rightarrow> Inl e
      | Inr (OtherTransport t) \<Rightarrow> Inl (''unexpected CometBFT JSON-RPC transport '' @ t)
      | Inr (HttpTransport base) \<Rightarrow> Inr (HttpTransport (base\<lparr>tr_Proxy := None\<rparr>)))"

definition newCometBFTRPCClient :: "comet_lib \<Rightarrow> string \<Rightarrow> string \<Rightarrow> string + rpcClient" where
  "newCometBFTRPCClient lib endpoint wsPath =
     (case newCometBFTRPCHTTPClient lib endpoint of
        Inl e \<Rightarrow> Inl e
      | Inr httpClient \<Rightarrow> NewWithClient lib endpoint wsPath httpClient)"

definition cometStatus :: "comet_lib \<Rightarrow> rpcClient \<Rightarrow> string + rpcStatus" where
  "cometStatus lib c =
     (case lib_Status lib c of
        Inl e \<Rightarrow> Inl e
      | Inr None \<Rightarrow> Inl ''got empty status response''
      | Inr (Some status) \<Rightarrow> Inr \<lparr>Network = Network status, CatchingUp = CatchingUp status\<rparr>)"

section \<open>Queries\<close>

definition stakingValidatorQuery :: string where
  "stakingValidatorQuery = ''/cosmos.staking.v1beta1.Query/Validator''"

definition signingInfoQuery :: string where
  "signingInfoQuery = ''/cosmos.slashing.v1beta1.Query/SigningInfo''"

definition slashingParamsQuery :: string where
  "slashingParamsQuery = ''/cosmos.slashing.v1beta1.Query/Params''"

text \<open>The value of an answer, or the error for a missing one.\<close>

definition abciValue :: "comet_lib \<Rightarrow> rpcClient \<Rightarrow> string \<Rightarrow> string + byte list \<Rightarrow> string \<Rightarrow> string + byte list" where
  "abciValue lib c path request missing =
     (case request of
        Inl e \<Rightarrow> Inl e
      | Inr payload \<Rightarrow>
          (case ABCIQuery lib c path payload of
             Inl e \<Rightarrow> Inl e
           | Inr None \<Rightarrow> Inl missing
           | Inr (Some v) \<Rightarrow> Inr v))"

definition stakingBonded :: int where "stakingBonded = 3"

text \<open>The consensus address of a public key; a key of another type gives no address.\<close>

definition consensusAddress :: "comet_lib \<Rightarrow> string \<times> byte list \<Rightarrow> string + byte list" where
  "consensusAddress lib = (\<lambda>(typeUrl, keyBytes).
     if typeUrl = ''/cosmos.crypto.ed25519.PubKey''
     then (case ed25519Key lib keyBytes of Inl e \<Rightarrow> Inl e | Inr pub \<Rightarrow> Inr (ed25519Address lib pub))
     else if typeUrl = ''/cosmos.crypto.secp256k1.PubKey''
     then (case secp256k1Key lib keyBytes of Inl e \<Rightarrow> Inl e | Inr pub \<Rightarrow> Inr (secp256k1Address lib pub))
     else Inr [])"

definition cometValidator :: "comet_lib \<Rightarrow> rpcClient \<Rightarrow> string \<Rightarrow> string + validatorRecord" where
  "cometValidator lib c addr =
     (if Contains addr ''valcons''
      then (case DecodeAndConvert lib addr of
              Inl e \<Rightarrow> Inl (''could not decode and convert your address'' @ addr)
            | Inr (hrp, decoded) \<Rightarrow>
                Inr \<lparr>vr_ConsensusAddress = decoded, vr_Moniker = addr, vr_Jailed = False, vr_Bonded = True\<rparr>)
      else
        case abciValue lib c stakingValidatorQuery (marshalValidatorRequest lib addr) (''could not find validator '' @ addr) of
          Inl e \<Rightarrow> Inl e
        | Inr v \<Rightarrow>
            (case unmarshalValidator lib v of
               Inl e \<Rightarrow> Inl e
             | Inr sv \<Rightarrow>
                 (case sv_Pubkey sv of
                    None \<Rightarrow> Inl (''got invalid consensus pubkey for '' @ addr)
                  | Some pk \<Rightarrow>
                      (case consensusAddress lib pk of
                         Inl e \<Rightarrow> Inl e
                       | Inr a \<Rightarrow>
                           if length a = 0 then Inl (''could not get pubkey for'' @ addr)
                           else Inr \<lparr>vr_ConsensusAddress = a, vr_Moniker = sv_Moniker sv, vr_Jailed = sv_Jailed sv,
                                     vr_Bonded = (sv_Status sv = stakingBonded)\<rparr>))))"

definition cometSigningInfo :: "comet_lib \<Rightarrow> rpcClient \<Rightarrow> string \<Rightarrow> string + signingInfo" where
  "cometSigningInfo lib c addr =
     (case abciValue lib c signingInfoQuery (marshalSigningRequest lib addr)
             ''could not query validator slashing status, got empty response'' of
        Inl e \<Rightarrow> Inl e
      | Inr v \<Rightarrow>
          (case unmarshalSigning lib v of
             Inl e \<Rightarrow> Inl e
           | Inr (tombstoned, missed) \<Rightarrow> Inr \<lparr>si_Tombstoned = tombstoned, si_MissedBlocks = missed\<rparr>))"

definition cometSlashingParams :: "comet_lib \<Rightarrow> rpcClient \<Rightarrow> string + slashingParams" where
  "cometSlashingParams lib c =
     (case abciValue lib c slashingParamsQuery (marshalParamsRequest lib)
             ([CHR 0xF0, CHR 0x9F, CHR 0x9B, CHR 0x91] @ '' could not query slashing params, got empty response'') of
        Inl e \<Rightarrow> Inl e
      | Inr v \<Rightarrow> (case unmarshalParams lib v of Inl e \<Rightarrow> Inl e | Inr w \<Rightarrow> Inr \<lparr>SignedBlocksWindow = w\<rparr>))"

section \<open>The default implementations\<close>

text \<open>
  The network the core is written against, with no factory and no codec configured: the adapter. The core opens
  its clients with the path \<open>/websocket\<close>.
\<close>

definition adapterEnv :: "comet_lib \<Rightarrow> rpc_env \<Rightarrow> rpc_env" where
  "adapterEnv lib env =
     env\<lparr>openRPCClient := (\<lambda>endpoint. newCometBFTRPCClient lib endpoint ''/websocket''), statusOf := cometStatus lib,
         validatorOf := cometValidator lib, signingInfoOf := cometSigningInfo lib,
         slashingParamsOf := cometSlashingParams lib, encodeAddress := ConvertAndEncode lib\<rparr>"

section \<open>Lemmas\<close>

lemma direct_client:
  "newCometBFTRPCHTTPClient lib endpoint = Inr t \<Longrightarrow>
     \<exists>base. DefaultHTTPClient lib endpoint = Inr (HttpTransport base) \<and> t = HttpTransport (base\<lparr>tr_Proxy := None\<rparr>)"
  by (auto simp: newCometBFTRPCHTTPClient_def split: sum.splits round_tripper.splits)

lemma abciValue_Inr:
  "abciValue lib c path request missing = Inr v \<longleftrightarrow>
     (\<exists>payload. request = Inr payload \<and> ABCIQuery lib c path payload = Inr (Some v))"
  by (auto simp: abciValue_def split: sum.splits option.splits)

lemma consensusAddress_length:
  "lib_ok lib \<Longrightarrow> consensusAddress lib pk = Inr a \<Longrightarrow> a \<noteq> [] \<Longrightarrow> length a = 20"
  by (auto simp: consensusAddress_def lib_ok_def split: prod.splits if_splits sum.splits)

lemma cometValidator_length:
  assumes "lib_ok lib" "cometValidator lib c addr = Inr vr" "\<not> Contains addr ''valcons''"
  shows "length (vr_ConsensusAddress vr) = 20"
  using assms consensusAddress_length [OF assms(1)]
  by (auto simp: cometValidator_def split: sum.splits option.splits if_splits)

lemma fetch_panics_short:
  assumes "lib_ok lib" "\<forall>n. n \<le> sliceCap env n" "fetchValInfo (adapterEnv lib env) first cc = None"
  shows "first \<and> \<not> Contains (ValAddress cc) ''valcons'' \<and> length (ValAddress cc) < 20"
proof -
  obtain c vr where c: "client cc = Some c" "cometValidator lib c (ValAddress cc) = Inr vr"
    using assms(3) by (auto simp: fetchValInfo_def Let_def adapterEnv_def split: option.splits sum.splits)
  have "valconsOf (adapterEnv lib env) cc (vr_ConsensusAddress vr) \<noteq> None"
  proof (cases "Contains (ValAddress cc) ''valcons''")
    case False
    then have "length (vr_ConsensusAddress vr) = 20" using cometValidator_length [OF assms(1) c(2)] by simp
    then have "\<not> sliceCap (adapterEnv lib env) (length (vr_ConsensusAddress vr)) < 20"
      using assms(2) [rule_format, of 20] by (simp add: adapterEnv_def)
    then show ?thesis by (simp add: valconsOf_def Let_def split: option.split)
  qed (simp add: valconsOf_def)
  then show ?thesis
    using assms(3) c by (auto simp: fetchValInfo_def Let_def adapterEnv_def split: option.splits sum.splits if_splits)
qed

section \<open>Properties\<close>

text \<open>A validator record of the adapter is one of two things. For a consensus address it is that address, decoded, taken to
  be bonded and under the address as its moniker. For an operator address it is what the node answered: the
  non-empty address of an ed25519 or secp256k1 key, the moniker, the jailed flag, and bonded exactly for the bonded status. Every
  missing or undecodable answer is an error.\<close>

theorem validator_record_exact:
  "cometValidator lib c addr = Inr vr \<longleftrightarrow>
     (if Contains addr ''valcons''
      then \<exists>hrp decoded. DecodeAndConvert lib addr = Inr (hrp, decoded) \<and>
             vr = \<lparr>vr_ConsensusAddress = decoded, vr_Moniker = addr, vr_Jailed = False, vr_Bonded = True\<rparr>
      else \<exists>payload v sv pk a. marshalValidatorRequest lib addr = Inr payload \<and>
             ABCIQuery lib c ''/cosmos.staking.v1beta1.Query/Validator'' payload = Inr (Some v) \<and>
             unmarshalValidator lib v = Inr sv \<and> sv_Pubkey sv = Some pk \<and> consensusAddress lib pk = Inr a \<and> a \<noteq> [] \<and>
             vr = \<lparr>vr_ConsensusAddress = a, vr_Moniker = sv_Moniker sv, vr_Jailed = sv_Jailed sv,
                   vr_Bonded = (sv_Status sv = 3)\<rparr>)"
proof (cases "Contains addr ''valcons''")
  case True
  then show ?thesis by (auto simp: cometValidator_def split: sum.splits)
next
  case False
  let ?q = "abciValue lib c stakingValidatorQuery (marshalValidatorRequest lib addr) (''could not find validator '' @ addr)"
  show ?thesis
  proof (cases ?q)
    case (Inl e)
    then show ?thesis using False by (auto simp: cometValidator_def stakingValidatorQuery_def abciValue_def)
  next
    case (Inr v)
    then obtain payload where "marshalValidatorRequest lib addr = Inr payload" "ABCIQuery lib c stakingValidatorQuery payload = Inr (Some v)"
      using abciValue_Inr by blast
    then show ?thesis using False Inr
      by (auto simp: cometValidator_def stakingValidatorQuery_def stakingBonded_def split: sum.splits option.splits if_splits)
  qed
qed


text \<open>A library that answers with an ed25519 key, and a chain with a short operator address.\<close>

definition sample_lib :: comet_lib where
  "sample_lib =
     \<lparr>DefaultHTTPClient = (\<lambda>_. Inr (HttpTransport \<lparr>tr_Proxy = Some ''proxy'', tr_rest = ''''\<rparr>)),
      NewWithClient = (\<lambda>u _ _. Inr (RpcClient u)), lib_Status = (\<lambda>_. Inr None),
      ABCIQuery = (\<lambda>_ _ _. Inr (Some [])), DecodeAndConvert = (\<lambda>_. Inl ''''), ConvertAndEncode = (\<lambda>p _. Inr p),
      marshalValidatorRequest = (\<lambda>_. Inr []), marshalSigningRequest = (\<lambda>_. Inr []), marshalParamsRequest = Inr [],
      unmarshalValidator = (\<lambda>_. Inr \<lparr>sv_Pubkey = Some (''/cosmos.crypto.ed25519.PubKey'', []), sv_Moniker = ''val'',
        sv_Jailed = False, sv_Status = 3\<rparr>),
      unmarshalSigning = (\<lambda>_. Inr (False, 0)), unmarshalParams = (\<lambda>_. Inr 100),
      ed25519Key = (\<lambda>b. Inr b), ed25519Address = (\<lambda>_. replicate 20 1),
      secp256k1Key = (\<lambda>b. Inr b), secp256k1Address = (\<lambda>_. replicate 20 2)\<rparr>"


end
