(* ===== verification/Process.thy ===== *)
theory Process
  imports ConfigLoad Lifecycle Websocket Adapter
begin

text \<open>
  The process as a whole: \<open>Run\<close> of \<open>src/seer/run.go\<close>, the loop of \<open>monitorChain\<close>, the healthcheck loop of
  \<open>src/seer/rpc.go\<close>, and the operations of all goroutines on the shared configuration, interleaved.

  \<^item> \<open>Run\<close> loads and validates the configuration and starts the goroutines; the list \<open>monitorsOf\<close> names the monitors in the
    order they are started. What happens between the start and the end is \<open>lstep\<close> of the lifecycle.
  \<^item> \<open>monitorChain\<close> runs over the rounds of its loop. What a round meets (the network, the clock, the end of the websocket
    session and the operations of all goroutines while it lasts, whether the context is done at the tests of the loop) is an argument.
  \<^item> \<open>runOperation\<close> is one operation of some goroutine on the shared state, \<open>runOperations\<close> a sequence of them. A stage of the
    watch loop, one probe, one selection of an endpoint, one refresh, one status update and one step of a delivery are
    atomic here; their local variables, clock readings and network answers are arguments. A panic is \<open>None\<close>.

  Shown: \<open>Run\<close> starts exactly the monitors of the configured chains, in a state of the lifecycle model; and
  no interleaving of operations makes a started process panic or changes which chains it monitors.
\<close>

section \<open>Healthcheck\<close>

datatype ping_input = PingTick | PingDone

text \<open>\<open>time.NewTicker\<close> panics for a duration that is not positive; the product wraps around. The result lists the
  outcomes of the requests, \<open>None\<close> for a success.\<close>

fun pingLoop :: "(string \<Rightarrow> string option) \<Rightarrow> string \<Rightarrow> ping_input list \<Rightarrow> string option list" where
  "pingLoop get url [] = []"
| "pingLoop get url (PingDone # is) = []"
| "pingLoop get url (PingTick # is) = get url # pingLoop get url is"

definition pingHealthcheck :: "(string \<Rightarrow> string option) \<Rightarrow> ping_input list \<Rightarrow> Config \<Rightarrow> string option list option" where
  "pingHealthcheck get is c =
     (if \<not> hc_Enabled (Healthcheck c) then Some []
      else if wrap64 (PingRate (Healthcheck c) * Second) \<le> 0 then None
      else Some (pingLoop get (PingURL (Healthcheck c)) is))"

section \<open>Run\<close>

datatype monitor = PingMonitor | WatchMonitor string | HealthMonitor string | ChainMonitor string

definition monitorsOf :: "Config \<Rightarrow> monitor list" where
  "monitorsOf td =
     (if hc_Enabled (Healthcheck td) then [PingMonitor] else []) @
     concat (map (\<lambda>k. [WatchMonitor k, HealthMonitor k, ChainMonitor k]) (m_keys (Chains td)))"

text \<open>Who receives from the channels of the dashboard and of the statistics.\<close>

datatype consumer = DashboardServer | PrometheusServer | Discards

record started =
  st_td :: Config
  st_life :: life
  st_monitors :: "monitor list"
  st_updates :: "consumer option"
  st_stats :: "consumer option"

definition startMonitors :: "monitor list \<Rightarrow> life \<Rightarrow> life" where
  "startMonitors ms s = s\<lparr>procs := procs s @ map (\<lambda>_. Outside) ms\<rparr>"

text \<open>\<open>quitting\<close> tells whether a signal arrived before the goroutines were started.\<close>

definition Run :: "config_env \<Rightarrow> string \<Rightarrow> path \<Rightarrow> string \<Rightarrow> string \<Rightarrow> bool \<Rightarrow> (config_error + started) option" where
  "Run env configFile stateFile chainConfigDirectory password quitting =
     do { started \<leftarrow> startConfig env configFile stateFile chainConfigDirectory password;
          case started of
            Inl e \<Rightarrow> Some (Inl e)
          | Inr td0 \<Rightarrow>
              (let td = td0\<lparr>accepting := True\<rparr> in
               if quitting
               then Some (Inr \<lparr>st_td = td, st_life = newRuntimeLifecycle, st_monitors = [], st_updates = None, st_stats = None\<rparr>)
               else Some (Inr
                 \<lparr>st_td = td,
                  st_life = startMonitors (monitorsOf td) (newRuntimeLifecycle\<lparr>notifier := Receiving\<rparr>),
                  st_monitors = monitorsOf td,
                  st_updates = Some (if EnableDash td then DashboardServer else Discards),
                  st_stats = Some (if Prom td then PrometheusServer else Discards)\<rparr>)) }"

section \<open>Operations on the shared state\<close>

datatype operation =
    WatchWait time string string watchLocals
  | WatchInit string
  | WatchNoNodes time ValInfo string watchLocals
  | WatchStalled time string
  | WatchJailed time ValInfo "ValInfo option" string watchLocals
  | WatchConsecutive time ValInfo string watchLocals
  | WatchPercentage time string
  | WatchNode time nat string watchLocals
  | WatchStats time string
  | Probe time nat string
  | Connect "nat \<Rightarrow> time" string
  | Refresh bool string
  | StatusReceived time string string StatusUpdate int
  | SocketOpened string string
  | SocketClosed string
  | AlertReceived
  | StatusShown
  | StatExported
  | ReserveStep time alertMsg notifyDest
  | CompleteStep time alertMsg notifyDest bool
  | ContextDone nat

fun runOperation :: "rpc_env \<Rightarrow> operation \<Rightarrow> Config \<Rightarrow> Config option" where
  "runOperation env (WatchWait now valcons k st) td = map_option snd (watchWaitRound now valcons k st td)"
| "runOperation env (WatchInit k) td = map_option snd (watchInitStats k td)"
| "runOperation env (WatchNoNodes now vi k st) td = map_option snd (noNodesStage now vi k st td)"
| "runOperation env (WatchStalled now k) td = checkStalledAlert now k td"
| "runOperation env (WatchJailed now vi last_vi k st) td = map_option snd (jailedStage now vi last_vi k st td)"
| "runOperation env (WatchConsecutive now vi k st) td = map_option snd (consecutiveStage now vi k st td)"
| "runOperation env (WatchPercentage now k) td = checkPercentageAlert now k td"
| "runOperation env (WatchNode now i k st) td = map_option snd (nodeStage now i k st td)"
| "runOperation env (WatchStats now k) td = map_option snd (promStage now k td)"
| "runOperation env (Probe now i k) td = probeNode env now k i k td"
| "runOperation env (Connect clock k) td = map_option snd (newRpc env clock k td)"
| "runOperation env (Refresh first k) td = map_option snd (GetValInfo env first k td)"
| "runOperation env (StatusReceived now stamp k u signState) td = map_option (snd \<circ> snd) (statusStep now stamp k u signState td)"
| "runOperation env (SocketOpened endpoint k) td = Some (atChain k (\<lambda>cc. cc\<lparr>wsclient := Some endpoint\<rparr>) td)"
| "runOperation env (SocketClosed k) td = Some (atChain k closeWebSocket td)"
| "runOperation env AlertReceived td = Some (td\<lparr>alertChan := tl (alertChan td)\<rparr>)"
| "runOperation env StatusShown td = Some (td\<lparr>updateChan := tl (updateChan td)\<rparr>)"
| "runOperation env StatExported td = Some (td\<lparr>statsChan := tl (statsChan td)\<rparr>)"
| "runOperation env (ReserveStep now msg d) td = Some (td\<lparr>alarms := snd (reserveDelivery now msg d (alarms td))\<rparr>)"
| "runOperation env (CompleteStep now msg d accepted) td = Some (td\<lparr>alarms := completeDelivery now msg d accepted (alarms td)\<rparr>)"
| "runOperation env (ContextDone n) td = Some (td\<lparr>statsLeft := Some n\<rparr>)"

text \<open>The monitors work on the chains they were started for, and on the nodes these have.\<close>

definition nodeOf :: "string \<Rightarrow> nat \<Rightarrow> Config \<Rightarrow> bool" where
  "nodeOf k i td = (case chainAt td k of None \<Rightarrow> False | Some cc \<Rightarrow> i < length (Nodes cc))"

fun concerns :: "operation \<Rightarrow> Config \<Rightarrow> bool" where
  "concerns (WatchWait now valcons k st) td = (chainAt td k \<noteq> None)"
| "concerns (WatchInit k) td = (chainAt td k \<noteq> None)"
| "concerns (WatchNoNodes now vi k st) td = (chainAt td k \<noteq> None)"
| "concerns (WatchStalled now k) td = (chainAt td k \<noteq> None)"
| "concerns (WatchJailed now vi last_vi k st) td = (chainAt td k \<noteq> None)"
| "concerns (WatchConsecutive now vi k st) td = (chainAt td k \<noteq> None)"
| "concerns (WatchPercentage now k) td = (chainAt td k \<noteq> None)"
| "concerns (WatchNode now i k st) td = nodeOf k i td"
| "concerns (WatchStats now k) td = (chainAt td k \<noteq> None)"
| "concerns (Probe now i k) td = nodeOf k i td"
| "concerns (Connect clock k) td = (chainAt td k \<noteq> None)"
| "concerns (Refresh first k) td = (chainAt td k \<noteq> None)"
| "concerns (StatusReceived now stamp k u signState) td = (chainAt td k \<noteq> None)"
| "concerns op td = True"

text \<open>Each operation with the answers the network gives it.\<close>

fun runOperations :: "(rpc_env \<times> operation) list \<Rightarrow> Config \<Rightarrow> Config option" where
  "runOperations [] td = Some td"
| "runOperations ((env, op) # ops) td = do { td1 \<leftarrow> runOperation env op td; runOperations ops td1 }"

section \<open>The monitor of a chain\<close>

text \<open>What one round of the loop meets: whether the context is done at the head of the loop, after the session and during the
  waits, and the operations on the shared state while the websocket session lasts.\<close>

record monitor_round =
  mr_env :: rpc_env
  mr_clock :: "nat \<Rightarrow> time"
  mr_done :: bool
  mr_session :: "(rpc_env \<times> operation) list"
  mr_sessionDone :: bool
  mr_waitDone :: bool

datatype monitor_end = MonitorStopped | MonitorGoesOn

fun monitorChain :: "monitor_round list \<Rightarrow> string \<Rightarrow> Config \<Rightarrow> (monitor_end \<times> Config) option" where
  "monitorChain [] k td = Some (MonitorGoesOn, td)"
| "monitorChain (r # rs) k td =
     (if mr_done r then Some (MonitorStopped, td)
      else do { (action, td1) \<leftarrow> monitorChainRound (mr_env r) (mr_clock r) k td;
                case action of
                  RetryLater \<Rightarrow> if mr_waitDone r then Some (MonitorStopped, td1) else monitorChain rs k td1
                | RunWebsocket \<Rightarrow>
                    do { td2 \<leftarrow> runOperations (mr_session r) td1;
                         if mr_sessionDone r \<or> mr_waitDone r then Some (MonitorStopped, td2) else monitorChain rs k td2 } })"

section \<open>What operations keep\<close>

text \<open>The process stays well-formed, with the same chains: name, identifiers, alert settings and nodes.\<close>

definition sameChains :: "Config \<Rightarrow> Config \<Rightarrow> bool" where
  "sameChains td td' \<longleftrightarrow> td_wf td' \<and> (\<forall>k. map_option fixedParts (chainAt td' k) = map_option fixedParts (chainAt td k))"

lemma sameChains_refl [intro]: "td_wf td \<Longrightarrow> sameChains td td"
  by (simp add: sameChains_def)

lemma sameChains_trans [trans]: "sameChains td td1 \<Longrightarrow> sameChains td1 td2 \<Longrightarrow> sameChains td td2"
  by (simp add: sameChains_def)

lemma evolves_same: "evolves k td td' \<Longrightarrow> sameChains td td'"
  by (auto simp: evolves_def sameChains_def)

lemma putChain_same:
  assumes "td_wf td" "chainAt td k = Some cc" "fixedParts cc' = fixedParts cc"
  shows "sameChains td (putChain k cc' td)"
  using assms td_wf_name [OF assms(1,2)] td_wf_putChain [OF assms(1), of cc' k]
  by (simp add: sameChains_def fixedParts_def)

lemma channels_same:
  "sameChains td (td'\<lparr>statsChan := st, statsLeft := l\<rparr>) = sameChains td td'"
  "sameChains td (td'\<lparr>updateChan := us\<rparr>) = sameChains td td'" "sameChains td (td'\<lparr>alertChan := q\<rparr>) = sameChains td td'"
  "sameChains td (td'\<lparr>statsChan := st\<rparr>) = sameChains td td'" "sameChains td (td'\<lparr>statsLeft := l\<rparr>) = sameChains td td'"
  by (simp_all add: sameChains_def td_wf_def)

lemma alarms_same: "td_wf td \<Longrightarrow> cache_wf a \<Longrightarrow> sameChains td (td\<lparr>alarms := a\<rparr>)"
  by (simp add: sameChains_def td_wf_def)

lemma sameChains_present: "sameChains td td' \<Longrightarrow> (chainAt td' k = None) = (chainAt td k = None)"
  unfolding sameChains_def by (metis map_option_is_None)

lemma sameChains_fixed:
  "sameChains td td' \<Longrightarrow> chainAt td k = Some cc \<Longrightarrow> \<exists>cc'. chainAt td' k = Some cc' \<and> fixedParts cc' = fixedParts cc"
  unfolding sameChains_def by (metis map_option_eq_Some option.simps(9))

lemma sameChains_nodes: "sameChains td td' \<Longrightarrow> nodeOf k i td' = nodeOf k i td"
proof -
  assume same: "sameChains td td'"
  show ?thesis
  proof (cases "chainAt td k")
    case (Some cc)
    then obtain cc' where "chainAt td' k = Some cc'" "fixedParts cc' = fixedParts cc" using sameChains_fixed [OF same] by blast
    then show ?thesis using Some by (auto simp: nodeOf_def fixedParts_def dest: map_eq_imp_length_eq)
  next
    case None
    then show ?thesis using sameChains_present [OF same, of k] by (simp add: nodeOf_def)
  qed
qed

lemma sameChains_concerns: "sameChains td td' \<Longrightarrow> concerns op td' = concerns op td"
  by (cases op) (simp_all add: sameChains_present sameChains_nodes)

lemma fixedParts_simps [simp]:
  "fixedParts (setNoNodes b cc) = fixedParts cc" "fixedParts (setRPCClient c cc) = fixedParts cc"
  "fixedParts (connectTo c cc) = fixedParts cc" "fixedParts (publishValidatorInfo vi keep cc) = fixedParts cc"
  "fixedParts (cc\<lparr>activeAlerts := n\<rparr>) = fixedParts cc" "fixedParts (cc\<lparr>wsclient := w\<rparr>) = fixedParts cc"
  "fixedParts (cc\<lparr>lastError := e\<rparr>) = fixedParts cc" "fixedParts (cc\<lparr>lastBlockNum := h\<rparr>) = fixedParts cc"
  "fixedParts (snd (recordBlockResult r cc)) = fixedParts cc" "fixedParts (countResult r cc) = fixedParts cc"
  "fixedParts (snd (recordFinalBlock now cc)) = fixedParts cc"
  by (simp_all add: fixedParts_def setNoNodes_def setRPCClient_def connectTo_def publishValidatorInfo_def
      recordBlockResult_def countResult_def recordFinalBlock_def Let_def)

lemma fixedParts_node [simp]: "fixedParts (updateNodeAt i f cc) = fixedParts cc"
proof (cases "i < length (Nodes cc)")
  case True
  then have "map (\<lambda>n. (Url n, AlertIfDown n)) ((Nodes cc)[i := snd (updateNodeState f (Nodes cc ! i))]) =
      map (\<lambda>n. (Url n, AlertIfDown n)) (Nodes cc)"
    by (intro nth_equalityI) (auto simp: nth_list_update updateNodeState_def Let_def split: prod.splits)
  then show ?thesis by (simp add: fixedParts_def updateNodeAt_def)
next
  case False
  then have "(Nodes cc)[i := n] = Nodes cc" for n by (simp add: list_update_beyond)
  then show ?thesis unfolding updateNodeAt_def by (simp add: fixedParts_def)
qed

lemma fixedParts_result [simp]: "fixedParts (snd (snd (recordResult stamp vi r h info cc))) = fixedParts cc"
proof -
  obtain bs cc1 where "recordBlockResult r cc = (bs, cc1)" by force
  moreover from this have "fixedParts cc1 = fixedParts cc" using fixedParts_simps(9) [of r cc] by simp
  ultimately show ?thesis by (simp add: recordResult_def Let_def)
qed

lemma tryNodes_fixed: "tryNodes env clock w is cc = (found, cc1) \<Longrightarrow> fixedParts cc1 = fixedParts cc"
  by (induction "is" arbitrary: cc) (auto split: if_splits sum.splits)

lemma emitStat_same: "sameChains td td1 \<Longrightarrow> sameChains td (snd (emitStat u td1))"
  using emitStat_snd [of u td1] by (auto simp: channels_same)

lemma emitStats_same: "sameChains td td1 \<Longrightarrow> sameChains td (snd (emitStats us td1))"
proof -
  assume same: "sameChains td td1"
  obtain ok td' where e: "emitStats us td1 = (ok, td')" by force
  show ?thesis using emitStats_frame [OF e] same by (auto simp: e channels_same)
qed

lemma newRpc_same:
  assumes "td_wf td" "chainAt td k = Some cc"
  shows "\<exists>err td'. newRpc env clock k td = Some (err, td') \<and> sameChains td td'"
proof -
  obtain found cc1 where tn: "tryNodes env clock (\<exists>n\<in>set (Nodes cc). \<not> down n) [0..<length (Nodes cc)] cc = (found, cc1)" by force
  note run = newRpc_run [OF assms(2) tn] and fixed = tryNodes_fixed [OF tn]
  have conn: "sameChains td (putChain k (connectTo c cc1) td)" for c
    using putChain_same [OF assms] fixed by simp
  define cc2 where "cc2 = (setNoNodes True cc1)\<lparr>activeAlerts := getCount (name cc1) (alarms td),
    lastError := ''no usable RPC endpoints available for '' @ ChainId cc1\<rparr>"
  have "sameChains td (putChain k cc2 td)" using putChain_same [OF assms, of cc2] fixed by (simp add: cc2_def)
  then have "sameChains td (snd (noEndpoints k cc1 td))"
    unfolding noEndpoints_def Let_def cc2_def [symmetric] by (simp add: channels_same)
  then show ?thesis using run conn by (cases found; cases "publicFallback env cc1") auto
qed

lemma GetValInfo_same:
  assumes "td_wf td" "chainAt td k = Some cc" "fetchValInfo env first cc \<noteq> None"
  shows "\<exists>err td'. GetValInfo env first k td = Some (err, td') \<and> sameChains td td'"
proof -
  obtain r where r: "fetchValInfo env first cc = Some r" using assms(3) by blast
  show ?thesis
  proof (cases r)
    case (Inl e)
    then show ?thesis using assms r by (auto simp: GetValInfo_def)
  next
    case (Inr vi)
    have put: "sameChains td (putChain k (publishValidatorInfo vi b cc) td)" for b using putChain_same [OF assms(1,2)] by simp
    show ?thesis
    proof (cases first)
      case True
      then show ?thesis using assms r Inr by (simp add: GetValInfo_def Let_def emitStat_same put)
    next
      case False
      then show ?thesis using assms r Inr by (simp add: GetValInfo_def Let_def emitStat_same put)
    qed
  qed
qed

lemma probeNode_same:
  assumes "td_wf td" "chainAt td k = Some cc"
  shows "\<exists>td'. probeNode env now nm i k td = Some td' \<and> sameChains td td'"
proof (cases "probeResult env cc (Nodes cc ! i)")
  case Healthy
  have "sameChains td (putChain k (setNoNodes False (updateNodeAt i markHealthy cc)) td)" using putChain_same [OF assms] by simp
  then show ?thesis using assms Healthy by (simp add: probeNode_def Let_def emitStat_same)
next
  case (Unhealthy msg sy)
  define cc1 where "cc1 = updateNodeAt i (markUnhealthy now nm (Nodes cc ! i) msg) cc"
  define td2 where "td2 = (if Prom (putChain k cc1 td) \<and> AlertIfDown (Nodes cc ! i)
      then snd (emitStat (mkUpdate metricNodeDownSeconds (Seconds (Since now (downSince (Nodes cc1 ! i)))) (Url (Nodes cc ! i)) cc1)
        (putChain k cc1 td)) else putChain k cc1 td)"
  have step: "probeNode env now nm i k td =
      Some (if sy then putChain k (updateNodeAt i (\<lambda>s. s\<lparr>ns_syncing := True\<rparr>) cc1) td2 else td2)"
    using assms Unhealthy by (simp add: probeNode_def Let_def td2_def flip: cc1_def)
  have same: "sameChains td td2"
    using putChain_same [OF assms, of cc1] by (simp add: td2_def emitStat_same cc1_def)
  then obtain cc2 where cc2: "chainAt td2 k = Some cc2" "fixedParts cc2 = fixedParts cc" using sameChains_fixed assms(2) by blast
  have "sameChains td2 (putChain k (updateNodeAt i (\<lambda>s. s\<lparr>ns_syncing := True\<rparr>) cc1) td2)"
    using same cc2 by (intro putChain_same [OF _ cc2(1)]) (simp_all add: sameChains_def cc1_def)
  then show ?thesis using step same sameChains_trans by auto
qed

lemma statusStep_same:
  assumes "td_wf td" "chainAt td k = Some cc"
  shows "\<exists>go s' td'. statusStep now stamp k u s td = Some (go, s', td') \<and> sameChains td td'"
proof (cases "fst (validatorInfoSnapshot cc)")
  case None
  then show ?thesis using assms by (auto simp: statusStep_def)
next
  case (Some vi)
  obtain ok td2 where b: "blockSeen now k u cc td = (ok, td2)" by force
  define cc1 where "cc1 = snd (recordFinalBlock now (cc\<lparr>lastBlockNum := Height u\<rparr>))"
  have "fixedParts cc1 = fixedParts cc" by (simp add: cc1_def)
  from putChain_same [OF assms this] have "sameChains td (snd (blockSeen now k u cc td))"
    unfolding blockSeen_def split_def Let_def cc1_def by (simp add: emitStat_same)
  then have same2: "sameChains td td2" using b by simp
  then obtain cc2 where cc2: "chainAt td2 k = Some cc2" using sameChains_fixed assms(2) by blast
  obtain go td5 where p: "publishResult stamp k u vi (raiseSignState u vi s) cc2 td2 = (go, td5)" by force
  obtain info n upd us where eq: "publishResult stamp k u vi (raiseSignState u vi s) cc2 td2 =
     (let td4 = (putChain k ((snd (snd (recordResult stamp vi (raiseSignState u vi s) (Height u) info cc2)))\<lparr>activeAlerts := n\<rparr>)
                  td2)\<lparr>updateChan := upd\<rparr>
      in if Prom td4 then emitStats us td4 else (True, td4))"
    using publishResult_eq by metis
  have wf2: "td_wf td2" using same2 by (simp add: sameChains_def)
  have "sameChains td2 (snd (publishResult stamp k u vi (raiseSignState u vi s) cc2 td2))"
    unfolding eq Let_def using putChain_same [OF wf2 cc2] by (simp add: emitStats_same channels_same)
  then have "sameChains td td5" using p same2 sameChains_trans by auto
  then show ?thesis using Some assms b p cc2 same2 by (auto simp: statusStep_def Let_def)
qed

section \<open>No operation panics\<close>

text \<open>The network is behind the CometBFT adapter; the operator addresses have twenty bytes, or are consensus addresses.\<close>

definition networkOk :: "rpc_env \<Rightarrow> bool" where
  "networkOk env \<longleftrightarrow> (\<exists>lib env0. env = adapterEnv lib env0 \<and> lib_ok lib \<and> (\<forall>n. n \<le> sliceCap env0 n))"

definition longAddresses :: "Config \<Rightarrow> bool" where
  "longAddresses td \<longleftrightarrow> (\<forall>k cc. chainAt td k = Some cc \<longrightarrow> Contains (ValAddress cc) ''valcons'' \<or> 20 \<le> length (ValAddress cc))"

lemma longAddresses_same: "sameChains td td' \<Longrightarrow> longAddresses td \<Longrightarrow> longAddresses td'"
proof -
  assume same: "sameChains td td'" and long: "longAddresses td"
  have "Contains (ValAddress cc') ''valcons'' \<or> 20 \<le> length (ValAddress cc')" if cc': "chainAt td' k = Some cc'" for k cc'
  proof -
    obtain cc where cc: "chainAt td k = Some cc" using sameChains_present [OF same, of k] cc' by auto
    then have "ValAddress cc' = ValAddress cc" using sameChains_fixed [OF same cc] cc' by (auto simp: fixedParts_def)
    then show ?thesis using long cc by (auto simp: longAddresses_def)
  qed
  then show ?thesis by (auto simp: longAddresses_def)
qed

text \<open>An operation that returns and keeps the chains.\<close>

definition safely :: "Config \<Rightarrow> Config option \<Rightarrow> bool" where
  "safely td r \<longleftrightarrow> (\<exists>td'. r = Some td' \<and> sameChains td td')"

lemma safely_Some [simp]: "safely td (Some td') = sameChains td td'"
  by (simp add: safely_def)

lemma safely_stage: "stage_ok k f \<Longrightarrow> td_wf td \<Longrightarrow> chainAt td k \<noteq> None \<Longrightarrow> safely td (map_option snd (f st td))"
proof -
  assume "stage_ok k f" "td_wf td" "chainAt td k \<noteq> None"
  then obtain st' td' where "f st td = Some (st', td')" "evolves k td td'" by (rule stage_okE)
  then show ?thesis using evolves_same by simp
qed

lemmas watch_stages = watchWaitRound_ok noNodesStage_ok jailedStage_ok consecutiveStage_ok nodeStage_ok

lemma safely_watch:
  assumes "td_wf td" "chainAt td k \<noteq> None"
  shows "safely td (map_option snd (watchInitStats k td))" "safely td (checkStalledAlert now k td)"
    "safely td (checkPercentageAlert now k td)" "safely td (map_option snd (promStage now k td))"
proof -
  obtain cc where cc: "chainAt td k = Some cc" using assms(2) by auto
  show "safely td (map_option snd (watchInitStats k td))"
    using assms(1) by (simp add: watchInitStats_def cc emitStats_same sameChains_refl)
  obtain td1 where "checkStalledAlert now k td = Some td1" "evolves k td td1" using checkStalledAlert_ok [OF assms] by blast
  then show "safely td (checkStalledAlert now k td)" by (simp add: evolves_same)
  obtain td2 where "checkPercentageAlert now k td = Some td2" "evolves k td td2" using checkPercentageAlert_ok [OF assms] by blast
  then show "safely td (checkPercentageAlert now k td)" by (simp add: evolves_same)
  obtain ok td3 where "promStage now k td = Some (ok, td3)" "evolves k td td3" using promStage_ok [OF assms] by blast
  then show "safely td (map_option snd (promStage now k td))" by (simp add: evolves_same)
qed

lemma safely_network:
  assumes "td_wf td" "chainAt td k \<noteq> None"
  shows "safely td (probeNode env now nm i k td)" "safely td (map_option snd (newRpc env clock k td))"
    "safely td (map_option (snd \<circ> snd) (statusStep now stamp k u s td))"
    "longAddresses td \<Longrightarrow> networkOk env \<Longrightarrow> safely td (map_option snd (GetValInfo env first k td))"
proof -
  obtain cc where cc: "chainAt td k = Some cc" using assms(2) by auto
  show "safely td (probeNode env now nm i k td)" using probeNode_same [OF assms(1) cc] by (simp add: safely_def)
  obtain err td1 where "newRpc env clock k td = Some (err, td1)" "sameChains td td1" using newRpc_same [OF assms(1) cc] by blast
  then show "safely td (map_option snd (newRpc env clock k td))" by simp
  obtain go s' td2 where "statusStep now stamp k u s td = Some (go, s', td2)" "sameChains td td2"
    using statusStep_same [OF assms(1) cc] by blast
  then show "safely td (map_option (snd \<circ> snd) (statusStep now stamp k u s td))" by simp
  assume long: "longAddresses td" and "networkOk env"
  then obtain lib env0 where "env = adapterEnv lib env0" "lib_ok lib" "\<forall>n. n \<le> sliceCap env0 n" by (auto simp: networkOk_def)
  then have "fetchValInfo env first cc = None \<Longrightarrow> \<not> Contains (ValAddress cc) ''valcons'' \<and> length (ValAddress cc) < 20"
    using fetch_panics_short by blast
  moreover have "Contains (ValAddress cc) ''valcons'' \<or> 20 \<le> length (ValAddress cc)" using long cc by (auto simp: longAddresses_def)
  ultimately have "fetchValInfo env first cc \<noteq> None" by linarith
  then obtain err td3 where "GetValInfo env first k td = Some (err, td3)" "sameChains td td3"
    using GetValInfo_same [OF assms(1) cc] by blast
  then show "safely td (map_option snd (GetValInfo env first k td))" by simp
qed

lemma atChain_same: "td_wf td \<Longrightarrow> (\<And>cc. fixedParts (f cc) = fixedParts cc) \<Longrightarrow> sameChains td (atChain k f td)"
  using putChain_same by (auto simp: atChain_def split: option.split)

lemma closeWebSocket_fixed [simp]: "fixedParts (closeWebSocket cc) = fixedParts cc"
  by (simp add: closeWebSocket_def)

lemma delivery_same:
  assumes "td_wf td"
  shows "sameChains td (td\<lparr>alarms := snd (reserveDelivery now msg d (alarms td))\<rparr>)"
    "sameChains td (td\<lparr>alarms := completeDelivery now msg d acc (alarms td)\<rparr>)"
  using assms cache_wf_reserve cache_wf_complete by (simp_all add: alarms_same td_wf_def)

lemma nodeOf_present: "nodeOf k i td \<Longrightarrow> chainAt td k \<noteq> None"
  by (cases "chainAt td k") (simp_all add: nodeOf_def)

lemma runOperation_safely:
  assumes "td_wf td" "longAddresses td" "networkOk env" "concerns op td"
  shows "safely td (runOperation env op td)"
  using assms
proof (cases op)
  case (WatchNode now i k st)
  then show ?thesis using assms nodeOf_present safely_stage [OF nodeStage_ok] unfolding WatchNode runOperation.simps concerns.simps by blast
next
  case (Probe now i k)
  then show ?thesis using assms nodeOf_present safely_network(1) unfolding Probe runOperation.simps concerns.simps by blast
qed (simp_all add: safely_stage [OF watch_stages(1)] safely_stage [OF watch_stages(2)] safely_stage [OF watch_stages(3)]
    safely_stage [OF watch_stages(4)] safely_watch safely_network atChain_same delivery_same channels_same sameChains_refl
    del: not_None_eq)

lemma runOperations_same:
  assumes "td_wf td" "longAddresses td" "list_all (\<lambda>(env, op). networkOk env \<and> concerns op td) ops"
  shows "\<exists>td'. runOperations ops td = Some td' \<and> sameChains td td'"
  using assms
proof (induction ops arbitrary: td)
  case (Cons e ops)
  obtain env op where e: "e = (env, op)" by force
  obtain td1 where 1: "runOperation env op td = Some td1" "sameChains td td1"
    using runOperation_safely [of td env op] Cons.prems e by (auto simp: safely_def)
  have "td_wf td1" "longAddresses td1" "list_all (\<lambda>(env, op). networkOk env \<and> concerns op td1) ops"
    using 1(2) Cons.prems longAddresses_same sameChains_concerns [OF 1(2)] by (auto simp: sameChains_def e)
  from Cons.IH [OF this] obtain td2 where "runOperations ops td1 = Some td2" "sameChains td1 td2" by blast
  then show ?case using 1 e sameChains_trans by auto
qed auto

lemma monitorRound_same:
  assumes "td_wf td" "longAddresses td" "chainAt td k \<noteq> None" "networkOk env"
  shows "\<exists>action td'. monitorChainRound env clock k td = Some (action, td') \<and> sameChains td td'"
proof -
  obtain cc where cc: "chainAt td k = Some cc" using assms(3) by auto
  obtain err td1 where 1: "newRpc env clock k td = Some (err, td1)" "sameChains td td1"
    using newRpc_same [OF assms(1) cc] by blast
  have w1: "td_wf td1" "longAddresses td1" "chainAt td1 k \<noteq> None"
    using 1(2) assms longAddresses_same sameChains_present [OF 1(2), of k] by (auto simp: sameChains_def)
  have "safely td1 (map_option snd (GetValInfo env True k td1))" by (rule safely_network(4) [OF w1(1,3,2) assms(4)])
  then obtain verr td2 where 2: "GetValInfo env True k td1 = Some (verr, td2)" "sameChains td1 td2" by (auto simp: safely_def)
  then show ?thesis using 1 sameChains_trans by (cases err) (auto simp: monitorChainRound_def)
qed

section \<open>The start of the process\<close>

lemma monitors_started:
  assumes "reach I (lstep timer) s" "phase s = Running" "notifier s \<noteq> NoWorker"
  shows "reach I (lstep timer) (startMonitors ms s)"
  using assms
proof (induction ms arbitrary: s)
  case (Cons m ms)
  let ?s1 = "s\<lparr>procs := procs s @ [Outside]\<rparr>"
  have "reach I (lstep timer) ?s1" using reach_step [OF Cons.prems(1) lstep.start_monitor] Cons.prems by simp
  from Cons.IH [OF this] Cons.prems show ?case by (simp add: startMonitors_def)
qed (simp add: startMonitors_def)

lemma Run_Inr:
  assumes "Run env configFile stateFile dir password quitting = Some (Inr s)"
  obtains td0 where "startConfig env configFile stateFile dir password = Some (Inr td0)" "st_td s = td0\<lparr>accepting := True\<rparr>"
    "st_monitors s = (if quitting then [] else monitorsOf (st_td s))"
    "st_life s = (if quitting then newRuntimeLifecycle
       else startMonitors (st_monitors s) (newRuntimeLifecycle\<lparr>notifier := Receiving\<rparr>))"
  using assms unfolding Run_def
  by (cases "startConfig env configFile stateFile dir password") (auto simp: Let_def split: sum.splits if_splits)

lemma Run_wf:
  assumes "env_ok env" "Run env configFile stateFile dir password quitting = Some (Inr s)"
  shows "td_wf (st_td s)"
proof -
  obtain td0 where td0: "startConfig env configFile stateFile dir password = Some (Inr td0)" "st_td s = td0\<lparr>accepting := True\<rparr>"
    using Run_Inr [OF assms(2)] by blast
  then show ?thesis using startConfig_wf [OF assms(1)] by (simp add: td_wf_def)
qed

lemma monitorsOf_distinct: "m_wf (Chains td) \<Longrightarrow> distinct (monitorsOf td)"
proof -
  have "distinct ks \<Longrightarrow> distinct (concat (map (\<lambda>k. [WatchMonitor k, HealthMonitor k, ChainMonitor k]) ks))" for ks
    by (induction ks) auto
  then show "m_wf (Chains td) \<Longrightarrow> distinct (monitorsOf td)" by (auto simp: monitorsOf_def m_wf_def)
qed

lemma monitorsOf_set:
  "set (monitorsOf td) = (if hc_Enabled (Healthcheck td) then {PingMonitor} else {}) \<union>
     (\<Union>k\<in>dom (chainAt td). {WatchMonitor k, HealthMonitor k, ChainMonitor k})"
proof -
  have "set (m_keys (Chains td)) = dom (chainAt td)"
    using m_has_iff_keys [of "Chains td"] by (auto simp: m_has_def dom_def)
  then show ?thesis by (simp add: monitorsOf_def)
qed

section \<open>Properties\<close>

text \<open>C14: A configuration that passes validation starts a well-formed process that accepts alerts, whose goroutines are in a state of the
  lifecycle model: one notification worker and, for every chain, exactly one watch loop, one health monitor and one
  chain monitor, and the healthcheck monitor if it is enabled. A signal that arrives before that starts none of them.\<close>

theorem run_starts:
  assumes "env_ok env" "Run env configFile stateFile dir password quitting = Some (Inr s)"
  shows "td_wf (st_td s) \<and> accepting (st_td s) \<and>
    reach (\<lambda>l. l = newRuntimeLifecycle) (lstep timer) (st_life s) \<and> length (procs (st_life s)) = length (st_monitors s) \<and>
    distinct (st_monitors s) \<and>
    set (st_monitors s) =
      (if quitting then {}
       else (if hc_Enabled (Healthcheck (st_td s)) then {PingMonitor} else {}) \<union>
         (\<Union>k\<in>dom (chainAt (st_td s)). {WatchMonitor k, HealthMonitor k, ChainMonitor k}))"
proof -
  have wf: "td_wf (st_td s)" by (rule Run_wf [OF assms])
  obtain td0 where s: "st_td s = td0\<lparr>accepting := True\<rparr>" "st_monitors s = (if quitting then [] else monitorsOf (st_td s))"
    "st_life s = (if quitting then newRuntimeLifecycle
       else startMonitors (st_monitors s) (newRuntimeLifecycle\<lparr>notifier := Receiving\<rparr>))" using Run_Inr [OF assms(2)] by metis
  let ?R = "reach (\<lambda>l. l = newRuntimeLifecycle) (lstep timer)"
  have new: "phase newRuntimeLifecycle = Running" "notifier newRuntimeLifecycle = NoWorker" "procs newRuntimeLifecycle = []"
    by (simp_all add: newRuntimeLifecycle_def startAlertIngress_def)
  have init: "?R newRuntimeLifecycle" by (rule reach_init) simp
  have "?R (newRuntimeLifecycle\<lparr>notifier := Receiving\<rparr>)" using reach_step [OF init lstep.start_worker] new by simp
  then have "?R (st_life s)" using init monitors_started new s(3) by simp
  moreover have "length (procs (st_life s)) = length (st_monitors s)" using s(2,3) new by (simp add: startMonitors_def)
  moreover have "distinct (st_monitors s)" using s(2) wf monitorsOf_distinct by (simp add: td_wf_def)
  ultimately show ?thesis using wf s(1,2) monitorsOf_set [of "st_td s"] by simp
qed


text \<open>The healthcheck monitor: a rate that is missing (zero) stops the process, as no check of the configuration looks at it; every rate up to the limit of
  the conversion to nanoseconds works.\<close>

lemma healthcheck_rate:
  assumes "hc_Enabled (Healthcheck c)"
  shows "PingRate (Healthcheck c) = 0 \<Longrightarrow> pingHealthcheck get is c = None"
    "0 < PingRate (Healthcheck c) \<Longrightarrow> PingRate (Healthcheck c) \<le> 9223372036 \<Longrightarrow>
      pingHealthcheck get is c = Some (pingLoop get (PingURL (Healthcheck c)) is)"
    "PingRate (Healthcheck c) = 9223372037 \<Longrightarrow> pingHealthcheck get is c = None"
  using assms by (simp_all add: pingHealthcheck_def Second_def wrap64_def)

text \<open>Witnesses: a process with one chain, a network that answers nothing.\<close>

lemma boot_Run:
  "\<exists>s. Run (boot_env (Map [(''osmosis'', Some boot_chain)])) ''config.yml'' sample_path ''chains.d'' '''' False = Some (Inr s)"
  using boot_starts by (auto simp: Run_def Let_def)

theorem run_starts_witness:
  "\<exists>s. Run (boot_env (Map [(''osmosis'', Some boot_chain)])) ''config.yml'' sample_path ''chains.d'' '''' False = Some (Inr s) \<and>
     td_wf (st_td s) \<and> length (procs (st_life s)) = length (st_monitors s)"
  using boot_Run run_starts [OF boot_env_ok] by blast

lemma sample_network: "networkOk (adapterEnv sample_lib sample_env)"
  unfolding networkOk_def by (intro exI conjI, rule refl) (simp_all add: lib_ok_def sample_lib_def sample_env_def)

definition long_td :: Config where
  "long_td = putChain ''osmosis'' (sample_chain\<lparr>ValAddress := ''osmovaloper1abcdefghij''\<rparr>) sample_td"

lemma long_td_ok: "td_wf long_td" "longAddresses long_td" "chainAt long_td ''osmosis'' \<noteq> None"
proof -
  show "td_wf long_td" unfolding long_td_def by (rule td_wf_putChain [OF sample_td_wf]) (simp add: sample_chain_def)
  show "longAddresses long_td"
    by (auto simp: longAddresses_def long_td_def sample_td_def putChain_def gmap_simps m_lookup_def split: if_splits)
  show "chainAt long_td ''osmosis'' \<noteq> None" by (simp add: long_td_def)
qed


end
