(* ===== verification/Spec2Isabelle.thy ===== *)
theory Spec2Isabelle
  imports Sender Exporter Dashboard Vulncheck Process
begin

text \<open>
  A verification development of NosNode Seer, a monitor for validators of Cosmos chains (Go, under \<open>src/\<close>).

  \<^bold>\<open>The program.\<close> \<open>main.go\<close> parses the command line and either converts a configuration file (\<open>seer/encryption.go\<close>) or calls
  \<open>Run\<close> (\<open>seer/run.go\<close>). \<open>Run\<close> loads and validates the configuration with the state saved by the last run
  (\<open>types.go\<close>, \<open>state.go\<close>) and starts goroutines: for every chain a watch loop that raises and resolves alarms (\<open>alert.go\<close>), a
  health monitor of its nodes (\<open>rpc.go\<close>) and a monitor that selects an endpoint, refreshes the validator
  (\<open>validator.go\<close>) and runs a websocket session for blocks and votes (\<open>ws.go\<close>, behind \<open>cometbft_adapter.go\<close>). Alarms go through a
  bounded channel to one notification worker, which delivers each to up to four services and records what was accepted
  in the alarm cache. Statistics go to the Prometheus exporter, chain states and log lines to the dashboard. At the end \<open>shutdown\<close>
  drains the alarms and writes the state file. \<open>scripts/check-govulncheck.go\<close> is a review tool of its own.

  \<^bold>\<open>The theories\<close>, in the order of their dependencies. State is a record per component, passed explicitly; operations keep the names of
  the source; a panic is \<open>None\<close>, an error \<open>Inl\<close>. Clocks, random bytes and what the network answers are arguments.

  \<^item> \<open>Prelude\<close>: Go maps, instants and durations, strings. \<open>Float64\<close>: rounding to \<open>float64\<close>. \<open>Runes\<close>: UTF-8. \<open>Transition\<close>: the locales
    \<open>invariant_system\<close>, \<open>descent\<close>, \<open>raise_guard\<close>, \<open>latch\<close> and \<open>recent_history\<close>, the contracts that several components share.
  \<^item> \<open>AlarmCache\<close> (\<open>alarmCache\<close> of \<open>alert.go\<close>): reservation and completion of deliveries, the alarms of the dashboard. It refines an abstract cache.
  \<^item> \<open>Delivery\<close>: concurrent deliveries as a step relation over the cache, by the locale \<open>reservation_cache\<close>. Exclusive delivery, alternation of
    triggers and resolutions.
  \<^item> \<open>Sender\<close> (\<open>notificationSender\<close> of \<open>alert.go\<close>, \<open>deliverAlert\<close>): message bodies, the four services with their retries and error
    classes, the worker. What is committed is what was accepted.
  \<^item> \<open>ChainState\<close> (\<open>types.go\<close>, \<open>runtime_state.go\<close>): the records \<open>Config\<close> and \<open>ChainConfig\<close>, their accessors, the invariant \<open>td_wf\<close>.
  \<^item> \<open>Alerts\<close> (\<open>alert\<close>, \<open>checkStalledAlert\<close>, \<open>checkPercentageAlert\<close>) and \<open>Watch\<close> (\<open>watch\<close>): every alarm of a chain. Alarms alternate, rounds
    are total, and a round touches its own chain only (\<open>evolves\<close>).
  \<^item> \<open>Blocks\<close> (\<open>rpc_contract.go\<close>, \<open>ws.go\<close>): classification of events, consensus addresses, the status loop with its counters.
  \<^item> \<open>Websocket\<close> (\<open>WsRun\<close> of \<open>ws.go\<close>): the session with its five goroutines as a step relation. Order, no loss, clean end.
  \<^item> \<open>Rpc\<close> (\<open>rpc.go\<close>, \<open>validator.go\<close>, \<open>chain-details.go\<close>): endpoint selection, health probes, validator refresh, registry tables.
    \<open>Adapter\<close> (\<open>cometbft_adapter.go\<close>): the client behind it.
  \<^item> \<open>StateFile\<close> (\<open>state.go\<close>): validation, loading with a backup, atomic replacement over a disk that can lose power between
    any two calls. \<open>Snapshot\<close>: what is saved and restored.
  \<^item> \<open>Lifecycle\<close> (\<open>run.go\<close>, \<open>runtime_state.go\<close>): alert ingress, the bounded channel, the worker and \<open>shutdown\<close> as a step relation. Safety and termination.
  \<^item> \<open>Encryption\<close> (\<open>encryption.go\<close>): the container format, both directions, the file conversion.
  \<^item> \<open>ConfigLoad\<close> (\<open>types.go\<close>): loading, chain files, validation. A process that starts satisfies \<open>td_wf\<close>.
  \<^item> \<open>Exporter\<close> (\<open>prometheus.go\<close>) and \<open>Dashboard\<close> (\<open>dashboard/server.go\<close>, \<open>init.go\<close>): what they show, that neither panics, and that hidden logs
    stay private.
  \<^item> \<open>Cli\<close> (\<open>main.go\<close>) and \<open>Vulncheck\<close> (\<open>scripts/check-govulncheck.go\<close>): options, exit codes, the comparison of two lists.
  \<^item> \<open>Process\<close> (\<open>run.go\<close>, \<open>pingHealthcheck\<close> of \<open>rpc.go\<close>): what \<open>Run\<close> starts, the loop of \<open>monitorChain\<close>, and the operations of all goroutines
    interleaved on the shared state.
  \<^item> This theory: the whole process never panics, and what a shutdown saves is what the next start restores.

  \<^bold>\<open>Parameters.\<close> Code outside \<open>src/\<close> is an argument, with what its documentation promises as a predicate: \<open>crypto\<close> with \<open>crypto_ok\<close>, \<open>comet_lib\<close>
  with \<open>lib_ok\<close>, \<open>config_env\<close> with \<open>env_ok\<close>, \<open>json_codec\<close> with \<open>codec_faithful\<close>, \<open>prom_lib\<close> with \<open>prom_ok\<close>, \<open>dash_json\<close> with \<open>json_ok\<close>.
  Every property under such a predicate has a witness with a concrete instance.

  \<^bold>\<open>Bounds.\<close> No definition needs fuel: loops over data are structural or have a measure, and loops that serve until the process ends run over
  the list of what they receive, or are step relations. Integers are unbounded except where the program multiplies durations or converts heights, where
  the wrap-around of 64 bits is written out. The exact comparison of the slashing-window alarm holds for windows that
  \<open>float64\<close> represents exactly, as its statement says.

  \<^bold>\<open>Atomicity.\<close> Operations the source runs under one mutex are one step. In \<open>Process\<close> a stage of the watch loop, one probe, one endpoint selection and one
  refresh are one step each, though the source locks more finely. Delivery, the websocket session and the shutdown are interleaved at the
  granularity of their channel and lock operations.

  \<^bold>\<open>Not modelled.\<close> HTTP listeners, the file server and the websocket upgrade of the dashboard, and the HTTP server of the metrics: input and output
  inside libraries. The web page under \<open>seer/static\<close>: drawing in the browser. Log output, apart from what reaches the
  dashboard. Shell scripts, workflows and the container. Durations of waits: a wait only decides whether the context ended. Data races on unguarded
  variables: the model gives each access one value.
\<close>

section \<open>Properties of the whole process\<close>


definition long_chain :: ChainConfig where
  "long_chain = boot_chain\<lparr>ValAddress := ''osmovaloper1abcdefghij''\<rparr>"

lemma long_boot_ok: "env_ok (boot_env (Map [(''osmosis'', Some long_chain)]))"
  by (simp add: env_ok_def boot_env_def long_chain_def boot_chain_def m_wf_def m_keys_def m_lookup_def sample_codec_def
      documentOf_def sample_state_def split: if_splits)

lemma long_loads:
  "\<exists>c cc. loadConfig (boot_env (Map [(''osmosis'', Some long_chain)])) ''config.yml'' sample_path ''chains.d'' '''' = Some (Inr c) \<and>
     Chains c = Map [(''osmosis'', cc)] \<and> ValAddress cc = ''osmovaloper1abcdefghij''"
  by (simp add: loadConfig_def readMainConfig_def isRemote_def HasPrefix_def decodeConfig_def boot_env_def
      bindDurableState_def loadStateWithReader_def readStateCandidate_def Let_def sample_td_def restoreSavedState_def
      emptySavedState_def restoreBlocks_def long_chain_def split: prod.split)

lemma long_starts:
  "\<exists>td. startConfig (boot_env (Map [(''osmosis'', Some long_chain)])) ''config.yml'' sample_path ''chains.d'' '''' = Some (Inr td)"
  by (simp add: startConfig_def loadConfig_def readMainConfig_def isRemote_def HasPrefix_def decodeConfig_def boot_env_def
      bindDurableState_def loadStateWithReader_def readStateCandidate_def Let_def validateConfig_def sample_td_def restoreSavedState_def
      emptySavedState_def restoreBlocks_def split: prod.split)

lemma long_boot:
  "\<exists>s. Run (boot_env (Map [(''osmosis'', Some long_chain)])) ''config.yml'' sample_path ''chains.d'' '''' False = Some (Inr s) \<and>
     longAddresses (st_td s) \<and> chainAt (st_td s) ''osmosis'' \<noteq> None"
proof -
  let ?env = "boot_env (Map [(''osmosis'', Some long_chain)])"
  obtain c cc where c: "loadConfig ?env ''config.yml'' sample_path ''chains.d'' '''' = Some (Inr c)"
    "Chains c = Map [(''osmosis'', cc)]" "ValAddress cc = ''osmovaloper1abcdefghij''" using long_loads by blast
  obtain td where td: "startConfig ?env ''config.yml'' sample_path ''chains.d'' '''' = Some (Inr td)" using long_starts by blast
  obtain problems wantsPublic where v: "validateConfig ?env c = (False, problems, wantsPublic, td)"
    using startConfig_Inr [OF td] c(1) by (metis option.inject sum.inject(2))
  have chains: "chainAt td k = map_option (validated c k) (chainAt c k)" for k
    using validated_chains(1) [OF _ v] c(2) by (simp add: m_wf_def m_keys_def)
  have "ValAddress (validated c k v) = ValAddress v" for k v by (simp add: validated_def prepareChain_def publishValidatorInfo_def Let_def)
  moreover have at: "chainAt c k = (if k = ''osmosis'' then Some cc else None)" for k by (simp add: c(2) m_lookup_def)
  ultimately have "longAddresses td" using c(3) by (auto simp: longAddresses_def chains at split: if_splits)
  moreover have "chainAt td ''osmosis'' \<noteq> None" by (simp add: chains at)
  ultimately show ?thesis using td by (auto simp: Run_def Let_def longAddresses_def)
qed


text \<open>C13: From the end of one process to the next: when the shutdown has saved the state of a well-formed process without an error, the
  next start finds it in the file, and its notifications go on where they stopped. A destination that accepted an alarm less than
  a day before the start does not get it again and gets its resolution; any other gets the alarm and no resolution.\<close>

theorem stop_and_restart:
  assumes "td_wf td" "disk_wf (io_disk w)" "writeStateAtomic codec p (Some (snapshotSavedState td)) w = (None, w')"
    "codec_faithful codec (documentOf (snapshotSavedState td))" "alarms td0 = newAlarmCache" "flapWindow \<le> now"
  shows "\<exists>s info. loadStateWithReader codec p (diskReader (io_disk w')) = Inr (s, info) \<and> \<not> RecoveredFromBackup info \<and>
    (\<forall>msg d. fst (reserveDelivery now msg d (alarms (restoreSavedState clock (Some s) td0))) \<longleftrightarrow>
       resolved msg = (sent_at (alarms td) d (message msg) \<noteq> 0 \<and>
         clock (destWhat d, '''') (message msg) - sent_at (alarms td) d (message msg) < 24 * Hour))"
proof -
  have "Alarms (snapshotSavedState td) \<noteq> None" by (simp add: snapshotSavedState_def split_def Let_def)
  then obtain s info where s: "loadStateWithReader codec p (diskReader (io_disk w')) = Inr (s, info)"
    "same_document (documentOf (snapshotSavedState td)) (documentOf s)" "\<not> RecoveredFromBackup info"
    using saved_state_loads [OF assms(2-4)] by auto
  then show ?thesis using restored_alarms [OF assms(1) s(2) assms(5,6) refl] by blast
qed

text \<open>A codec for the state of a process that has sent an alarm, and the disk after saving it.\<close>

definition lame_codec :: json_codec where
  "lame_codec = sample_codec\<lparr>decodeDocument :=
     (\<lambda>s. if s = ''new'' then Inr (Some (documentOf (snapshotSavedState lame_td)), '''') else decodeDocument sample_codec s)\<rparr>"

lemma lame_save:
  "writeStateAtomic lame_codec sample_path (Some (snapshotSavedState lame_td)) (startIO sample_disk [] [''1'']) =
   writeStateAtomic sample_codec sample_path (Some (sample_state [3])) (startIO sample_disk [] [''1''])"
proof -
  have rd: "readFile sample_path (startIO sample_disk [] [''1'']) = (Inr ''old'', startIO sample_disk [] [''1''])"
    by (simp add: readFile_def startIO_def sample_disk_def failure_def StateFile.outcomeOf_def consume_def)
  have dec: "decodeState lame_codec ''old'' = decodeState sample_codec ''old''" by (simp add: decodeState_def lame_codec_def sample_codec_def)
  have rep: "replaceState lame_codec sample_path doc w = replaceState sample_codec sample_path doc' w" for doc doc' w
    by (simp add: replaceState_def lame_codec_def sample_codec_def)
  show ?thesis unfolding writeStateAtomic_def rd prod.case option.case sum.case dec
    using rep by (simp split: sum.split prod.split)
qed

theorem stop_and_restart_witness:
  "\<exists>s info w'. writeStateAtomic lame_codec sample_path (Some (snapshotSavedState lame_td)) (startIO sample_disk [] [''1'']) = (None, w') \<and>
     loadStateWithReader lame_codec sample_path (diskReader (io_disk w')) = Inr (s, info) \<and>
     \<not> fst (reserveDelivery UnixZero ((sample_msg False)\<lparr>message := ''stalled''\<rparr>) Pd
         (alarms (restoreSavedState (\<lambda>_ _. UnixZero + Hour) (Some s) sample_td)))"
proof -
  let ?w = "startIO sample_disk [] [''1'']"
  obtain w' where w': "writeStateAtomic lame_codec sample_path (Some (snapshotSavedState lame_td)) ?w = (None, w')"
    using sample_save_succeeds unfolding lame_save by (metis prod.collapse)
  have "codec_faithful lame_codec (documentOf (snapshotSavedState lame_td))"
    using same_document_refl by (simp add: codec_faithful_def lame_codec_def sample_codec_def)
  moreover have "disk_wf (io_disk ?w)" using sample_disk_wf by (simp add: startIO_def)
  moreover have "alarms sample_td = newAlarmCache" "flapWindow \<le> UnixZero" by (simp_all add: sample_td_def flapWindow_def time_simps)
  ultimately obtain s info where s: "loadStateWithReader lame_codec sample_path (diskReader (io_disk w')) = Inr (s, info)"
    "fst (reserveDelivery UnixZero ((sample_msg False)\<lparr>message := ''stalled''\<rparr>) Pd (alarms (restoreSavedState (\<lambda>_ _. UnixZero + Hour) (Some s) sample_td))) \<longleftrightarrow>
       resolved (sample_msg False) = (sent_at (alarms lame_td) Pd ''stalled'' \<noteq> 0 \<and> UnixZero + Hour - sent_at (alarms lame_td) Pd ''stalled'' < 24 * Hour)"
    using stop_and_restart [OF lame_td_wf(1) _ w', of sample_td UnixZero "\<lambda>_ _. UnixZero + Hour"] by force
  moreover have "sent_at (alarms lame_td) Pd ''stalled'' = UnixZero"
    by (simp add: lame_td_def sent_at_def m_get_def m_lookup_def sentMap.simps)
  ultimately show ?thesis using w' by (auto simp: sample_msg_def time_simps)
qed

end
